(* ===== verification/Prelude.thy ===== *)
theory Prelude
  imports Main "HOL-Library.Word" "HOL-Library.List_Lexorder"
begin

text \<open>
  Shared vocabulary of the development: bytes and Go strings, the width of the
  integers that can overflow, Go's run-time panics and error values, the unspecified
  iteration order of a Go map, and \<^verbatim>\<open>sort.Search\<close> with its specification.

  Conventions. A Go \<^verbatim>\<open>string\<close> and a \<^verbatim>\<open>[]byte\<close> are both a list of bytes, ordered
  lexicographically by unsigned byte, which is Go's string comparison; a nil slice and
  an empty slice are the same list. A Go \<^verbatim>\<open>int\<close> or \<^verbatim>\<open>int64\<close> that only counts
  (revisions, terms, log indices, sequence numbers) is an \<^typ>\<open>int\<close>; where a
  client-chosen number is multiplied or narrowed the two's complement wrap-around is
  written out with \<open>i64\<close>, \<open>u8\<close> and the word type.
\<close>

section \<open>Bytes, strings and machine integers\<close>

type_synonym byte = "8 word"
type_synonym bytes = "byte list"
type_synonym gostring = "byte list"

text \<open>A Go string literal.\<close>

definition str :: "string \<Rightarrow> gostring" where
  "str s = map (\<lambda>c. word_of_int (of_char c)) s"

text \<open>Wrap-around of a 64 bit signed result, and conversion to \<^verbatim>\<open>uint8\<close>.\<close>

definition i64 :: "int \<Rightarrow> int" where
  "i64 x = signed_take_bit 63 x"

definition u8 :: "int \<Rightarrow> int" where
  "u8 x = take_bit 8 x"

lemma i64_id: "- (2 ^ 63) \<le> x \<Longrightarrow> x < 2 ^ 63 \<Longrightarrow> i64 x = x"
  by (simp add: i64_def signed_take_bit_int_eq_self)

lemma i64_bounds: "- (2 ^ 63) \<le> i64 x \<and> i64 x < 2 ^ 63"
  unfolding i64_def
  using signed_take_bit_int_greater_eq_minus_exp [of 63 x]
    signed_take_bit_int_less_exp [of 63 x] by simp

lemma u8_id: "0 \<le> x \<Longrightarrow> x < 256 \<Longrightarrow> u8 x = x"
  by (simp add: u8_def take_bit_int_eq_self)

lemma u8_bounds: "0 \<le> u8 x \<and> u8 x < 256"
  unfolding u8_def using take_bit_int_less_exp [of 8 x] by simp

section \<open>Panics, errors and named collections\<close>

datatype go_panic =
    NilPointer
  | IndexOutOfRange
  | SendOnClosedChannel
  | CloseOfClosedChannel
  | ExplicitPanic gostring

type_synonym 'a outcome = "go_panic + 'a"

text \<open>
  A Go error is compared by identity with the package's sentinels and read as text
  by \<^verbatim>\<open>Error()\<close>: the sentinels are constructors, everything made by
  \<^verbatim>\<open>fmt.Errorf\<close> or \<^verbatim>\<open>errors.New\<close> at run time carries what the message depends on.
\<close>

datatype go_error =
    ErrCompacted
  | ErrNotLeader
  | ErrTimeout
  | ErrClosed
  | ErrRPC
  | ContextCanceled
  | DeadlineExceeded
  | LeaseNotFound int
  | LeaseAlreadyExpired int
  | UnknownCommandKind int
  | UnsupportedKVType int
  | NilCommand gostring
  | ErrorString gostring

named_theorems clone_simps \<open>deep copies are the identity on values\<close>
named_theorems inv_intros \<open>every operation keeps the invariant\<close>
named_theorems frame_simps \<open>fields an operation leaves alone\<close>

section \<open>Iteration over a Go map\<close>

text \<open>
  The order in which \<^verbatim>\<open>for k := range m\<close> visits the keys is unspecified. Where the
  result depends on it, the model takes the order as a function from the key set to the
  list of keys visited.
\<close>

definition range_order :: "('k set \<Rightarrow> 'k list) \<Rightarrow> bool" where
  "range_order rng \<longleftrightarrow> (\<forall>K. finite K \<longrightarrow> set (rng K) = K \<and> distinct (rng K))"

lemma range_order_set: "range_order rng \<Longrightarrow> finite K \<Longrightarrow> set (rng K) = K"
  by (simp add: range_order_def)

lemma range_order_distinct: "range_order rng \<Longrightarrow> finite K \<Longrightarrow> distinct (rng K)"
  by (simp add: range_order_def)

lemma range_order_sorted: "range_order (sorted_list_of_set :: 'k::linorder set \<Rightarrow> 'k list)"
  by (simp add: range_order_def)

lemma range_order_rev: "range_order rng \<Longrightarrow> range_order (\<lambda>K. rev (rng K))"
  by (simp add: range_order_def)

section \<open>sort.Search\<close>

text \<open>
  The loop of \<^verbatim>\<open>sort.Search(n, f)\<close>: \<^verbatim>\<open>i, j := 0, n; for i < j { h := (i+j)>>1;
  if !f(h) { i = h + 1 } else { j = h } }; return i\<close>.
\<close>

function search_loop :: "(nat \<Rightarrow> bool) \<Rightarrow> nat \<Rightarrow> nat \<Rightarrow> nat" where
  "search_loop f i j =
     (if i < j then
        (let h = (i + j) div 2
         in if \<not> f h then search_loop f (h + 1) j else search_loop f i h)
      else i)"
  by pat_completeness auto
termination
  by (relation "measure (\<lambda>(f, i, j). j - i)") auto

declare search_loop.simps [simp del]

definition sort_Search :: "nat \<Rightarrow> (nat \<Rightarrow> bool) \<Rightarrow> nat" where
  "sort_Search n f = search_loop f 0 n"

definition upward :: "(nat \<Rightarrow> bool) \<Rightarrow> nat \<Rightarrow> nat \<Rightarrow> bool" where
  "upward f i j \<longleftrightarrow> (\<forall>a b. i \<le> a \<longrightarrow> a \<le> b \<longrightarrow> b < j \<longrightarrow> f a \<longrightarrow> f b)"

lemma upwardD: "upward f i j \<Longrightarrow> f a \<Longrightarrow> i \<le> a \<Longrightarrow> a \<le> b \<Longrightarrow> b < j \<Longrightarrow> f b"
  unfolding upward_def by blast

lemma upward_sub: "upward f i j \<Longrightarrow> i \<le> i' \<Longrightarrow> j' \<le> j \<Longrightarrow> upward f i' j'"
  unfolding upward_def by (meson less_le_trans order_trans)

definition boundary :: "(nat \<Rightarrow> bool) \<Rightarrow> nat \<Rightarrow> nat \<Rightarrow> nat \<Rightarrow> bool" where
  "boundary f i j m \<longleftrightarrow>
     i \<le> m \<and> m \<le> j \<and> (\<forall>k. i \<le> k \<longrightarrow> k < m \<longrightarrow> \<not> f k) \<and> (\<forall>k. m \<le> k \<longrightarrow> k < j \<longrightarrow> f k)"

lemma boundary_le: "boundary f i j m \<Longrightarrow> boundary f i j m' \<Longrightarrow> m' \<le> m"
  unfolding boundary_def by (metis le_less_linear le_refl less_le_trans)

lemma boundary_unique: "boundary f i j m \<Longrightarrow> boundary f i j m' \<Longrightarrow> m = m'"
  by (rule antisym) (rule boundary_le; assumption)+

lemma search_loop_boundary: "i \<le> j \<Longrightarrow> upward f i j \<Longrightarrow> boundary f i j (search_loop f i j)"
proof (induction f i j rule: search_loop.induct)
  case (1 f i j)
  define h where "h = (i + j) div 2"
  show ?case
  proof (cases "i < j")
    case False
    with "1.prems"(1) have "i = j" by simp
    then have "search_loop f i j = i" by (subst search_loop.simps) simp
    with \<open>i = j\<close> show ?thesis by (simp add: boundary_def)
  next
    case True
    then have h: "i \<le> h" "h < j" by (auto simp: h_def)
    show ?thesis
    proof (cases "f h")
      case fh: True
      have "boundary f i h (search_loop f i h)"
        using "1.IH"(2) [OF True h_def] fh h upward_sub [OF "1.prems"(2)] by simp
      moreover have "f k" if "h \<le> k" "k < j" for k
        by (rule upwardD [OF "1.prems"(2) fh h(1) that])
      moreover have "search_loop f i j = search_loop f i h"
        using fh True by (simp add: search_loop.simps [of f i j] h_def)
      ultimately show ?thesis using h by (auto simp: boundary_def not_le)
    next
      case fh: False
      have "boundary f (h + 1) j (search_loop f (h + 1) j)"
      proof (rule "1.IH"(1) [OF True h_def fh])
        show "h + 1 \<le> j" using h by simp
        show "upward f (h + 1) j" by (rule upward_sub [OF "1.prems"(2)]) (use h in simp_all)
      qed
      moreover have "\<not> f k" if "i \<le> k" "k \<le> h" for k
        using upwardD [OF "1.prems"(2) _ that h(2)] fh by blast
      moreover have "search_loop f i j = search_loop f (h + 1) j"
        using fh True by (simp add: search_loop.simps [of f i j] h_def)
      ultimately show ?thesis using h by (simp add: boundary_def) (meson not_less_eq_eq)
    qed
  qed
qed

text \<open>What the callers use: the boundary of a predicate that stays true once it is true.\<close>

lemma sort_Search_boundary: "upward f 0 n \<Longrightarrow> boundary f 0 n (sort_Search n f)"
  by (simp add: sort_Search_def search_loop_boundary)

lemma sort_Search_eqI: "upward f 0 n \<Longrightarrow> boundary f 0 n m \<Longrightarrow> sort_Search n f = m"
  by (rule boundary_unique [OF sort_Search_boundary])

section \<open>Sorted lists cut at a bound\<close>

lemma sorted_filter_less_take:
  fixes xs :: "'a::linorder list"
  assumes "sorted xs"
  shows "filter (\<lambda>x. x < t) xs = take (length (filter (\<lambda>x. x < t) xs)) xs"
    and "filter (\<lambda>x. t \<le> x) xs = drop (length (filter (\<lambda>x. x < t) xs)) xs"
proof -
  have "xs = filter (\<lambda>x. x < t) xs @ filter (\<lambda>x. t \<le> x) xs"
    using assms
  proof (induction xs)
    case (Cons x xs)
    show ?case
    proof (cases "x < t")
      case True
      with Cons show ?thesis by simp
    next
      case False
      then have "filter (\<lambda>x. x < t) xs = []" "filter (\<lambda>x. t \<le> x) xs = xs"
        using Cons.prems by (auto simp: filter_empty_conv filter_id_conv)
      with False show ?thesis by simp
    qed
  qed simp
  then show "filter (\<lambda>x. x < t) xs = take (length (filter (\<lambda>x. x < t) xs)) xs"
    and "filter (\<lambda>x. t \<le> x) xs = drop (length (filter (\<lambda>x. x < t) xs)) xs"
    by (metis append_eq_conv_conj)+
qed

lemma sorted_list_of_set_eqI:
  "sorted xs \<Longrightarrow> distinct xs \<Longrightarrow> set xs = K \<Longrightarrow> xs = sorted_list_of_set K"
  by (metis sorted_list_of_set.idem_if_sorted_distinct)

lemma sort_Search_ge:
  fixes xs :: "'a::linorder list"
  assumes "sorted xs"
  shows "sort_Search (length xs) (\<lambda>i. t \<le> xs ! i) = length (filter (\<lambda>x. x < t) xs)"
proof (rule sort_Search_eqI)
  let ?m = "length (filter (\<lambda>x. x < t) xs)"
  show "upward (\<lambda>i. t \<le> xs ! i) 0 (length xs)"
    unfolding upward_def using assms by (meson order_trans sorted_nth_mono)
  have lo: "xs ! k < t" if "k < ?m" for k
  proof -
    have "xs ! k = filter (\<lambda>x. x < t) xs ! k"
      using that sorted_filter_less_take(1) [OF assms, of t] by (metis nth_take)
    then have "xs ! k \<in> set (filter (\<lambda>x. x < t) xs)" using that by (metis nth_mem)
    then show ?thesis by simp
  qed
  have hi: "t \<le> xs ! k" if "?m \<le> k" "k < length xs" for k
  proof -
    have "drop ?m xs ! (k - ?m) \<in> set (drop ?m xs)" using that by (intro nth_mem) simp
    then have "xs ! k \<in> set (drop ?m xs)" using that by simp
    then show ?thesis
      unfolding sorted_filter_less_take(2) [OF assms, of t, symmetric] by simp
  qed
  show "boundary (\<lambda>i. t \<le> xs ! i) 0 (length xs) ?m"
    using lo hi by (auto simp: boundary_def not_le)
qed

end
