(* ===== verification/FileCodec.thy ===== *)
theory FileCodec
  imports Prelude
begin

text \<open>
  The file formats of the persistence layer: the big-endian length of \<^verbatim>\<open>encoding/binary\<close>,
  the framed payload of \<^verbatim>\<open>storage/wal/segment.go\<close> and \<^verbatim>\<open>storage/snapshot/snapshot.go\<close>, and
  the legacy single file of \<^verbatim>\<open>storage/persister/disk.go\<close>. Lengths are 64 bit words, as in
  the code.
\<close>

unbundle bit_operations_syntax

section \<open>Big-endian words\<close>

definition PutUint64 :: "64 word \<Rightarrow> bytes" where
  "PutUint64 v =
     [ucast (drop_bit 56 v), ucast (drop_bit 48 v), ucast (drop_bit 40 v), ucast (drop_bit 32 v),
      ucast (drop_bit 24 v), ucast (drop_bit 16 v), ucast (drop_bit 8 v), ucast v]"

definition Uint64 :: "bytes \<Rightarrow> 64 word" where
  "Uint64 b =
     ucast (b ! 7) OR push_bit 8 (ucast (b ! 6)) OR push_bit 16 (ucast (b ! 5)) OR
     push_bit 24 (ucast (b ! 4)) OR push_bit 32 (ucast (b ! 3)) OR push_bit 40 (ucast (b ! 2)) OR
     push_bit 48 (ucast (b ! 1)) OR push_bit 56 (ucast (b ! 0))"

lemma length_PutUint64 [simp]: "length (PutUint64 v) = 8"
  by (simp add: PutUint64_def)

lemma Uint64_Put [simp]: "Uint64 (PutUint64 v) = v"
proof (rule bit_word_eqI)
  fix n assume "n < LENGTH(64)"
  then have n: "n < 64" by simp
  consider "n < 8" | "8 \<le> n" "n < 16" | "16 \<le> n" "n < 24" | "24 \<le> n" "n < 32"
    | "32 \<le> n" "n < 40" | "40 \<le> n" "n < 48" | "48 \<le> n" "n < 56" | "56 \<le> n" using n by linarith
  then show "bit (Uint64 (PutUint64 v)) n = bit v n"
    by cases (use n in \<open>simp_all add: Uint64_def PutUint64_def bit_simps less_diff_conv2\<close>)
qed

lemma list8: "length b = 8 \<Longrightarrow> b = [b ! 0, b ! 1, b ! 2, b ! 3, b ! 4, b ! 5, b ! 6, b ! 7]"
  by (rule nth_equalityI) (auto simp: less_Suc_eq numeral_nat)

lemma Uint64_byte:
  "ucast (drop_bit 56 (Uint64 b)) = b ! 0" "ucast (drop_bit 48 (Uint64 b)) = b ! 1"
  "ucast (drop_bit 40 (Uint64 b)) = b ! 2" "ucast (drop_bit 32 (Uint64 b)) = b ! 3"
  "ucast (drop_bit 24 (Uint64 b)) = b ! 4" "ucast (drop_bit 16 (Uint64 b)) = b ! 5"
  "ucast (drop_bit 8 (Uint64 b)) = b ! 6" "ucast (Uint64 b) = b ! 7"
  unfolding Uint64_def
  by (rule bit_word_eqI; auto simp: bit_simps dest: bit_imp_le_length)+

lemma Put_Uint64 [simp]: "length b = 8 \<Longrightarrow> PutUint64 (Uint64 b) = b"
  by (subst (2) list8) (simp_all only: PutUint64_def Uint64_byte)

section \<open>Framed payloads\<close>

definition walMagic :: gostring where "walMagic = str ''WAL1''"
definition snapshotMagic :: gostring where "snapshotMagic = str ''SNP1''"
definition diskMagic :: gostring where "diskMagic = str ''RPS1''"

abbreviation (input) walHeaderSize :: nat where "walHeaderSize \<equiv> 12"
abbreviation (input) snapshotHeaderSize :: nat where "snapshotHeaderSize \<equiv> 12"
abbreviation (input) diskHeaderSize :: nat where "diskHeaderSize \<equiv> 20"

definition encodeSegment :: "bytes \<Rightarrow> bytes" where
  "encodeSegment payload = walMagic @ PutUint64 (of_nat (length payload)) @ payload"

definition decodeSegment :: "bytes \<Rightarrow> go_error + bytes" where
  "decodeSegment data =
     (if length data = 0 then Inr []
      else if length data < walHeaderSize then Inl (ErrorString (str ''wal file too short''))
      else if take 4 data \<noteq> walMagic then Inl (ErrorString (str ''invalid wal magic''))
      else
        (let payloadLen = Uint64 (take 8 (drop 4 data));
             actualLen = (of_nat (length data - walHeaderSize) :: 64 word)
         in if payloadLen \<noteq> actualLen then Inl (ErrorString (str ''wal payload size mismatch''))
            else Inr (drop walHeaderSize data)))"

definition encodeFile :: "bytes \<Rightarrow> bytes" where
  "encodeFile payload = snapshotMagic @ PutUint64 (of_nat (length payload)) @ payload"

definition decodeFile :: "bytes \<Rightarrow> go_error + bytes" where
  "decodeFile data =
     (if length data = 0 then Inr []
      else if length data < snapshotHeaderSize then Inl (ErrorString (str ''snapshot file too short''))
      else if take 4 data \<noteq> snapshotMagic then Inl (ErrorString (str ''invalid snapshot magic''))
      else
        (let payloadLen = Uint64 (take 8 (drop 4 data));
             actualLen = (of_nat (length data - snapshotHeaderSize) :: 64 word)
         in if payloadLen \<noteq> actualLen then Inl (ErrorString (str ''snapshot payload size mismatch''))
            else Inr (drop snapshotHeaderSize data)))"

text \<open>The legacy file: raft state and snapshot behind one header.\<close>

definition decodePersistFile :: "bytes \<Rightarrow> go_error + bytes \<times> bytes" where
  "decodePersistFile data =
     (if length data = 0 then Inr ([], [])
      else if length data < diskHeaderSize then Inl (ErrorString (str ''insufficient data length''))
      else if take 4 data \<noteq> diskMagic then Inl (ErrorString (str ''invalid magic header''))
      else
        (let raftLen = Uint64 (take 8 (drop 4 data));
             snapLen = Uint64 (take 8 (drop 12 data));
             payloadLen = (of_nat (length data - diskHeaderSize) :: 64 word)
         in if raftLen > payloadLen then Inl (ErrorString (str ''persist file size mismatch: raftLen''))
            else if snapLen \<noteq> payloadLen - raftLen
              then Inl (ErrorString (str ''persist file size mismatch: snapLen''))
            else
              (let raftBegin = diskHeaderSize;
                   raftEnd = raftBegin + unat raftLen;
                   snapBegin = raftEnd;
                   snapEnd = snapBegin + unat snapLen
               in Inr (take (raftEnd - raftBegin) (drop raftBegin data),
                       take (snapEnd - snapBegin) (drop snapBegin data)))))"

lemma magic_length [simp]:
  "length walMagic = 4" "length snapshotMagic = 4" "length diskMagic = 4"
  by (simp_all add: walMagic_def snapshotMagic_def diskMagic_def str_def)

lemma decode_encodeSegment [simp]: "decodeSegment (encodeSegment p) = Inr p"
  by (simp add: decodeSegment_def encodeSegment_def)

lemma decode_encodeFile [simp]: "decodeFile (encodeFile p) = Inr p"
  by (simp add: decodeFile_def encodeFile_def)

text \<open>Nothing but an encoded payload, or an empty file, is accepted.\<close>

lemma split_header:
  assumes "12 \<le> length d" "take 4 d = m" "length m = 4"
  shows "d = m @ take 8 (drop 4 d) @ drop 12 d"
proof -
  have "d = take 4 d @ take 8 (drop 4 d) @ drop 8 (drop 4 d)" by (metis append_take_drop_id)
  with assms(2) show ?thesis by simp
qed

lemma decodeSegment_Inr:
  assumes "decodeSegment d = Inr p"
  shows "d = [] \<and> p = [] \<or> d = encodeSegment p"
proof (cases "d = []")
  case True
  with assms show ?thesis by (simp add: decodeSegment_def)
next
  case False
  with assms have d: "12 \<le> length d" "take 4 d = walMagic" "p = drop 12 d"
    "Uint64 (take 8 (drop 4 d)) = of_nat (length d - 12)"
    by (auto simp: decodeSegment_def Let_def split: if_splits)
  then have "take 8 (drop 4 d) = PutUint64 (of_nat (length p))"
    using Put_Uint64 [of "take 8 (drop 4 d)"] by simp
  with split_header [OF d(1,2)] d(3) show ?thesis by (simp add: encodeSegment_def)
qed

lemma decodeFile_Inr:
  assumes "decodeFile d = Inr p"
  shows "d = [] \<and> p = [] \<or> d = encodeFile p"
proof (cases "d = []")
  case True
  with assms show ?thesis by (simp add: decodeFile_def)
next
  case False
  with assms have d: "12 \<le> length d" "take 4 d = snapshotMagic" "p = drop 12 d"
    "Uint64 (take 8 (drop 4 d)) = of_nat (length d - 12)"
    by (auto simp: decodeFile_def Let_def split: if_splits)
  then have "take 8 (drop 4 d) = PutUint64 (of_nat (length p))"
    using Put_Uint64 [of "take 8 (drop 4 d)"] by simp
  with split_header [OF d(1,2)] d(3) show ?thesis by (simp add: encodeFile_def)
qed

text \<open>The layout the legacy decoder reads.\<close>

definition legacy_layout :: "bytes \<Rightarrow> bytes \<Rightarrow> bytes" where
  "legacy_layout r s =
     diskMagic @ PutUint64 (of_nat (length r)) @ PutUint64 (of_nat (length s)) @ r @ s"

lemma decode_legacy:
  assumes "length r + length s < 2 ^ 64"
  shows "decodePersistFile (legacy_layout r s) = Inr (r, s)"
proof -
  have u: "unat (of_nat (length r) :: 64 word) = length r" "unat (of_nat (length s) :: 64 word) = length s"
    "unat (of_nat (length r + length s) :: 64 word) = length r + length s"
    using assms by (simp_all add: unat_of_nat take_bit_nat_eq_self del: of_nat_add)
  have "\<not> (of_nat (length r) :: 64 word) > of_nat (length r + length s)"
    by (simp only: word_less_nat_alt u)
  then show ?thesis
    using u by (simp add: decodePersistFile_def legacy_layout_def Let_def)
qed

end
