(* ===== verification/DiskPersister.thy ===== *)
theory DiskPersister
  imports FileCodec
begin

text \<open>
  \<^verbatim>\<open>storage/persister\<close> on a disk that can crash. Writing a file atomically is a sequence of
  system calls on a temporary file; the disk keeps apart what a process sees, what survives
  a crash, and which renamed files were never flushed. A system call that fails ends the
  sequence and \<^verbatim>\<open>Save\<close> panics, which is a crash after a prefix of the sequence.

  The JSON codec of the manifest is a parameter; the code relies on it decoding what it
  encoded. Random names of temporary files never meet a slot or the manifest.
\<close>

section \<open>The disk\<close>

datatype path = WalSlot int | SnapSlot int | ManifestFile | LegacyFile

datatype dir = WalDir | SnapDir | RootDir

fun dir_of :: "path \<Rightarrow> dir" where
  "dir_of (WalSlot _) = WalDir"
| "dir_of (SnapSlot _) = SnapDir"
| "dir_of ManifestFile = RootDir"
| "dir_of LegacyFile = RootDir"

datatype disk_op = CreateTemp | WriteTemp bytes | SyncTemp | CloseTemp | Rename path | SyncDir dir | RemoveTemp

record disk =
  d_files :: "path \<rightharpoonup> bytes"
  d_durable :: "path \<rightharpoonup> bytes"
  d_tmp :: "(bytes \<times> bool) option"
  d_unsynced :: "path set"

definition exec_op :: "disk_op \<Rightarrow> disk \<Rightarrow> disk" where
  "exec_op c d =
     (case c of
        CreateTemp \<Rightarrow> d\<lparr>d_tmp := Some ([], False)\<rparr>
      | WriteTemp data \<Rightarrow> d\<lparr>d_tmp := map_option (\<lambda>_. (data, False)) (d_tmp d)\<rparr>
      | SyncTemp \<Rightarrow> d\<lparr>d_tmp := map_option (\<lambda>(data, _). (data, True)) (d_tmp d)\<rparr>
      | CloseTemp \<Rightarrow> d
      | Rename p \<Rightarrow>
          (case d_tmp d of
             None \<Rightarrow> d
           | Some (data, synced) \<Rightarrow>
               d\<lparr>d_files := (d_files d)(p \<mapsto> data), d_tmp := None,
                 d_unsynced := (if synced then d_unsynced d - {p} else insert p (d_unsynced d))\<rparr>)
      | SyncDir dir \<Rightarrow>
          d\<lparr>d_durable := (\<lambda>p. if dir_of p = dir \<and> p \<notin> d_unsynced d then d_files d p else d_durable d p)\<rparr>
      | RemoveTemp \<Rightarrow> d\<lparr>d_tmp := None\<rparr>)"

definition exec_ops :: "disk_op list \<Rightarrow> disk \<Rightarrow> disk" where
  "exec_ops cs d = fold exec_op cs d"

text \<open>
  After a crash each file is as last made durable or as last renamed, and a file renamed
  without having been flushed may hold anything.
\<close>

definition crash_result :: "disk \<Rightarrow> (path \<rightharpoonup> bytes) \<Rightarrow> bool" where
  "crash_result d F \<longleftrightarrow>
     (\<forall>p. F p = d_durable d p \<or> F p = d_files d p \<or> p \<in> d_unsynced d)"

definition booted :: "(path \<rightharpoonup> bytes) \<Rightarrow> disk" where
  "booted F = \<lparr>d_files = F, d_durable = F, d_tmp = None, d_unsynced = {}\<rparr>"

section \<open>Slots and manifest\<close>

abbreviation (input) noSnapshotSlot :: int where "noSnapshotSlot \<equiv> - 1"

record slotManifest =
  m_RaftSlot :: int
  m_SnapshotSlot :: int

text \<open>\<^verbatim>\<open>writeSegmentAtomic\<close>, the body of \<^verbatim>\<open>Store.SaveSlot\<close> and \<^verbatim>\<open>writeFileAtomic\<close>.\<close>

definition writeSegmentAtomic :: "path \<Rightarrow> bytes \<Rightarrow> disk_op list" where
  "writeSegmentAtomic path payload =
     [CreateTemp, WriteTemp (encodeSegment payload), SyncTemp, CloseTemp, Rename path, SyncDir (dir_of path), RemoveTemp]"

definition WAL_SaveSlot :: "int \<Rightarrow> bytes \<Rightarrow> disk_op list" where
  "WAL_SaveSlot slot state = writeSegmentAtomic (WalSlot slot) state"

definition WAL_LoadSlot :: "(path \<rightharpoonup> bytes) \<Rightarrow> int \<Rightarrow> go_error + bytes" where
  "WAL_LoadSlot F slot = (case F (WalSlot slot) of None \<Rightarrow> Inr [] | Some data \<Rightarrow> decodeSegment data)"

definition Store_SaveSlot :: "int \<Rightarrow> bytes \<Rightarrow> disk_op list" where
  "Store_SaveSlot slot snapshot =
     [CreateTemp, WriteTemp (encodeFile snapshot), SyncTemp, CloseTemp, Rename (SnapSlot slot), SyncDir SnapDir,
      RemoveTemp]"

definition Store_LoadSlot :: "(path \<rightharpoonup> bytes) \<Rightarrow> int \<Rightarrow> go_error + bytes" where
  "Store_LoadSlot F slot = (case F (SnapSlot slot) of None \<Rightarrow> Inr [] | Some data \<Rightarrow> decodeFile data)"

definition validateManifest :: "slotManifest \<Rightarrow> go_error option" where
  "validateManifest m =
     (if m_RaftSlot m < 0 \<or> m_RaftSlot m \<ge> 2 then Some (ErrorString (str ''invalid raft slot''))
      else if m_SnapshotSlot m \<noteq> noSnapshotSlot \<and> (m_SnapshotSlot m < 0 \<or> m_SnapshotSlot m \<ge> 2)
        then Some (ErrorString (str ''invalid snapshot slot''))
      else None)"

definition writeFileAtomic :: "path \<Rightarrow> bytes \<Rightarrow> disk_op list" where
  "writeFileAtomic path data =
     [CreateTemp, WriteTemp data, SyncTemp, CloseTemp, Rename path, SyncDir (dir_of path), RemoveTemp]"

definition saveManifest :: "(slotManifest \<Rightarrow> bytes) \<Rightarrow> slotManifest \<Rightarrow> go_error + disk_op list" where
  "saveManifest json m =
     (case validateManifest m of
        Some e \<Rightarrow> Inl e
      | None \<Rightarrow> Inr (writeFileAtomic ManifestFile (json m)))"

definition loadManifest ::
  "(bytes \<Rightarrow> slotManifest option) \<Rightarrow> (path \<rightharpoonup> bytes) \<Rightarrow> go_error + slotManifest option" where
  "loadManifest unjson F =
     (case F ManifestFile of
        None \<Rightarrow> Inr None
      | Some data \<Rightarrow>
          (case unjson data of
             None \<Rightarrow> Inl (ErrorString (str ''json.Unmarshal''))
           | Some m \<Rightarrow> (case validateManifest m of Some e \<Rightarrow> Inl e | None \<Rightarrow> Inr (Some m))))"

section \<open>The persister\<close>

record DiskPersister =
  dp_raftSlot :: int
  dp_snapshotSlot :: int
  dp_raftstate :: bytes
  dp_snapshot :: bytes

definition nextSlot :: "int \<Rightarrow> int" where
  "nextSlot current = (if current = 0 then 1 else 0)"

definition loadSlots :: "(path \<rightharpoonup> bytes) \<Rightarrow> slotManifest \<Rightarrow> go_error + DiskPersister" where
  "loadSlots F m =
     (case WAL_LoadSlot F (m_RaftSlot m) of
        Inl e \<Rightarrow> Inl e
      | Inr raftstate \<Rightarrow>
          (case (if m_SnapshotSlot m \<noteq> noSnapshotSlot then Store_LoadSlot F (m_SnapshotSlot m) else Inr []) of
             Inl e \<Rightarrow> Inl e
           | Inr snapshot \<Rightarrow>
               Inr \<lparr>dp_raftSlot = m_RaftSlot m, dp_snapshotSlot = m_SnapshotSlot m,
                    dp_raftstate = raftstate, dp_snapshot = snapshot\<rparr>))"

definition migrateLegacyFile ::
  "(slotManifest \<Rightarrow> bytes) \<Rightarrow> (path \<rightharpoonup> bytes) \<Rightarrow> go_error + DiskPersister \<times> disk_op list" where
  "migrateLegacyFile json F =
     (case F LegacyFile of
        None \<Rightarrow>
          Inr (\<lparr>dp_raftSlot = 0, dp_snapshotSlot = noSnapshotSlot, dp_raftstate = [], dp_snapshot = []\<rparr>, [])
      | Some data \<Rightarrow>
          (case decodePersistFile data of
             Inl e \<Rightarrow> Inl e
           | Inr (raftstate, snapshot) \<Rightarrow>
               (let raftSlot = 0;
                    snapshotSlot = (if length snapshot > 0 then 0 else noSnapshotSlot);
                    ops1 = (if length snapshot > 0 then Store_SaveSlot snapshotSlot snapshot else []);
                    ops2 = WAL_SaveSlot raftSlot raftstate
                in case saveManifest json \<lparr>m_RaftSlot = raftSlot, m_SnapshotSlot = snapshotSlot\<rparr> of
                     Inl e \<Rightarrow> Inl e
                   | Inr ops3 \<Rightarrow>
                       Inr (\<lparr>dp_raftSlot = raftSlot, dp_snapshotSlot = snapshotSlot,
                             dp_raftstate = raftstate, dp_snapshot = snapshot\<rparr>, ops1 @ ops2 @ ops3))))"

definition loadFromDisk ::
  "(slotManifest \<Rightarrow> bytes) \<Rightarrow> (bytes \<Rightarrow> slotManifest option) \<Rightarrow> (path \<rightharpoonup> bytes) \<Rightarrow>
     go_error + DiskPersister \<times> disk_op list" where
  "loadFromDisk json unjson F =
     (case loadManifest unjson F of
        Inl e \<Rightarrow> Inl e
      | Inr (Some m) \<Rightarrow> (case loadSlots F m of Inl e \<Rightarrow> Inl e | Inr ps \<Rightarrow> Inr (ps, []))
      | Inr None \<Rightarrow> migrateLegacyFile json F)"

text \<open>
  \<^verbatim>\<open>Save\<close>: the system calls it makes and the persister after them. A manifest that does not
  validate would panic.
\<close>

definition DiskPersister_Save ::
  "(slotManifest \<Rightarrow> bytes) \<Rightarrow> DiskPersister \<Rightarrow> bytes \<Rightarrow> bytes \<Rightarrow> (DiskPersister \<times> disk_op list) outcome" where
  "DiskPersister_Save json ps newRaft newSnap =
     (let newRaftSlot = nextSlot (dp_raftSlot ps);
          newSnapshotSlot0 = (if length newSnap = 0 then noSnapshotSlot else dp_snapshotSlot ps);
          fresh = (length newSnap > 0 \<and>
                   (dp_snapshotSlot ps = noSnapshotSlot \<or> newSnap \<noteq> dp_snapshot ps));
          newSnapshotSlot = (if fresh then nextSlot (dp_snapshotSlot ps) else newSnapshotSlot0);
          ops1 = (if fresh then Store_SaveSlot newSnapshotSlot newSnap else []);
          ops2 = WAL_SaveSlot newRaftSlot newRaft
      in case saveManifest json \<lparr>m_RaftSlot = newRaftSlot, m_SnapshotSlot = newSnapshotSlot\<rparr> of
           Inl e \<Rightarrow> Inl (ExplicitPanic (str ''saveManifest''))
         | Inr ops3 \<Rightarrow>
             Inr (\<lparr>dp_raftSlot = newRaftSlot, dp_snapshotSlot = newSnapshotSlot,
                   dp_raftstate = newRaft, dp_snapshot = newSnap\<rparr>, ops1 @ ops2 @ ops3))"

definition DiskPersister_ReadRaftState :: "DiskPersister \<Rightarrow> bytes" where
  "DiskPersister_ReadRaftState ps = dp_raftstate ps"

definition DiskPersister_ReadSnapshot :: "DiskPersister \<Rightarrow> bytes" where
  "DiskPersister_ReadSnapshot ps = dp_snapshot ps"

definition DiskPersister_RaftStateSize :: "DiskPersister \<Rightarrow> int" where
  "DiskPersister_RaftStateSize ps = int (length (dp_raftstate ps))"

definition DiskPersister_SnapshotSize :: "DiskPersister \<Rightarrow> int" where
  "DiskPersister_SnapshotSize ps = int (length (dp_snapshot ps))"

section \<open>Atomic writes\<close>

text \<open>A clean disk: nothing is waiting to become durable.\<close>

definition clean :: "disk \<Rightarrow> bool" where
  "clean d \<longleftrightarrow> d_durable d = d_files d \<and> d_unsynced d = {}"

lemma clean_booted [simp]: "clean (booted F)"
  by (simp add: clean_def booted_def)

lemma exec_ops_simps [simp]:
  "exec_ops [] d = d" "exec_ops (c # cs) d = exec_ops cs (exec_op c d)"
  "exec_ops (cs @ ds) d = exec_ops ds (exec_ops cs d)"
  by (simp_all add: exec_ops_def)

lemma atomic_ops:
  "WAL_SaveSlot n p = writeFileAtomic (WalSlot n) (encodeSegment p)"
  "Store_SaveSlot n p = writeFileAtomic (SnapSlot n) (encodeFile p)"
  by (simp_all add: WAL_SaveSlot_def writeSegmentAtomic_def Store_SaveSlot_def writeFileAtomic_def)

lemma writeFileAtomic_done:
  "clean d \<Longrightarrow> clean (exec_ops (writeFileAtomic p data) d) \<and>
     d_files (exec_ops (writeFileAtomic p data) d) = (d_files d)(p \<mapsto> data)"
  by (simp add: writeFileAtomic_def exec_op_def clean_def fun_eq_iff)

text \<open>A crash anywhere inside an atomic write leaves the old or the new content.\<close>

lemma writeFileAtomic_crash:
  assumes "clean d" and "crash_result (exec_ops (take n (writeFileAtomic p data)) d) F"
  shows "F = d_files d \<or> F = (d_files d)(p \<mapsto> data)"
proof -
  have "n = 0 \<or> n = 1 \<or> n = 2 \<or> n = 3 \<or> n = 4 \<or> n = 5 \<or> n = 6 \<or> 7 \<le> n" by linarith
  then have "\<forall>q. F q = d_files d q \<or> F q = ((d_files d)(p \<mapsto> data)) q"
    using assms
    by (elim disjE)
      (auto simp: writeFileAtomic_def exec_op_def clean_def crash_result_def numeral_nat split: if_splits)
  moreover from this have "F q = d_files d q" if "q \<noteq> p" for q using that by auto
  ultimately show ?thesis
    by (cases "F p = d_files d p") (auto simp: fun_eq_iff, metis fun_upd_other fun_upd_same)+
qed

section \<open>A sequence of atomic writes\<close>

definition writes :: "(path \<times> bytes) list \<Rightarrow> disk_op list" where
  "writes ws = concat (map (\<lambda>(p, data). writeFileAtomic p data) ws)"

definition put_files :: "(path \<times> bytes) list \<Rightarrow> (path \<rightharpoonup> bytes) \<Rightarrow> (path \<rightharpoonup> bytes)" where
  "put_files ws F = fold (\<lambda>(p, data) F. F(p \<mapsto> data)) ws F"

lemma writes_simps [simp]:
  "writes [] = []" "writes ((p, data) # ws) = writeFileAtomic p data @ writes ws"
  by (simp_all add: writes_def)

lemma put_files_simps [simp]:
  "put_files [] F = F" "put_files ((p, data) # ws) F = put_files ws (F(p \<mapsto> data))"
  by (simp_all add: put_files_def)

lemma writes_done:
  "clean d \<Longrightarrow> clean (exec_ops (writes ws) d) \<and>
     d_files (exec_ops (writes ws) d) = put_files ws (d_files d)"
  by (induction ws arbitrary: d) (auto simp: writeFileAtomic_done)

lemma writes_crash:
  assumes "clean d" and "crash_result (exec_ops (take n (writes ws)) d) F"
  shows "\<exists>j \<le> length ws. F = put_files (take j ws) (d_files d)"
  using assms
proof (induction ws arbitrary: d n)
  case Nil
  then have "F = d_files d" by (auto simp: crash_result_def clean_def fun_eq_iff)
  then show ?case by simp
next
  case (Cons w ws)
  obtain p data where w: "w = (p, data)" by (cases w)
  let ?A = "writeFileAtomic p data"
  show ?case
  proof (cases "n \<le> length ?A")
    case True
    then have "crash_result (exec_ops (take n ?A) d) F" using Cons.prems(2) by (simp add: w)
    from writeFileAtomic_crash [OF Cons.prems(1) this] show ?thesis
    proof
      assume "F = d_files d"
      then show ?thesis by (intro exI [of _ 0]) simp
    next
      assume "F = (d_files d)(p \<mapsto> data)"
      then show ?thesis by (intro exI [of _ 1]) (simp add: w)
    qed
  next
    case False
    let ?d = "exec_ops ?A d"
    have "clean ?d" "d_files ?d = (d_files d)(p \<mapsto> data)"
      using writeFileAtomic_done [OF Cons.prems(1)] by simp_all
    moreover have "crash_result (exec_ops (take (n - length ?A) (writes ws)) ?d) F"
      using Cons.prems(2) False by (simp add: w)
    ultimately obtain j where "j \<le> length ws" "F = put_files (take j ws) ((d_files d)(p \<mapsto> data))"
      using Cons.IH by metis
    then show ?thesis by (intro exI [of _ "Suc j"]) (simp add: w)
  qed
qed

section \<open>Saving and loading\<close>

definition json_ok :: "(slotManifest \<Rightarrow> bytes) \<Rightarrow> (bytes \<Rightarrow> slotManifest option) \<Rightarrow> bool" where
  "json_ok json unjson \<longleftrightarrow> (\<forall>m. validateManifest m = None \<longrightarrow> unjson (json m) = Some m)"

definition slots_ok :: "DiskPersister \<Rightarrow> bool" where
  "slots_ok ps \<longleftrightarrow> dp_raftSlot ps \<in> {0, 1} \<and> dp_snapshotSlot ps \<in> {noSnapshotSlot, 0, 1}"

lemma validate_slots:
  "validateManifest m = None \<longleftrightarrow> m_RaftSlot m \<in> {0, 1} \<and> m_SnapshotSlot m \<in> {noSnapshotSlot, 0, 1}"
  by (auto simp: validateManifest_def)

lemma nextSlot_range [simp]: "nextSlot n \<in> {0, 1}" "nextSlot n \<noteq> n"
  by (auto simp: nextSlot_def)

text \<open>The persister is what a restart would load.\<close>

definition persisted ::
  "(slotManifest \<Rightarrow> bytes) \<Rightarrow> (bytes \<Rightarrow> slotManifest option) \<Rightarrow> disk \<Rightarrow> DiskPersister \<Rightarrow> bool" where
  "persisted json unjson d ps \<longleftrightarrow>
     clean d \<and> loadFromDisk json unjson (d_files d) = Inr (ps, []) \<and> slots_ok ps"

lemma loadSlots_Inr:
  "loadSlots F m = Inr ps \<longleftrightarrow>
     WAL_LoadSlot F (m_RaftSlot m) = Inr (dp_raftstate ps) \<and>
     (if m_SnapshotSlot m = noSnapshotSlot then dp_snapshot ps = []
      else Store_LoadSlot F (m_SnapshotSlot m) = Inr (dp_snapshot ps)) \<and>
     dp_raftSlot ps = m_RaftSlot m \<and> dp_snapshotSlot ps = m_SnapshotSlot m"
  by (cases ps) (auto simp: loadSlots_def split: sum.splits if_splits)

text \<open>What a load depends on.\<close>

lemma load_cases:
  assumes "loadFromDisk json unjson F = Inr (ps, [])"
  shows "(F ManifestFile = None \<and> F LegacyFile = None \<and>
      ps = \<lparr>dp_raftSlot = 0, dp_snapshotSlot = noSnapshotSlot, dp_raftstate = [], dp_snapshot = []\<rparr>) \<or>
    (\<exists>data m. F ManifestFile = Some data \<and> unjson data = Some m \<and> validateManifest m = None \<and>
      loadSlots F m = Inr ps \<and> dp_raftSlot ps = m_RaftSlot m \<and> dp_snapshotSlot ps = m_SnapshotSlot m)"
  using assms
  by (auto simp: loadFromDisk_def loadManifest_def migrateLegacyFile_def loadSlots_Inr Let_def
      saveManifest_def writeFileAtomic_def atomic_ops split: option.splits sum.splits if_splits)

lemma load_cong:
  assumes "loadFromDisk json unjson F = Inr (ps, [])"
    and "F' ManifestFile = F ManifestFile" "F' LegacyFile = F LegacyFile"
    "F' (WalSlot (dp_raftSlot ps)) = F (WalSlot (dp_raftSlot ps))"
    "F' (SnapSlot (dp_snapshotSlot ps)) = F (SnapSlot (dp_snapshotSlot ps))"
  shows "loadFromDisk json unjson F' = Inr (ps, [])"
  using load_cases [OF assms(1)]
proof (elim disjE conjE exE)
  assume "F ManifestFile = None" "F LegacyFile = None"
  with assms(1-3) show ?thesis by (simp add: loadFromDisk_def loadManifest_def migrateLegacyFile_def)
next
  fix data m
  assume a: "F ManifestFile = Some data" "unjson data = Some m" "validateManifest m = None"
    "loadSlots F m = Inr ps" "dp_raftSlot ps = m_RaftSlot m" "dp_snapshotSlot ps = m_SnapshotSlot m"
  then have "loadSlots F' m = Inr ps"
    using assms(4,5)
    by (cases "m_SnapshotSlot m = noSnapshotSlot")
      (simp_all add: loadSlots_Inr WAL_LoadSlot_def Store_LoadSlot_def)
  with a assms(2) show ?thesis by (simp add: loadFromDisk_def loadManifest_def)
qed

lemma loaded_snapshot:
  assumes "loadFromDisk json unjson F = Inr (ps, [])" and "dp_snapshotSlot ps \<noteq> noSnapshotSlot"
  shows "Store_LoadSlot F (dp_snapshotSlot ps) = Inr (dp_snapshot ps)"
  using load_cases [OF assms(1)] assms(2)
  by (auto simp: loadSlots_Inr)

text \<open>The three writes of a save, the snapshot's only when it is new.\<close>

definition save_writes :: "(slotManifest \<Rightarrow> bytes) \<Rightarrow> DiskPersister \<Rightarrow> DiskPersister \<Rightarrow> (path \<times> bytes) list" where
  "save_writes json ps ps' =
     (if dp_snapshot ps' \<noteq> [] \<and> (dp_snapshotSlot ps = noSnapshotSlot \<or> dp_snapshot ps' \<noteq> dp_snapshot ps)
      then [(SnapSlot (dp_snapshotSlot ps'), encodeFile (dp_snapshot ps'))] else []) @
     [(WalSlot (dp_raftSlot ps'), encodeSegment (dp_raftstate ps')),
      (ManifestFile, json \<lparr>m_RaftSlot = dp_raftSlot ps', m_SnapshotSlot = dp_snapshotSlot ps'\<rparr>)]"

lemma Save_ok:
  assumes "slots_ok ps"
  obtains ps' where "DiskPersister_Save json ps r s = Inr (ps', writes (save_writes json ps ps'))"
    "dp_raftstate ps' = r" "dp_snapshot ps' = s" "slots_ok ps'"
    "dp_raftSlot ps' \<noteq> dp_raftSlot ps"
    "s \<noteq> [] \<and> (dp_snapshotSlot ps = noSnapshotSlot \<or> s \<noteq> dp_snapshot ps) \<Longrightarrow>
       dp_snapshotSlot ps' \<noteq> dp_snapshotSlot ps \<and> dp_snapshotSlot ps' \<noteq> noSnapshotSlot"
    "s \<noteq> [] \<Longrightarrow> \<not> (dp_snapshotSlot ps = noSnapshotSlot \<or> s \<noteq> dp_snapshot ps) \<Longrightarrow>
       dp_snapshotSlot ps' = dp_snapshotSlot ps"
    "s = [] \<Longrightarrow> dp_snapshotSlot ps' = noSnapshotSlot"
proof -
  let ?fresh = "s \<noteq> [] \<and> (dp_snapshotSlot ps = noSnapshotSlot \<or> s \<noteq> dp_snapshot ps)"
  define ps' where "ps' = \<lparr>dp_raftSlot = nextSlot (dp_raftSlot ps),
      dp_snapshotSlot = (if ?fresh then nextSlot (dp_snapshotSlot ps)
        else if s = [] then noSnapshotSlot else dp_snapshotSlot ps),
      dp_raftstate = r, dp_snapshot = s\<rparr>"
  have ok: "slots_ok ps'" using assms by (auto simp: slots_ok_def ps'_def nextSlot_def)
  then have "validateManifest \<lparr>m_RaftSlot = dp_raftSlot ps', m_SnapshotSlot = dp_snapshotSlot ps'\<rparr> = None"
    by (simp add: validate_slots slots_ok_def)
  then have "DiskPersister_Save json ps r s = Inr (ps', writes (save_writes json ps ps'))"
    by (simp add: DiskPersister_Save_def Let_def saveManifest_def ps'_def save_writes_def atomic_ops)
  then show ?thesis
    by (rule that) (use ok nextSlot_range(2) in \<open>auto simp: ps'_def nextSlot_def\<close>)
qed

lemma load_new:
  assumes "json_ok json unjson" and "slots_ok ps'"
    and "F ManifestFile = Some (json \<lparr>m_RaftSlot = dp_raftSlot ps', m_SnapshotSlot = dp_snapshotSlot ps'\<rparr>)"
    and "F (WalSlot (dp_raftSlot ps')) = Some (encodeSegment (dp_raftstate ps'))"
    and "dp_snapshotSlot ps' \<noteq> noSnapshotSlot \<Longrightarrow>
      Store_LoadSlot F (dp_snapshotSlot ps') = Inr (dp_snapshot ps')"
    and "dp_snapshotSlot ps' = noSnapshotSlot \<Longrightarrow> dp_snapshot ps' = []"
  shows "loadFromDisk json unjson F = Inr (ps', [])"
proof -
  let ?m = "\<lparr>m_RaftSlot = dp_raftSlot ps', m_SnapshotSlot = dp_snapshotSlot ps'\<rparr>"
  have v: "validateManifest ?m = None" using assms(2) by (simp add: validate_slots slots_ok_def)
  then have "unjson (json ?m) = Some ?m" using assms(1) by (simp add: json_ok_def)
  moreover have "loadSlots F ?m = Inr ps'"
    using assms(4-6) by (simp add: loadSlots_Inr WAL_LoadSlot_def)
  ultimately show ?thesis using v assms(3) by (simp add: loadFromDisk_def loadManifest_def)
qed

text \<open>Load after the first \<open>j\<close> writes of a save: the old persister until the last, then the new.\<close>

lemma put_files_keep: "\<forall>w \<in> set ws. fst w \<noteq> p \<Longrightarrow> put_files ws F p = F p"
  by (induction ws arbitrary: F) auto

lemma save_prefix_loads:
  assumes L: "loadFromDisk json unjson F = Inr (ps, [])"
    and raft: "dp_raftSlot q \<noteq> dp_raftSlot ps"
    and snap: "dp_snapshot q \<noteq> [] \<and> (dp_snapshotSlot ps = noSnapshotSlot \<or> dp_snapshot q \<noteq> dp_snapshot ps) \<Longrightarrow>
      dp_snapshotSlot q \<noteq> dp_snapshotSlot ps"
    and j: "j < length (save_writes json ps q)"
  shows "loadFromDisk json unjson (put_files (take j (save_writes json ps q)) F) = Inr (ps, [])"
proof (rule load_cong [OF L])
  let ?ws = "take j (save_writes json ps q)"
  have ws: "fst w = SnapSlot (dp_snapshotSlot q) \<and> dp_snapshotSlot q \<noteq> dp_snapshotSlot ps \<or>
      fst w = WalSlot (dp_raftSlot q)" if "w \<in> set ?ws" for w
    using that j snap by (auto simp: save_writes_def take_Cons' split: if_splits)
  show "put_files ?ws F ManifestFile = F ManifestFile" "put_files ?ws F LegacyFile = F LegacyFile"
    "put_files ?ws F (WalSlot (dp_raftSlot ps)) = F (WalSlot (dp_raftSlot ps))"
    "put_files ?ws F (SnapSlot (dp_snapshotSlot ps)) = F (SnapSlot (dp_snapshotSlot ps))"
    by (rule put_files_keep, use ws raft in fastforce)+
qed

lemma save_done_loads:
  assumes js: "json_ok json unjson" and L: "loadFromDisk json unjson F = Inr (ps, [])"
    and ok: "slots_ok q"
    and none: "dp_snapshotSlot q = noSnapshotSlot \<longleftrightarrow> dp_snapshot q = []"
    and kept: "dp_snapshot q \<noteq> [] \<Longrightarrow> dp_snapshotSlot ps \<noteq> noSnapshotSlot \<Longrightarrow>
      dp_snapshot q = dp_snapshot ps \<Longrightarrow> dp_snapshotSlot q = dp_snapshotSlot ps"
  shows "loadFromDisk json unjson (put_files (save_writes json ps q) F) = Inr (q, [])"
proof (rule load_new [OF js ok])
  let ?G = "put_files (save_writes json ps q) F"
  show "?G ManifestFile = Some (json \<lparr>m_RaftSlot = dp_raftSlot q, m_SnapshotSlot = dp_snapshotSlot q\<rparr>)"
    "?G (WalSlot (dp_raftSlot q)) = Some (encodeSegment (dp_raftstate q))"
    by (simp_all add: save_writes_def)
  show "dp_snapshotSlot q = noSnapshotSlot \<Longrightarrow> dp_snapshot q = []" using none by simp
  assume "dp_snapshotSlot q \<noteq> noSnapshotSlot"
  then have ne: "dp_snapshot q \<noteq> []" using none by simp
  show "Store_LoadSlot ?G (dp_snapshotSlot q) = Inr (dp_snapshot q)"
  proof (cases "dp_snapshotSlot ps = noSnapshotSlot \<or> dp_snapshot q \<noteq> dp_snapshot ps")
    case True
    with ne show ?thesis by (simp add: save_writes_def Store_LoadSlot_def)
  next
    case False
    with kept ne loaded_snapshot [OF L] show ?thesis by (simp add: save_writes_def Store_LoadSlot_def)
  qed
qed

lemma save_loads:
  assumes "json_ok json unjson" and "persisted json unjson d ps"
    and "DiskPersister_Save json ps r s = Inr (ps', ops)"
  shows "ops = writes (save_writes json ps ps')" "slots_ok ps'" "dp_raftstate ps' = r" "dp_snapshot ps' = s"
    and "j < length (save_writes json ps ps') \<Longrightarrow>
      loadFromDisk json unjson (put_files (take j (save_writes json ps ps')) (d_files d)) = Inr (ps, [])"
    and "loadFromDisk json unjson (put_files (save_writes json ps ps') (d_files d)) = Inr (ps', [])"
proof -
  have L: "loadFromDisk json unjson (d_files d) = Inr (ps, [])" and ok: "slots_ok ps"
    using assms(2) by (simp_all add: persisted_def)
  obtain q where q: "DiskPersister_Save json ps r s = Inr (q, writes (save_writes json ps q))"
    "dp_raftstate q = r" "dp_snapshot q = s" "slots_ok q" "dp_raftSlot q \<noteq> dp_raftSlot ps"
    "s \<noteq> [] \<and> (dp_snapshotSlot ps = noSnapshotSlot \<or> s \<noteq> dp_snapshot ps) \<Longrightarrow>
       dp_snapshotSlot q \<noteq> dp_snapshotSlot ps \<and> dp_snapshotSlot q \<noteq> noSnapshotSlot"
    "s \<noteq> [] \<Longrightarrow> \<not> (dp_snapshotSlot ps = noSnapshotSlot \<or> s \<noteq> dp_snapshot ps) \<Longrightarrow>
       dp_snapshotSlot q = dp_snapshotSlot ps"
    "s = [] \<Longrightarrow> dp_snapshotSlot q = noSnapshotSlot"
    by (rule Save_ok [OF ok]) blast
  have eq: "ps' = q" "ops = writes (save_writes json ps q)" using q(1) assms(3) by auto
  show "ops = writes (save_writes json ps ps')" "slots_ok ps'" "dp_raftstate ps' = r" "dp_snapshot ps' = s"
    using eq q by simp_all
  have none: "dp_snapshotSlot q = noSnapshotSlot \<longleftrightarrow> s = []"
    using q(6-8) by (cases "s = []"; cases "dp_snapshotSlot ps = noSnapshotSlot \<or> s \<noteq> dp_snapshot ps") auto
  show "loadFromDisk json unjson (put_files (take j (save_writes json ps ps')) (d_files d)) = Inr (ps, [])"
    if "j < length (save_writes json ps ps')"
    using that q(3,6) unfolding eq(1) by (intro save_prefix_loads [OF L q(5)]) auto
  show "loadFromDisk json unjson (put_files (save_writes json ps ps') (d_files d)) = Inr (ps', [])"
    unfolding eq(1) by (rule save_done_loads [OF assms(1) L q(4)]) (use none q(3,7) in auto)
qed

section \<open>Crash safety\<close>

text \<open>A completed save is what a restart loads.\<close>

lemma save_persisted:
  assumes "json_ok json unjson" and "persisted json unjson d ps"
    and "DiskPersister_Save json ps r s = Inr (ps', ops)"
  shows "persisted json unjson (exec_ops ops d) ps'"
proof -
  note sl = save_loads [OF assms]
  have c: "clean d" using assms(2) by (simp add: persisted_def)
  show ?thesis
    using sl(2,6) writes_done [OF c] unfolding sl(1) by (simp add: persisted_def)
qed

lemma save_crash:
  assumes "json_ok json unjson" and "persisted json unjson d ps"
    and "DiskPersister_Save json ps r s = Inr (ps', ops)"
    and "crash_result (exec_ops (take n ops) d) F"
  shows "persisted json unjson (booted F) ps \<or> persisted json unjson (booted F) ps'"
proof -
  note sl = save_loads [OF assms(1-3)]
  have c: "clean d" "slots_ok ps" using assms(2) by (simp_all add: persisted_def)
  obtain j where j: "j \<le> length (save_writes json ps ps')"
    "F = put_files (take j (save_writes json ps ps')) (d_files d)"
    using writes_crash [OF c(1)] assms(4) unfolding sl(1) by blast
  show ?thesis
  proof (cases "j < length (save_writes json ps ps')")
    case True
    then show ?thesis using sl(5) [OF True] c(2) j(2) by (simp add: persisted_def booted_def clean_def)
  next
    case False
    then show ?thesis using sl(2,6) j by (simp add: persisted_def booted_def clean_def)
  qed
qed

end
