(* ===== verification/PersistProps.thy ===== *)
theory PersistProps
  imports DiskPersister
begin

text \<open>
  The \<^verbatim>\<open>Persister\<close> interface that raft relies on (\<^verbatim>\<open>persister.go\<close>), its two
  implementations, and the properties of the persistence layer.
\<close>

section \<open>The interface\<close>

locale persister =
  fixes invar :: "'p \<Rightarrow> bool"
    and save :: "'p \<Rightarrow> bytes \<Rightarrow> bytes \<Rightarrow> 'p"
    and readRaftState :: "'p \<Rightarrow> bytes"
    and readSnapshot :: "'p \<Rightarrow> bytes"
    and raftStateSize :: "'p \<Rightarrow> int"
    and snapshotSize :: "'p \<Rightarrow> int"
  assumes save_invar [simp]: "invar p \<Longrightarrow> invar (save p r s)"
    and read_saved_raft [simp]: "invar p \<Longrightarrow> readRaftState (save p r s) = r"
    and read_saved_snapshot [simp]: "invar p \<Longrightarrow> readSnapshot (save p r s) = s"
    and raft_size [simp]: "invar p \<Longrightarrow> raftStateSize p = int (length (readRaftState p))"
    and snapshot_size [simp]: "invar p \<Longrightarrow> snapshotSize p = int (length (readSnapshot p))"
begin

text \<open>After any number of saves the last one is read back.\<close>

lemma last_save_wins:
  assumes "invar p" and "saves \<noteq> []"
  shows "invar (foldl (\<lambda>p (r, s). save p r s) p saves) \<and>
    readRaftState (foldl (\<lambda>p (r, s). save p r s) p saves) = fst (last saves) \<and>
    readSnapshot (foldl (\<lambda>p (r, s). save p r s) p saves) = snd (last saves)"
  using assms
proof (induction saves arbitrary: p)
  case (Cons rs saves)
  then show ?case by (cases "saves = []") (auto split: prod.splits)
qed simp

end

section \<open>In memory\<close>

record MemoryPersister =
  mp_raftstate :: bytes
  mp_snapshot :: bytes

definition MakePersister :: MemoryPersister where
  "MakePersister = \<lparr>mp_raftstate = [], mp_snapshot = []\<rparr>"

definition MemoryPersister_Save :: "MemoryPersister \<Rightarrow> bytes \<Rightarrow> bytes \<Rightarrow> MemoryPersister" where
  "MemoryPersister_Save ps raftstate snapshot = ps\<lparr>mp_raftstate := raftstate, mp_snapshot := snapshot\<rparr>"

definition MemoryPersister_ReadRaftState :: "MemoryPersister \<Rightarrow> bytes" where
  "MemoryPersister_ReadRaftState ps = mp_raftstate ps"

definition MemoryPersister_RaftStateSize :: "MemoryPersister \<Rightarrow> int" where
  "MemoryPersister_RaftStateSize ps = int (length (mp_raftstate ps))"

definition MemoryPersister_ReadSnapshot :: "MemoryPersister \<Rightarrow> bytes" where
  "MemoryPersister_ReadSnapshot ps = mp_snapshot ps"

definition MemoryPersister_SnapshotSize :: "MemoryPersister \<Rightarrow> int" where
  "MemoryPersister_SnapshotSize ps = int (length (mp_snapshot ps))"

interpretation memp: persister "\<lambda>_. True" MemoryPersister_Save MemoryPersister_ReadRaftState
  MemoryPersister_ReadSnapshot MemoryPersister_RaftStateSize MemoryPersister_SnapshotSize
  by unfold_locales
    (simp_all add: MemoryPersister_Save_def MemoryPersister_ReadRaftState_def
      MemoryPersister_ReadSnapshot_def MemoryPersister_RaftStateSize_def MemoryPersister_SnapshotSize_def)

section \<open>On disk\<close>

text \<open>The persister and the disk it writes, with \<^verbatim>\<open>Save\<close> run to its end.\<close>

definition disk_save ::
  "(slotManifest \<Rightarrow> bytes) \<Rightarrow> DiskPersister \<times> disk \<Rightarrow> bytes \<Rightarrow> bytes \<Rightarrow> DiskPersister \<times> disk" where
  "disk_save json p r s =
     (case DiskPersister_Save json (fst p) r s of
        Inl _ \<Rightarrow> p
      | Inr (ps', ops) \<Rightarrow> (ps', exec_ops ops (snd p)))"

interpretation diskp: persister "\<lambda>p. slots_ok (fst p)" "disk_save json"
  "\<lambda>p. DiskPersister_ReadRaftState (fst p)" "\<lambda>p. DiskPersister_ReadSnapshot (fst p)"
  "\<lambda>p. DiskPersister_RaftStateSize (fst p)" "\<lambda>p. DiskPersister_SnapshotSize (fst p)" for json
proof unfold_locales
  fix p :: "DiskPersister \<times> disk" and r s
  assume "slots_ok (fst p)"
  then obtain ps' ops where ps': "DiskPersister_Save json (fst p) r s = Inr (ps', ops)"
    "dp_raftstate ps' = r" "dp_snapshot ps' = s" "slots_ok ps'"
    by (rule Save_ok)
  show "slots_ok (fst (disk_save json p r s))"
    "DiskPersister_ReadRaftState (fst (disk_save json p r s)) = r"
    "DiskPersister_ReadSnapshot (fst (disk_save json p r s)) = s"
    by (simp_all add: disk_save_def ps' DiskPersister_ReadRaftState_def DiskPersister_ReadSnapshot_def)
qed (simp_all add: DiskPersister_RaftStateSize_def DiskPersister_SnapshotSize_def
    DiskPersister_ReadRaftState_def DiskPersister_ReadSnapshot_def)

section \<open>Concrete codec and disk\<close>

definition json_demo :: "slotManifest \<Rightarrow> bytes" where
  "json_demo m = [word_of_int (m_RaftSlot m), word_of_int (m_SnapshotSlot m + 1)]"

definition unjson_demo :: "bytes \<Rightarrow> slotManifest option" where
  "unjson_demo b =
     (if length b = 2 then Some \<lparr>m_RaftSlot = uint (b ! 0), m_SnapshotSlot = uint (b ! 1) - 1\<rparr> else None)"

lemma json_demo_ok: "json_ok json_demo unjson_demo"
  by (auto simp: json_ok_def validate_slots json_demo_def unjson_demo_def)

definition fresh_persister :: DiskPersister where
  "fresh_persister =
     \<lparr>dp_raftSlot = 0, dp_snapshotSlot = noSnapshotSlot, dp_raftstate = [], dp_snapshot = []\<rparr>"

lemma fresh_persisted: "persisted json unjson (booted Map.empty) fresh_persister"
  by (simp add: persisted_def fresh_persister_def slots_ok_def loadFromDisk_def loadManifest_def
      migrateLegacyFile_def booted_def clean_def)

section \<open>Properties\<close>

text \<open>
  C4: saving is crash safe. \<^verbatim>\<open>Save\<close> never panics on its own; a crash or a failing system
  call after any prefix of its calls leaves a disk from which a restart loads either the
  previous pair of raft state and snapshot or the new one, never a mixture; and once all
  calls are made it is the new one.
\<close>
theorem save_crash_atomic:
  assumes "json_ok json unjson" and "persisted json unjson d ps"
  shows "\<exists>ps' ops. DiskPersister_Save json ps r s = Inr (ps', ops) \<and>
    persisted json unjson (exec_ops ops d) ps' \<and>
    (\<forall>n F. crash_result (exec_ops (take n ops) d) F \<longrightarrow>
      (\<exists>q. loadFromDisk json unjson F = Inr (q, []) \<and>
        (DiskPersister_ReadRaftState q = DiskPersister_ReadRaftState ps \<and>
         DiskPersister_ReadSnapshot q = DiskPersister_ReadSnapshot ps \<and> n < length ops \<or>
         DiskPersister_ReadRaftState q = r \<and> DiskPersister_ReadSnapshot q = s)))"
proof -
  have ok: "slots_ok ps" using assms(2) by (simp add: persisted_def)
  obtain ps' ops where S: "DiskPersister_Save json ps r s = Inr (ps', ops)"
    "dp_raftstate ps' = r" "dp_snapshot ps' = s"
    by (rule Save_ok [OF ok])
  have fin: "persisted json unjson (exec_ops ops d) ps'" by (rule save_persisted [OF assms S(1)])
  have crash: "\<exists>q. loadFromDisk json unjson F = Inr (q, []) \<and> (q = ps \<and> n < length ops \<or> q = ps')"
    if cr: "crash_result (exec_ops (take n ops) d) F" for n F
  proof (cases "n < length ops")
    case True
    with save_crash [OF assms S(1) cr] show ?thesis by (auto simp: persisted_def booted_def)
  next
    case False
    then have "F = d_files (exec_ops ops d)"
      using cr fin by (auto simp: persisted_def clean_def crash_result_def fun_eq_iff)
    with fin show ?thesis by (auto simp: persisted_def)
  qed
  show ?thesis
    using S fin crash
    by (fastforce simp: DiskPersister_ReadRaftState_def DiskPersister_ReadSnapshot_def)
qed

theorem save_crash_atomic_witness:
  "\<exists>ps' ops. DiskPersister_Save json_demo fresh_persister [1] [2] = Inr (ps', ops) \<and>
    persisted json_demo unjson_demo (exec_ops ops (booted Map.empty)) ps'"
  using save_crash_atomic [OF json_demo_ok fresh_persisted, of "[1]" "[2]"] by blast

text \<open>
  both implementations of the \<^verbatim>\<open>Persister\<close> interface read back the last pair saved,
  whatever was saved before.
\<close>
theorem persisters_read_last_save:
  assumes "saves \<noteq> []" and "slots_ok ps"
  shows "MemoryPersister_ReadRaftState (foldl (\<lambda>p (r, s). MemoryPersister_Save p r s) MakePersister saves) =
      fst (last saves) \<and>
    MemoryPersister_ReadSnapshot (foldl (\<lambda>p (r, s). MemoryPersister_Save p r s) MakePersister saves) =
      snd (last saves) \<and>
    DiskPersister_ReadRaftState (fst (foldl (\<lambda>p (r, s). disk_save json p r s) (ps, d) saves)) =
      fst (last saves) \<and>
    DiskPersister_ReadSnapshot (fst (foldl (\<lambda>p (r, s). disk_save json p r s) (ps, d) saves)) =
      snd (last saves)"
  using memp.last_save_wins [OF TrueI assms(1), of MakePersister]
    diskp.last_save_wins [of "(ps, d)" saves json] assms by simp

theorem persisters_read_last_save_witness:
  "DiskPersister_ReadRaftState (fst (foldl (\<lambda>p (r, s). disk_save json_demo p r s)
     (fresh_persister, booted Map.empty) [([1], [2]), ([3], [])])) = [3]"
  using persisters_read_last_save [of "[([1], [2]), ([3], [])]" fresh_persister json_demo "booted Map.empty"]
  by (simp add: slots_ok_def fresh_persister_def)

text \<open>
  C31: the file formats are exact: decoding returns a payload only for the empty file or for
  the bytes its encoder writes for that payload, and every payload survives the round trip.
\<close>
theorem file_formats_exact:
  "(decodeSegment d = Inr p \<longleftrightarrow> d = [] \<and> p = [] \<or> d = encodeSegment p) \<and>
   (decodeFile d = Inr p \<longleftrightarrow> d = [] \<and> p = [] \<or> d = encodeFile p)"
proof -
  have "decodeSegment [] = Inr []" "decodeFile [] = Inr []"
    by (simp_all add: decodeSegment_def decodeFile_def)
  then show ?thesis
    using decodeSegment_Inr [of d p] decodeFile_Inr [of d p] decode_encodeSegment [of p]
      decode_encodeFile [of p] by blast
qed

text \<open>What a migration of the pair \<open>r\<close>, \<open>s\<close> leaves in memory, and its writes.\<close>

definition migrated :: "bytes \<Rightarrow> bytes \<Rightarrow> DiskPersister" where
  "migrated r s = \<lparr>dp_raftSlot = 0, dp_snapshotSlot = (if s = [] then noSnapshotSlot else 0),
     dp_raftstate = r, dp_snapshot = s\<rparr>"

definition migration_writes :: "(slotManifest \<Rightarrow> bytes) \<Rightarrow> bytes \<Rightarrow> bytes \<Rightarrow> (path \<times> bytes) list" where
  "migration_writes json r s = (if s = [] then [] else [(SnapSlot 0, encodeFile s)]) @
     [(WalSlot 0, encodeSegment r),
      (ManifestFile, json \<lparr>m_RaftSlot = 0, m_SnapshotSlot = (if s = [] then noSnapshotSlot else 0)\<rparr>)]"

lemma migrated_reads:
  "DiskPersister_ReadRaftState (migrated r s) = r" "DiskPersister_ReadSnapshot (migrated r s) = s"
  "slots_ok (migrated r s)"
  by (simp_all add: DiskPersister_ReadRaftState_def DiskPersister_ReadSnapshot_def migrated_def slots_ok_def)

lemma legacy_loads:
  assumes "length r + length s < 2 ^ 64" "F ManifestFile = None" "F LegacyFile = Some (legacy_layout r s)"
  shows "loadFromDisk json unjson F = Inr (migrated r s, writes (migration_writes json r s))"
proof -
  have "validateManifest \<lparr>m_RaftSlot = 0, m_SnapshotSlot = (if s = [] then noSnapshotSlot else 0)\<rparr> = None"
    by (simp add: validate_slots)
  then show ?thesis
    using assms(2,3) decode_legacy [OF assms(1)]
    by (cases "s = []") (simp_all add: loadFromDisk_def loadManifest_def migrateLegacyFile_def Let_def
        saveManifest_def migrated_def migration_writes_def atomic_ops)
qed

lemma migrated_loads:
  assumes "json_ok json unjson"
  shows "loadFromDisk json unjson (put_files (migration_writes json r s) F) = Inr (migrated r s, [])"
proof (rule load_new [OF assms migrated_reads(3)])
  show "Store_LoadSlot (put_files (migration_writes json r s) F) (dp_snapshotSlot (migrated r s)) =
      Inr (dp_snapshot (migrated r s))" if "dp_snapshotSlot (migrated r s) \<noteq> noSnapshotSlot"
    using that by (simp add: migrated_def migration_writes_def Store_LoadSlot_def split: if_splits)
qed (auto simp: migrated_def migration_writes_def split: if_splits)

text \<open>
  a legacy file is migrated exactly once and never lost: loading it returns the pair it
  encodes, and after a crash at any point of the migration a restart returns that pair again.
\<close>
theorem migration_crash_safe:
  assumes "json_ok json unjson" and "length r + length s < 2 ^ 64"
    and "F ManifestFile = None" and "F LegacyFile = Some (legacy_layout r s)"
  shows "\<exists>ps ops. loadFromDisk json unjson F = Inr (ps, ops) \<and>
    DiskPersister_ReadRaftState ps = r \<and> DiskPersister_ReadSnapshot ps = s \<and>
    persisted json unjson (exec_ops ops (booted F)) ps \<and>
    (\<forall>n G. crash_result (exec_ops (take n ops) (booted F)) G \<longrightarrow>
      (\<exists>q ops'. loadFromDisk json unjson G = Inr (q, ops') \<and>
        DiskPersister_ReadRaftState q = r \<and> DiskPersister_ReadSnapshot q = s))"
proof -
  let ?ws = "migration_writes json r s"
  note new = migrated_loads [OF assms(1), of r s F]
  have crash: "\<exists>ops'. loadFromDisk json unjson G = Inr (migrated r s, ops')"
    if cr: "crash_result (exec_ops (take n (writes ?ws)) (booted F)) G" for n G
  proof -
    obtain j where j: "j \<le> length ?ws" "G = put_files (take j ?ws) F"
      using writes_crash [OF clean_booted cr] by (auto simp: booted_def)
    show ?thesis
    proof (cases "j = length ?ws")
      case True
      with j new show ?thesis by simp
    next
      case False
      then have "G ManifestFile = None" "G LegacyFile = F LegacyFile"
        using j assms(3) by (auto simp: migration_writes_def take_Cons' split: if_splits)
      with legacy_loads [OF assms(2), of G] assms(4) show ?thesis by simp
    qed
  qed
  have "persisted json unjson (exec_ops (writes ?ws) (booted F)) (migrated r s)"
    using writes_done [OF clean_booted, of ?ws F] new
    by (simp add: persisted_def migrated_reads booted_def)
  then show ?thesis
    using legacy_loads [OF assms(2-4)] crash migrated_reads(1,2) by blast
qed

theorem migration_crash_safe_witness:
  "\<exists>ps ops. loadFromDisk json_demo unjson_demo [LegacyFile \<mapsto> legacy_layout [1] [2]] = Inr (ps, ops) \<and>
    DiskPersister_ReadRaftState ps = [1] \<and> DiskPersister_ReadSnapshot ps = [2]"
  using migration_crash_safe [OF json_demo_ok, of "[1]" "[2]" "[LegacyFile \<mapsto> legacy_layout [1] [2]]"]
  by auto

end
