(* ===== verification/RaftTypes.thy ===== *)
theory RaftTypes
  imports PersistProps
begin

text \<open>
  The data of \<^verbatim>\<open>internal/raft\<close>: log entries, RPC arguments and replies
  (\<^verbatim>\<open>type.go\<close>), the node (\<^verbatim>\<open>raft.go\<close>), and what a node writes to its persister and
  reads back (\<^verbatim>\<open>persister.go\<close>).

  Conventions. \<open>rf_peers\<close> is the number of peers: an RPC endpoint is only called, so the
  calls are separate steps and the endpoints need no representation. The election timer
  has no clock: it is nil, running, or has fired, and firing is a step of the environment.
  A buffered channel is the list (or the number) of the values in it. \<open>rf_loops\<close> counts the
  \<^verbatim>\<open>logUpdate\<close> goroutines that were started.
\<close>

section \<open>Messages\<close>

datatype State = Follower | Candidate | Leader

record ApplyMsg =
  am_CommandValid :: bool
  am_Command :: bytes
  am_CommandIndex :: int
  am_SnapshotValid :: bool
  am_Snapshot :: bytes
  am_SnapshotTerm :: int
  am_SnapshotIndex :: int

record LogEntry =
  e_Term :: int
  e_Command :: bytes
  e_Index :: int

record InstallSnapshotArgs =
  is_Term :: int
  is_LeaderID :: int
  is_LastIncludeIndex :: int
  is_LastIncludeTerm :: int
  is_Data :: bytes

record InstallSnapshotReply =
  isr_Term :: int

record RequestVoteArgs =
  rv_Term :: int
  rv_CandidateId :: int
  rv_LastLogIndex :: int
  rv_LastLogTerm :: int

record RequestVoteReply =
  rvr_Term :: int
  rvr_VoteGranted :: bool

record AppendEntriesArgs =
  ae_Term :: int
  ae_LeaderId :: int
  ae_PrevLogIndex :: int
  ae_PrevLogTerm :: int
  ae_Entries :: "LogEntry list"
  ae_LeaderCommit :: int

record AppendEntriesReply =
  aer_Term :: int
  aer_Success :: bool
  aer_ConflictTerm :: int
  aer_ConflictIndex :: int

record RoleEvent =
  re_IsLeader :: bool
  re_Term :: int

section \<open>The node\<close>

record 'p Raft =
  rf_peers :: nat
  rf_persister :: 'p
  rf_me :: int
  rf_dead :: bool
  rf_currentTerm :: int
  rf_votedFor :: int
  rf_state :: State
  rf_electionTimer :: "bool option"
  rf_log :: "LogEntry list"
  rf_commitIndex :: int
  rf_lastApplied :: int
  rf_nextIndex :: "int list"
  rf_matchIndex :: "int list"
  rf_lastIncludeIndex :: int
  rf_lastIncludeTerm :: int
  rf_snapshot :: bytes
  rf_roleCh :: "RoleEvent list"
  rf_pendingReadCh :: "nat option"
  rf_pendingReadCount :: int
  rf_readTriggerCh :: nat
  rf_loops :: nat

text \<open>The index of the last log entry, an expression the code writes out at every use.\<close>

definition lastLogIndex :: "'p Raft \<Rightarrow> int" where
  "lastLogIndex rf = rf_lastIncludeIndex rf + int (length (rf_log rf)) - 1"

text \<open>
  \<^verbatim>\<open>select { case rf.roleCh <- event: default: }\<close> on the channel of capacity 8.
\<close>

definition send_role :: "bool \<Rightarrow> int \<Rightarrow> 'p Raft \<Rightarrow> 'p Raft" where
  "send_role leader term rf =
     (if length (rf_roleCh rf) < 8
      then rf\<lparr>rf_roleCh := rf_roleCh rf @ [\<lparr>re_IsLeader = leader, re_Term = term\<rparr>]\<rparr>
      else rf)"

text \<open>
  Stopping and draining a timer that exists and starting it again, or making a new one:
  either way the timer runs and its channel is empty.
\<close>

definition resetElectionTimer :: "'p Raft \<Rightarrow> 'p Raft" where
  "resetElectionTimer rf =
     (case rf_electionTimer rf of
        None \<Rightarrow> rf\<lparr>rf_electionTimer := Some False\<rparr>
      | Some fired \<Rightarrow> rf\<lparr>rf_electionTimer := Some False\<rparr>)"

section \<open>Persistent state\<close>

record pb_LogEntry =
  pe_Term :: int
  pe_Index :: int
  pe_Command :: bytes

record pb_HardState =
  ph_Term :: int
  ph_VotedFor :: int

record pb_Snapshot =
  ps_LastIncludeIndex :: int
  ps_LastIncludeTerm :: int

record pb_RaftState =
  prs_Snapshot :: "pb_Snapshot option"
  prs_Log :: "pb_LogEntry option list"
  prs_Hardstate :: "pb_HardState option"

text \<open>The persister's methods and the protobuf codec, as a node uses them.\<close>

record 'p RaftIO =
  io_Save :: "'p \<Rightarrow> bytes \<Rightarrow> bytes \<Rightarrow> 'p"
  io_ReadRaftState :: "'p \<Rightarrow> bytes"
  io_ReadSnapshot :: "'p \<Rightarrow> bytes"
  io_RaftStateSize :: "'p \<Rightarrow> int"
  io_Marshal :: "pb_RaftState \<Rightarrow> go_error + bytes"
  io_Unmarshal :: "bytes \<Rightarrow> go_error + pb_RaftState"

definition convertLogToPB :: "LogEntry list \<Rightarrow> pb_LogEntry option list" where
  "convertLogToPB log =
     map (\<lambda>e. Some \<lparr>pe_Term = e_Term e, pe_Index = e_Index e, pe_Command = e_Command e\<rparr>) log"

text \<open>The message \<^verbatim>\<open>persist\<close> builds.\<close>

definition raft_message :: "'p Raft \<Rightarrow> pb_RaftState" where
  "raft_message rf =
     \<lparr>prs_Snapshot = Some \<lparr>ps_LastIncludeIndex = rf_lastIncludeIndex rf,
        ps_LastIncludeTerm = rf_lastIncludeTerm rf\<rparr>,
      prs_Log = convertLogToPB (rf_log rf),
      prs_Hardstate = Some \<lparr>ph_Term = rf_currentTerm rf, ph_VotedFor = rf_votedFor rf\<rparr>\<rparr>"

definition persist :: "'p RaftIO \<Rightarrow> 'p Raft \<Rightarrow> 'p Raft" where
  "persist io rf =
     (case io_Marshal io (raft_message rf) of
        Inl err \<Rightarrow> rf
      | Inr data \<Rightarrow> rf\<lparr>rf_persister := io_Save io (rf_persister rf) data (rf_snapshot rf)\<rparr>)"

text \<open>A nil entry of the message is dereferenced by the loop and panics.\<close>

fun restoreLogFromPB :: "pb_LogEntry option list \<Rightarrow> LogEntry list outcome" where
  "restoreLogFromPB [] = Inr []"
| "restoreLogFromPB (None # pblogs) = Inl NilPointer"
| "restoreLogFromPB (Some l # pblogs) =
     (case restoreLogFromPB pblogs of
        Inl p \<Rightarrow> Inl p
      | Inr res \<Rightarrow> Inr (\<lparr>e_Term = pe_Term l, e_Command = pe_Command l, e_Index = pe_Index l\<rparr> # res))"

text \<open>
  \<^verbatim>\<open>readPersist\<close>: the fallback entry of an empty log carries the node's snapshot index and
  term from before the two assignments that follow.
\<close>

definition readPersist :: "'p RaftIO \<Rightarrow> 'p Raft \<Rightarrow> bytes \<Rightarrow> 'p Raft outcome" where
  "readPersist io rf data =
     (if length data < 1 then Inr rf
      else case io_Unmarshal io data of
        Inl err \<Rightarrow> Inr rf
      | Inr e \<Rightarrow>
          (case prs_Hardstate e of
             None \<Rightarrow> Inl NilPointer
           | Some hs \<Rightarrow>
               (case (if 0 < length (prs_Log e) then restoreLogFromPB (prs_Log e)
                      else Inr [\<lparr>e_Term = rf_lastIncludeTerm rf, e_Command = [],
                                 e_Index = rf_lastIncludeIndex rf\<rparr>]) of
                  Inl p \<Rightarrow> Inl p
                | Inr log \<Rightarrow>
                    (case prs_Snapshot e of
                       None \<Rightarrow> Inl NilPointer
                     | Some sn \<Rightarrow>
                         Inr (rf\<lparr>rf_currentTerm := ph_Term hs, rf_votedFor := ph_VotedFor hs,
                           rf_log := log, rf_lastIncludeIndex := ps_LastIncludeIndex sn,
                           rf_lastIncludeTerm := ps_LastIncludeTerm sn,
                           rf_commitIndex := ps_LastIncludeIndex sn,
                           rf_lastApplied := ps_LastIncludeIndex sn,
                           rf_snapshot := io_ReadSnapshot io (rf_persister rf)\<rparr>)))))"

definition RaftStateSize :: "'p RaftIO \<Rightarrow> 'p Raft \<Rightarrow> int" where
  "RaftStateSize io rf = io_RaftStateSize io (rf_persister rf)"

definition PersistBytes :: "'p RaftIO \<Rightarrow> 'p Raft \<Rightarrow> int" where
  "PersistBytes io rf = io_RaftStateSize io (rf_persister rf)"

text \<open>\<^verbatim>\<open>readSnapshot\<close> drops the entries a snapshot covers; no function calls it.\<close>

definition readSnapshot :: "'p Raft \<Rightarrow> 'p Raft" where
  "readSnapshot rf =
     (if length (rf_snapshot rf) < 1 then rf
      else rf\<lparr>rf_log := \<lparr>e_Term = rf_lastIncludeTerm rf, e_Command = [],
                e_Index = rf_lastIncludeIndex rf\<rparr> #
              filter (\<lambda>l. rf_lastIncludeIndex rf < e_Index l) (rf_log rf)\<rparr>)"

section \<open>What each helper leaves alone\<close>

lemma restore_convert [simp]: "restoreLogFromPB (convertLogToPB log) = Inr log"
  by (induction log) (simp_all add: convertLogToPB_def)

lemma convertLogToPB_Nil [simp]: "convertLogToPB log = [] \<longleftrightarrow> log = []"
  by (simp add: convertLogToPB_def)

lemma reset_eq: "resetElectionTimer rf = rf\<lparr>rf_electionTimer := Some False\<rparr>"
  by (simp add: resetElectionTimer_def split: option.splits)

lemma persist_eq: "persist io rf = rf\<lparr>rf_persister := rf_persister (persist io rf)\<rparr>"
  by (simp add: persist_def split: sum.splits)

lemma send_role_eq: "send_role b t rf = rf\<lparr>rf_roleCh := rf_roleCh (send_role b t rf)\<rparr>"
  by (simp add: send_role_def)

lemma persist_frame [simp, frame_simps]:
  "rf_peers (persist io rf) = rf_peers rf"
  "rf_me (persist io rf) = rf_me rf"
  "rf_dead (persist io rf) = rf_dead rf"
  "rf_currentTerm (persist io rf) = rf_currentTerm rf"
  "rf_votedFor (persist io rf) = rf_votedFor rf"
  "rf_state (persist io rf) = rf_state rf"
  "rf_electionTimer (persist io rf) = rf_electionTimer rf"
  "rf_log (persist io rf) = rf_log rf"
  "rf_commitIndex (persist io rf) = rf_commitIndex rf"
  "rf_lastApplied (persist io rf) = rf_lastApplied rf"
  "rf_nextIndex (persist io rf) = rf_nextIndex rf"
  "rf_matchIndex (persist io rf) = rf_matchIndex rf"
  "rf_lastIncludeIndex (persist io rf) = rf_lastIncludeIndex rf"
  "rf_lastIncludeTerm (persist io rf) = rf_lastIncludeTerm rf"
  "rf_snapshot (persist io rf) = rf_snapshot rf"
  "rf_roleCh (persist io rf) = rf_roleCh rf"
  "rf_pendingReadCh (persist io rf) = rf_pendingReadCh rf"
  "rf_pendingReadCount (persist io rf) = rf_pendingReadCount rf"
  "rf_readTriggerCh (persist io rf) = rf_readTriggerCh rf"
  "rf_loops (persist io rf) = rf_loops rf"
  by (simp_all add: persist_def send_role_def reset_eq split: sum.splits)

lemma send_role_frame [simp, frame_simps]:
  "rf_peers (send_role b t rf) = rf_peers rf"
  "rf_persister (send_role b t rf) = rf_persister rf"
  "rf_me (send_role b t rf) = rf_me rf"
  "rf_dead (send_role b t rf) = rf_dead rf"
  "rf_currentTerm (send_role b t rf) = rf_currentTerm rf"
  "rf_votedFor (send_role b t rf) = rf_votedFor rf"
  "rf_state (send_role b t rf) = rf_state rf"
  "rf_electionTimer (send_role b t rf) = rf_electionTimer rf"
  "rf_log (send_role b t rf) = rf_log rf"
  "rf_commitIndex (send_role b t rf) = rf_commitIndex rf"
  "rf_lastApplied (send_role b t rf) = rf_lastApplied rf"
  "rf_nextIndex (send_role b t rf) = rf_nextIndex rf"
  "rf_matchIndex (send_role b t rf) = rf_matchIndex rf"
  "rf_lastIncludeIndex (send_role b t rf) = rf_lastIncludeIndex rf"
  "rf_lastIncludeTerm (send_role b t rf) = rf_lastIncludeTerm rf"
  "rf_snapshot (send_role b t rf) = rf_snapshot rf"
  "rf_pendingReadCh (send_role b t rf) = rf_pendingReadCh rf"
  "rf_pendingReadCount (send_role b t rf) = rf_pendingReadCount rf"
  "rf_readTriggerCh (send_role b t rf) = rf_readTriggerCh rf"
  "rf_loops (send_role b t rf) = rf_loops rf"
  by (simp_all add: persist_def send_role_def reset_eq split: sum.splits)

lemma reset_frame [simp, frame_simps]:
  "rf_peers (resetElectionTimer rf) = rf_peers rf"
  "rf_persister (resetElectionTimer rf) = rf_persister rf"
  "rf_me (resetElectionTimer rf) = rf_me rf"
  "rf_dead (resetElectionTimer rf) = rf_dead rf"
  "rf_currentTerm (resetElectionTimer rf) = rf_currentTerm rf"
  "rf_votedFor (resetElectionTimer rf) = rf_votedFor rf"
  "rf_state (resetElectionTimer rf) = rf_state rf"
  "rf_log (resetElectionTimer rf) = rf_log rf"
  "rf_commitIndex (resetElectionTimer rf) = rf_commitIndex rf"
  "rf_lastApplied (resetElectionTimer rf) = rf_lastApplied rf"
  "rf_nextIndex (resetElectionTimer rf) = rf_nextIndex rf"
  "rf_matchIndex (resetElectionTimer rf) = rf_matchIndex rf"
  "rf_lastIncludeIndex (resetElectionTimer rf) = rf_lastIncludeIndex rf"
  "rf_lastIncludeTerm (resetElectionTimer rf) = rf_lastIncludeTerm rf"
  "rf_snapshot (resetElectionTimer rf) = rf_snapshot rf"
  "rf_roleCh (resetElectionTimer rf) = rf_roleCh rf"
  "rf_pendingReadCh (resetElectionTimer rf) = rf_pendingReadCh rf"
  "rf_pendingReadCount (resetElectionTimer rf) = rf_pendingReadCount rf"
  "rf_readTriggerCh (resetElectionTimer rf) = rf_readTriggerCh rf"
  "rf_loops (resetElectionTimer rf) = rf_loops rf"
  by (simp_all add: persist_def send_role_def reset_eq split: sum.splits)

lemma reset_timer [simp]: "rf_electionTimer (resetElectionTimer rf) = Some False"
  by (simp add: reset_eq)

end
