(* ===== verification/Raft.thy ===== *)
theory Raft
  imports RaftTypes
begin

text \<open>
  The operations of a raft node (\<^verbatim>\<open>internal/raft\<close>), one definition per section of code
  that runs under the node's lock. Code that unlocks around an RPC is split there: what it
  does before the call, and what it does with the reply (\<^const>\<open>None\<close> for a failed call).
  A handler whose slice accesses can fail returns an \<^typ>\<open>'a outcome\<close>.
\<close>

section \<open>Elections\<close>

definition initLeaderProgressLocked :: "'p Raft \<Rightarrow> 'p Raft" where
  "initLeaderProgressLocked rf =
     rf\<lparr>rf_nextIndex := replicate (rf_peers rf) (lastLogIndex rf + 1),
        rf_matchIndex := replicate (rf_peers rf) (rf_lastIncludeIndex rf)\<rparr>"

definition RequestVote ::
  "'p RaftIO \<Rightarrow> 'p Raft \<Rightarrow> RequestVoteArgs \<Rightarrow> ('p Raft \<times> RequestVoteReply) outcome" where
  "RequestVote io rf args =
     (if rv_Term args < rf_currentTerm rf then
        Inr (rf, \<lparr>rvr_Term = rf_currentTerm rf, rvr_VoteGranted = False\<rparr>)
      else
        let rf1 =
          (if rv_Term args > rf_currentTerm rf then
             resetElectionTimer (persist io
               ((send_role False (rf_currentTerm rf) (rf\<lparr>rf_state := Follower\<rparr>))
                  \<lparr>rf_currentTerm := rv_Term args, rf_votedFor := -1\<rparr>))
           else rf)
        in if rf_log rf1 = [] then Inl IndexOutOfRange
           else
             let lastTerm = e_Term (rf_log rf1 ! (length (rf_log rf1) - 1));
                 upToDate = (rv_LastLogTerm args > lastTerm \<or>
                   rv_LastLogIndex args \<ge> lastLogIndex rf1 \<and> rv_LastLogTerm args = lastTerm)
             in if (rf_votedFor rf1 = -1 \<or> rf_votedFor rf1 = rv_CandidateId args) \<and> upToDate then
                  Inr (resetElectionTimer (persist io (rf1\<lparr>rf_votedFor := rv_CandidateId args\<rparr>)),
                       \<lparr>rvr_Term = rf_currentTerm rf1, rvr_VoteGranted = True\<rparr>)
                else
                  Inr (resetElectionTimer rf1,
                       \<lparr>rvr_Term = rf_currentTerm rf1, rvr_VoteGranted = False\<rparr>))"

text \<open>\<^verbatim>\<open>startElection\<close> up to the RPCs: the new candidate and the request it sends.\<close>

definition startElection :: "'p RaftIO \<Rightarrow> 'p Raft \<Rightarrow> ('p Raft \<times> RequestVoteArgs) outcome" where
  "startElection io rf =
     (let rf1 = resetElectionTimer (persist io
            (rf\<lparr>rf_state := Candidate, rf_currentTerm := rf_currentTerm rf + 1,
                rf_votedFor := rf_me rf\<rparr>))
      in if rf_log rf1 = [] then Inl IndexOutOfRange
         else Inr (rf1, \<lparr>rv_Term = rf_currentTerm rf1, rv_CandidateId = rf_me rf1,
                rv_LastLogIndex = lastLogIndex rf1,
                rv_LastLogTerm = e_Term (rf_log rf1 ! (length (rf_log rf1) - 1))\<rparr>))"

text \<open>A cluster of one node: no RPC is sent and the node leads at once.\<close>

definition startElection_single :: "'p Raft \<Rightarrow> 'p Raft" where
  "startElection_single rf =
     (if rf_peers rf = 1
      then (initLeaderProgressLocked (rf\<lparr>rf_state := Leader\<rparr>))\<lparr>rf_loops := rf_loops rf + 1\<rparr>
      else rf)"

text \<open>
  The goroutine of one peer after its \<^verbatim>\<open>RequestVote\<close> call: \<open>args\<close> is the request of this
  election and \<open>votes\<close> its counter, shared by the goroutines of the election.
\<close>

definition handleVoteReply ::
  "'p RaftIO \<Rightarrow> 'p Raft \<Rightarrow> RequestVoteArgs \<Rightarrow> int \<Rightarrow> RequestVoteReply option \<Rightarrow> 'p Raft \<times> int" where
  "handleVoteReply io rf args votes call =
     (case call of
        None \<Rightarrow> (rf, votes)
      | Some reply \<Rightarrow>
          if rf_state rf \<noteq> Candidate \<or> rf_currentTerm rf \<noteq> rv_Term args then (rf, votes)
          else if rvr_Term reply > rv_Term args then
            (persist io ((resetElectionTimer rf)\<lparr>rf_currentTerm := rvr_Term reply,
               rf_state := Follower, rf_votedFor := -1\<rparr>), votes)
          else if rvr_VoteGranted reply \<and> rvr_Term reply = rv_Term args then
            (let newnode = votes + 1
             in if newnode > int (rf_peers rf) div 2 \<and> rvr_Term reply = rv_Term args \<and>
                  rf_state rf = Candidate
                then ((initLeaderProgressLocked (send_role True (rf_currentTerm rf)
                        (rf\<lparr>rf_state := Leader\<rparr>)))\<lparr>rf_loops := rf_loops rf + 1\<rparr>, newnode)
                else (rf, newnode))
          else (rf, votes))"

text \<open>One round of the ticker: the node afterwards, and whether it starts an election.\<close>

definition ticker_step :: "'p Raft \<Rightarrow> 'p Raft \<times> bool" where
  "ticker_step rf =
     (case rf_state rf of
        Leader \<Rightarrow> (rf, False)
      | _ \<Rightarrow>
          (case rf_electionTimer rf of
             None \<Rightarrow> (resetElectionTimer rf, False)
           | Some fired \<Rightarrow> if fired then (resetElectionTimer rf, True) else (rf, False)))"

section \<open>Log replication: the follower\<close>

text \<open>\<^verbatim>\<open>for conflictIdx > 0 && rf.log[conflictIdx-1].Term == reply.ConflictTerm { conflictIdx-- }\<close>\<close>

fun conflict_loop :: "LogEntry list \<Rightarrow> int \<Rightarrow> nat \<Rightarrow> nat" where
  "conflict_loop log t 0 = 0"
| "conflict_loop log t (Suc n) = (if e_Term (log ! n) = t then conflict_loop log t n else Suc n)"

text \<open>The terms: what \<^verbatim>\<open>AppendEntries\<close> does before it looks at the log.\<close>

definition append_adopt_term :: "'p RaftIO \<Rightarrow> 'p Raft \<Rightarrow> AppendEntriesArgs \<Rightarrow> 'p Raft" where
  "append_adopt_term io rf args =
     (if ae_Term args > rf_currentTerm rf then
        resetElectionTimer (persist io (send_role False (ae_Term args)
          (rf\<lparr>rf_currentTerm := ae_Term args, rf_votedFor := -1, rf_state := Follower\<rparr>)))
      else
        resetElectionTimer
          (if rf_state rf \<noteq> Follower
           then send_role False (rf_currentTerm rf) (rf\<lparr>rf_state := Follower\<rparr>)
           else rf))"

text \<open>The log and the commit index after the consistency check has passed.\<close>

definition append_accept :: "'p Raft \<Rightarrow> AppendEntriesArgs \<Rightarrow> 'p Raft" where
  "append_accept rf args =
     (let rf1 =
        (if 0 < length (ae_Entries args)
         then rf\<lparr>rf_log := take (nat (ae_PrevLogIndex args + 1 - rf_lastIncludeIndex rf)) (rf_log rf) @
                   ae_Entries args\<rparr>
         else rf)
      in if ae_LeaderCommit args > rf_commitIndex rf1
         then rf1\<lparr>rf_commitIndex :=
                (if ae_LeaderCommit args < lastLogIndex rf1 then ae_LeaderCommit args
                 else lastLogIndex rf1)\<rparr>
         else rf1)"

definition AppendEntries ::
  "'p RaftIO \<Rightarrow> 'p Raft \<Rightarrow> AppendEntriesArgs \<Rightarrow> 'p Raft \<times> AppendEntriesReply" where
  "AppendEntries io rf args =
     (let reply = \<lparr>aer_Term = rf_currentTerm rf, aer_Success = False, aer_ConflictTerm = 0,
                   aer_ConflictIndex = 0\<rparr>
      in if ae_Term args < rf_currentTerm rf then (rf, reply)
      else
        let rf1 = append_adopt_term io rf args;
            lastIndex = int (length (rf_log rf1)) + rf_lastIncludeIndex rf1;
            sliceIdx = ae_PrevLogIndex args - rf_lastIncludeIndex rf1
        in if ae_PrevLogIndex args < rf_lastIncludeIndex rf1 then
             (rf1, reply\<lparr>aer_ConflictIndex := rf_lastIncludeIndex rf1 + 1\<rparr>)
           else if sliceIdx \<ge> int (length (rf_log rf1)) then
             (rf1, reply\<lparr>aer_ConflictTerm := -1, aer_ConflictIndex := lastIndex\<rparr>)
           else if sliceIdx < 0 then
             (rf1, reply\<lparr>aer_ConflictTerm := -1, aer_ConflictIndex := rf_lastIncludeIndex rf1 + 1\<rparr>)
           else if e_Term (rf_log rf1 ! nat sliceIdx) \<noteq> ae_PrevLogTerm args then
             (let t = e_Term (rf_log rf1 ! nat sliceIdx)
              in (rf1, reply\<lparr>aer_ConflictTerm := t, aer_ConflictIndex :=
                    rf_lastIncludeIndex rf1 + int (conflict_loop (rf_log rf1) t (nat sliceIdx))\<rparr>))
           else (persist io (append_accept rf1 args), reply\<lparr>aer_Success := True\<rparr>))"

section \<open>Log replication: the leader\<close>

text \<open>Counting the peers that hold index \<open>N\<close>; the node's own slot is not read.\<close>

fun count_match :: "'p Raft \<Rightarrow> int \<Rightarrow> nat list \<Rightarrow> int \<Rightarrow> int outcome" where
  "count_match rf N [] count = Inr count"
| "count_match rf N (i # is) count =
     (if int i \<noteq> rf_me rf then
        if i < length (rf_matchIndex rf) then
          count_match rf N is (if rf_matchIndex rf ! i \<ge> N then count + 1 else count)
        else Inl IndexOutOfRange
      else count_match rf N is count)"

function commit_loop :: "'p Raft \<Rightarrow> int \<Rightarrow> 'p Raft outcome" where
  "commit_loop rf N =
     (if N > rf_commitIndex rf then
        if N \<le> rf_lastIncludeIndex rf then Inr rf
        else
          case count_match rf N [0..<rf_peers rf] 1 of
            Inl p \<Rightarrow> Inl p
          | Inr count \<Rightarrow>
              let sliceIdx = N - rf_lastIncludeIndex rf
              in if count > int (rf_peers rf) div 2 \<and> sliceIdx > 0 \<and>
                   sliceIdx < int (length (rf_log rf)) \<and>
                   e_Term (rf_log rf ! nat sliceIdx) = rf_currentTerm rf
                 then Inr (rf\<lparr>rf_commitIndex := N\<rparr>)
                 else commit_loop rf (N - 1)
      else Inr rf)"
  by pat_completeness auto
termination
  by (relation "measure (\<lambda>(rf, N). nat (N - rf_commitIndex rf))") auto

declare commit_loop.simps [simp del]

definition updateCommiIndex :: "'p Raft \<Rightarrow> 'p Raft outcome" where
  "updateCommiIndex rf = commit_loop rf (lastLogIndex rf)"

definition Start :: "'p RaftIO \<Rightarrow> 'p Raft \<Rightarrow> bytes \<Rightarrow> 'p Raft \<times> int \<times> int \<times> bool" where
  "Start io rf command =
     (let term = rf_currentTerm rf
      in if rf_state rf \<noteq> Leader then (rf, -1, term, False)
         else
           let new_index = lastLogIndex rf + 1;
               entry = \<lparr>e_Term = term, e_Command = command, e_Index = new_index\<rparr>;
               rf1 = rf\<lparr>rf_log := rf_log rf @ [entry]\<rparr>;
               rf2 = (if rf_peers rf \<le> 1 then rf1\<lparr>rf_commitIndex := new_index\<rparr> else rf1)
           in (persist io rf2, new_index, term, True))"

text \<open>
  One round of \<^verbatim>\<open>logUpdate\<close>: the check whether the node still leads, with the last index at
  that moment; the commit of a cluster of one; the leader's own slots.
\<close>

definition logUpdate_check :: "'p Raft \<Rightarrow> 'p Raft \<times> int option" where
  "logUpdate_check rf =
     (let new_index = lastLogIndex rf
      in if rf_dead rf \<or> rf_state rf \<noteq> Leader
         then (send_role False (rf_currentTerm rf) rf, None)
         else (rf, Some new_index))"

definition logUpdate_single :: "'p Raft \<Rightarrow> 'p Raft outcome" where
  "logUpdate_single rf = (if rf_peers rf \<le> 1 then updateCommiIndex rf else Inr rf)"

definition logUpdate_self :: "'p Raft \<Rightarrow> int \<Rightarrow> 'p Raft outcome" where
  "logUpdate_self rf new_index =
     (let i = nat (rf_me rf)
      in if rf_me rf < 0 \<or> int (rf_peers rf) \<le> rf_me rf then Inr rf
         else if length (rf_nextIndex rf) \<le> i \<or> length (rf_matchIndex rf) \<le> i then Inl IndexOutOfRange
         else Inr (rf\<lparr>rf_nextIndex := (rf_nextIndex rf)[i := new_index + 1],
                      rf_matchIndex := (rf_matchIndex rf)[i := new_index]\<rparr>))"

datatype send_request =
    NoRequest
  | SendSnapshot InstallSnapshotArgs
  | SendAppend AppendEntriesArgs

text \<open>The goroutine of one peer up to its RPC.\<close>

definition replicate_prepare :: "'p Raft \<Rightarrow> nat \<Rightarrow> ('p Raft \<times> send_request) outcome" where
  "replicate_prepare rf server =
     (if rf_state rf \<noteq> Leader then Inr (send_role False (rf_currentTerm rf) rf, NoRequest)
      else
        case updateCommiIndex rf of
          Inl p \<Rightarrow> Inl p
        | Inr rf1 \<Rightarrow>
            if length (rf_nextIndex rf1) \<le> server then Inl IndexOutOfRange
            else
              let Index = rf_nextIndex rf1 ! server
              in if Index \<le> rf_lastIncludeIndex rf1 then
                   Inr (rf1, SendSnapshot \<lparr>is_Term = rf_currentTerm rf1, is_LeaderID = rf_me rf1,
                     is_LastIncludeIndex = rf_lastIncludeIndex rf1,
                     is_LastIncludeTerm = rf_lastIncludeTerm rf1, is_Data = rf_snapshot rf1\<rparr>)
                 else
                   let prev = Index - 1;
                       sliceIdx = prev - rf_lastIncludeIndex rf1
                   in if sliceIdx < 0 \<or> sliceIdx \<ge> int (length (rf_log rf1)) then
                        Inr (rf1\<lparr>rf_nextIndex := (rf_nextIndex rf1)[server := rf_lastIncludeIndex rf1 + 1]\<rparr>,
                             NoRequest)
                      else
                        let args = \<lparr>ae_Term = rf_currentTerm rf1, ae_LeaderId = rf_me rf1,
                              ae_PrevLogIndex = prev,
                              ae_PrevLogTerm = e_Term (rf_log rf1 ! nat sliceIdx),
                              ae_Entries =
                                (if Index > lastLogIndex rf1 then []
                                 else drop (nat (Index - rf_lastIncludeIndex rf1)) (rf_log rf1)),
                              ae_LeaderCommit = rf_commitIndex rf1\<rparr>
                        in if rf_state rf1 \<noteq> Leader \<or> ae_Term args \<noteq> rf_currentTerm rf1
                           then Inr (rf1, NoRequest)
                           else Inr (rf1, SendAppend args))"

text \<open>After \<^verbatim>\<open>InstallSnapshot\<close>: \<open>currentTerm\<close> is the term the request was sent in.\<close>

definition replicate_snapshot_reply ::
  "'p RaftIO \<Rightarrow> 'p Raft \<Rightarrow> nat \<Rightarrow> int \<Rightarrow> InstallSnapshotReply option \<Rightarrow> 'p Raft outcome" where
  "replicate_snapshot_reply io rf server currentTerm call =
     (case call of
        None \<Rightarrow> Inr rf
      | Some reply \<Rightarrow>
          if rf_state rf \<noteq> Leader \<or> rf_currentTerm rf \<noteq> currentTerm then Inr rf
          else if isr_Term reply > rf_currentTerm rf then
            Inr (send_role False (isr_Term reply) (persist io
              (rf\<lparr>rf_currentTerm := isr_Term reply, rf_state := Follower, rf_votedFor := -1\<rparr>)))
          else if length (rf_nextIndex rf) \<le> server \<or> length (rf_matchIndex rf) \<le> server then
            Inl IndexOutOfRange
          else
            let Index = rf_lastIncludeIndex rf
            in Inr (rf\<lparr>rf_nextIndex := (rf_nextIndex rf)[server := Index + 1],
                       rf_matchIndex := (rf_matchIndex rf)[server := Index]\<rparr>))"

text \<open>A successful reply counts towards a pending read.\<close>

definition read_quorum :: "'p Raft \<Rightarrow> 'p Raft" where
  "read_quorum rf =
     (case rf_pendingReadCh rf of
        None \<Rightarrow> rf
      | Some n \<Rightarrow>
          (let count = rf_pendingReadCount rf + 1
           in rf\<lparr>rf_pendingReadCount := count,
                 rf_pendingReadCh :=
                   (if count > int (rf_peers rf) div 2 \<and> n < 1 then Some (n + 1) else Some n)\<rparr>))"

definition replicate_append_reply ::
  "'p RaftIO \<Rightarrow> 'p Raft \<Rightarrow> nat \<Rightarrow> AppendEntriesArgs \<Rightarrow> AppendEntriesReply option \<Rightarrow> 'p Raft outcome" where
  "replicate_append_reply io rf server args call =
     (case call of
        None \<Rightarrow> Inr rf
      | Some reply \<Rightarrow>
          if rf_state rf \<noteq> Leader \<or> ae_Term args \<noteq> rf_currentTerm rf then Inr rf
          else if aer_Term reply > rf_currentTerm rf then
            Inr (send_role False (aer_Term reply) (persist io
              (rf\<lparr>rf_currentTerm := aer_Term reply, rf_state := Follower\<rparr>)))
          else if length (rf_nextIndex rf) \<le> server \<or> length (rf_matchIndex rf) \<le> server then
            Inl IndexOutOfRange
          else
            let rf1 =
              (if aer_Success reply then
                 let m = ae_PrevLogIndex args + int (length (ae_Entries args))
                 in read_quorum (rf\<lparr>rf_matchIndex := (rf_matchIndex rf)[server := m],
                       rf_nextIndex := (rf_nextIndex rf)[server := m + 1]\<rparr>)
               else
                 let rf2 = (if aer_ConflictTerm reply = -1
                     then rf\<lparr>rf_nextIndex := (rf_nextIndex rf)[server := aer_ConflictIndex reply]\<rparr>
                     else rf)
                 in if aer_ConflictIndex reply \<noteq> -1
                    then rf2\<lparr>rf_nextIndex := (rf_nextIndex rf2)[server := aer_ConflictIndex reply]\<rparr>
                    else rf2)
            in Inr (if rf_matchIndex rf1 ! server > rf_nextIndex rf1 ! server
                    then rf1\<lparr>rf_matchIndex := (rf_matchIndex rf1)[server := rf_nextIndex rf1 ! server - 1]\<rparr>
                    else rf1))"

section \<open>Snapshots\<close>

text \<open>The loop shared by both functions: a head entry and the entries above the index.\<close>

definition trim_log :: "int \<Rightarrow> int \<Rightarrow> LogEntry list \<Rightarrow> LogEntry list" where
  "trim_log index term log =
     \<lparr>e_Term = term, e_Command = [], e_Index = index\<rparr> # filter (\<lambda>l. e_Index l > index) log"

text \<open>The leader's loop over its peers in \<^verbatim>\<open>Snapshot\<close>.\<close>

fun raise_progress :: "'p Raft \<Rightarrow> nat list \<Rightarrow> 'p Raft outcome" where
  "raise_progress rf [] = Inr rf"
| "raise_progress rf (i # is) =
     (if length (rf_nextIndex rf) \<le> i \<or> length (rf_matchIndex rf) \<le> i then Inl IndexOutOfRange
      else
        let rf1 = (if rf_nextIndex rf ! i \<le> rf_lastIncludeIndex rf
              then rf\<lparr>rf_nextIndex := (rf_nextIndex rf)[i := rf_lastIncludeIndex rf + 1]\<rparr> else rf);
            rf2 = (if rf_matchIndex rf1 ! i < rf_lastIncludeIndex rf1
              then rf1\<lparr>rf_matchIndex := (rf_matchIndex rf1)[i := rf_lastIncludeIndex rf1]\<rparr> else rf1)
        in raise_progress rf2 is)"

text \<open>The assignments both functions make once they have decided to take the snapshot.\<close>

definition take_snapshot :: "'p Raft \<Rightarrow> int \<Rightarrow> int \<Rightarrow> bytes \<Rightarrow> 'p Raft" where
  "take_snapshot rf index term snapshot =
     rf\<lparr>rf_lastIncludeIndex := index, rf_lastIncludeTerm := term,
        rf_log := trim_log index term (rf_log rf), rf_snapshot := snapshot,
        rf_commitIndex := (if rf_commitIndex rf < index then index else rf_commitIndex rf),
        rf_lastApplied := (if rf_lastApplied rf < index then index else rf_lastApplied rf)\<rparr>"

definition Snapshot :: "'p RaftIO \<Rightarrow> 'p Raft \<Rightarrow> int \<Rightarrow> bytes \<Rightarrow> 'p Raft outcome" where
  "Snapshot io rf index snapshot =
     (if index \<le> rf_lastIncludeIndex rf then Inr rf
      else
        let abs_index = index - rf_lastIncludeIndex rf
        in if abs_index \<ge> int (length (rf_log rf)) then Inl IndexOutOfRange
           else
             let rf1 = take_snapshot rf index (e_Term (rf_log rf ! nat abs_index)) snapshot
             in case (if rf_state rf1 = Leader then raise_progress rf1 [0..<rf_peers rf1] else Inr rf1) of
                  Inl p \<Rightarrow> Inl p
                | Inr rf2 \<Rightarrow> Inr (persist io rf2))"

text \<open>
  \<^verbatim>\<open>InstallSnapshot\<close> also returns the message that its goroutine sends to the apply channel.
\<close>

definition InstallSnapshot ::
  "'p RaftIO \<Rightarrow> 'p Raft \<Rightarrow> InstallSnapshotArgs \<Rightarrow> 'p Raft \<times> InstallSnapshotReply \<times> ApplyMsg option" where
  "InstallSnapshot io rf args =
     (let reply = \<lparr>isr_Term = rf_currentTerm rf\<rparr>
      in if is_Term args < rf_currentTerm rf then (rf, reply, None)
      else
        let rf1 =
          (if is_Term args > rf_currentTerm rf then
             persist io ((send_role False (is_Term args)
               (rf\<lparr>rf_currentTerm := is_Term args, rf_state := Follower\<rparr>))\<lparr>rf_votedFor := -1\<rparr>)
           else rf);
            rf2 = resetElectionTimer (rf1\<lparr>rf_state := Follower\<rparr>)
        in if is_LastIncludeIndex args \<le> rf_lastIncludeIndex rf2 then (rf2, reply, None)
           else
             (persist io (take_snapshot rf2 (is_LastIncludeIndex args) (is_LastIncludeTerm args) (is_Data args)),
              reply,
              Some \<lparr>am_CommandValid = False, am_Command = [], am_CommandIndex = 0,
                am_SnapshotValid = True, am_Snapshot = is_Data args,
                am_SnapshotTerm = is_LastIncludeTerm args,
                am_SnapshotIndex = is_LastIncludeIndex args\<rparr>))"

section \<open>Applying committed entries\<close>

function apply_entries :: "'p Raft \<Rightarrow> ApplyMsg list \<Rightarrow> 'p Raft \<times> ApplyMsg list" where
  "apply_entries rf msgs =
     (if rf_lastApplied rf < rf_commitIndex rf then
        let nextIdx = rf_lastApplied rf + 1
        in if nextIdx \<le> rf_lastIncludeIndex rf then
             apply_entries (rf\<lparr>rf_lastApplied := rf_lastIncludeIndex rf\<rparr>) msgs
           else
             let sliceId = nextIdx - rf_lastIncludeIndex rf
             in if sliceId \<le> 0 \<or> sliceId \<ge> int (length (rf_log rf)) then (rf, msgs)
                else
                  apply_entries (rf\<lparr>rf_lastApplied := nextIdx\<rparr>)
                    (msgs @ [\<lparr>am_CommandValid = True, am_Command = e_Command (rf_log rf ! nat sliceId),
                        am_CommandIndex = nextIdx, am_SnapshotValid = False, am_Snapshot = [],
                        am_SnapshotTerm = 0, am_SnapshotIndex = 0\<rparr>])
      else (rf, msgs))"
  by pat_completeness auto
termination
  by (relation "measure (\<lambda>(rf, msgs). nat (rf_commitIndex rf - rf_lastApplied rf))") auto

declare apply_entries.simps [simp del]

text \<open>One round of the applier: the node afterwards and the messages it sends, in order.\<close>

definition applier_step :: "'p Raft \<Rightarrow> 'p Raft \<times> ApplyMsg list" where
  "applier_step rf =
     (if rf_lastApplied rf < rf_lastIncludeIndex rf then
        (rf\<lparr>rf_lastApplied := rf_lastIncludeIndex rf\<rparr>,
         [\<lparr>am_CommandValid = False, am_Command = [], am_CommandIndex = 0, am_SnapshotValid = True,
           am_Snapshot = rf_snapshot rf, am_SnapshotTerm = rf_lastIncludeTerm rf,
           am_SnapshotIndex = rf_lastIncludeIndex rf\<rparr>])
      else apply_entries rf [])"

definition LastApplied :: "'p Raft \<Rightarrow> int" where
  "LastApplied rf = rf_lastApplied rf"

section \<open>Reads, start-up and state queries\<close>

text \<open>
  \<^verbatim>\<open>ReadIndex\<close> up to its wait: the index and term it keeps, or \<^const>\<open>None\<close> when it returns
  false at once; then the two branches of the wait.
\<close>

definition ReadIndex_begin :: "'p Raft \<Rightarrow> 'p Raft \<times> (int \<times> int) option" where
  "ReadIndex_begin rf =
     (if rf_state rf \<noteq> Leader then (rf, None)
      else if rf_pendingReadCh rf \<noteq> None then (rf, None)
      else
        let count = 1;
            tokens = (if count > int (rf_peers rf) div 2 then 1 else 0)
        in (rf\<lparr>rf_pendingReadCh := Some tokens, rf_pendingReadCount := count,
               rf_readTriggerCh := (if rf_readTriggerCh rf < 1 then rf_readTriggerCh rf + 1
                                    else rf_readTriggerCh rf)\<rparr>,
            Some (rf_commitIndex rf, rf_currentTerm rf)))"

text \<open>A token was received from the channel; \<^const>\<open>None\<close> is \<^verbatim>\<open>(0, false)\<close>.\<close>

definition ReadIndex_confirmed :: "'p Raft \<Rightarrow> int \<times> int \<Rightarrow> 'p Raft \<times> int option" where
  "ReadIndex_confirmed rf = (\<lambda>(index, term).
     let rf1 = rf\<lparr>rf_pendingReadCh := map_option (\<lambda>n. n - 1) (rf_pendingReadCh rf)\<rparr>
     in if rf_state rf1 \<noteq> Leader \<or> rf_currentTerm rf1 \<noteq> term then (rf1, None)
        else (rf1\<lparr>rf_pendingReadCh := None, rf_pendingReadCount := 0\<rparr>, Some index))"

definition ReadIndex_timeout :: "'p Raft \<Rightarrow> 'p Raft \<times> int option" where
  "ReadIndex_timeout rf = (rf\<lparr>rf_pendingReadCh := None, rf_pendingReadCount := 0\<rparr>, None)"

definition Make :: "'p RaftIO \<Rightarrow> nat \<Rightarrow> int \<Rightarrow> 'p \<Rightarrow> 'p Raft outcome" where
  "Make io peers me p =
     (let rf = \<lparr>rf_peers = peers, rf_persister = p, rf_me = me, rf_dead = False,
            rf_currentTerm = 0, rf_votedFor = -1, rf_state = Follower, rf_electionTimer = None,
            rf_log = [\<lparr>e_Term = 0, e_Command = [], e_Index = 0\<rparr>], rf_commitIndex = 0,
            rf_lastApplied = 0, rf_nextIndex = [], rf_matchIndex = [], rf_lastIncludeIndex = 0,
            rf_lastIncludeTerm = 0, rf_snapshot = [], rf_roleCh = [], rf_pendingReadCh = None,
            rf_pendingReadCount = 0, rf_readTriggerCh = 0, rf_loops = 0\<rparr>
      in case readPersist io rf (io_ReadRaftState io p) of
           Inl e \<Rightarrow> Inl e
         | Inr rf1 \<Rightarrow>
             Inr (resetElectionTimer
               (if peers \<le> 1
                then (initLeaderProgressLocked (rf1\<lparr>rf_state := Leader\<rparr>))\<lparr>rf_loops := rf_loops rf1 + 1\<rparr>
                else rf1)))"

definition Kill :: "'p Raft \<Rightarrow> 'p Raft" where
  "Kill rf = rf\<lparr>rf_dead := True\<rparr>"

definition GetState :: "'p Raft \<Rightarrow> int \<times> bool" where
  "GetState rf = (rf_me rf, rf_state rf = Leader)"

definition SnapshotBytes :: "'p Raft \<Rightarrow> bytes" where
  "SnapshotBytes rf = (if length (rf_snapshot rf) = 0 then [] else [] @ rf_snapshot rf)"

end
