(* ===== verification/RaftInv.thy ===== *)
theory RaftInv
  imports Raft
begin

text \<open>
  The local invariants of a raft node and the operations that keep them: the log is
  indexed consecutively from the snapshot, the applied and the commit index are not below
  it, a leader has one slot per peer; terms never go back and a vote is only
  withdrawn by a higher term; and whatever a handler answers is on disk before it answers.
\<close>

section \<open>Shape of the log and the indices\<close>

definition indexed_from :: "int \<Rightarrow> LogEntry list \<Rightarrow> bool" where
  "indexed_from b es \<longleftrightarrow> (\<forall>i < length es. e_Index (es ! i) = b + int i)"

lemma indexed_from_Nil [simp]: "indexed_from b []"
  by (simp add: indexed_from_def)

lemma indexed_from_Cons [simp]:
  "indexed_from b (e # es) \<longleftrightarrow> e_Index e = b \<and> indexed_from (b + 1) es"
  by (auto simp: indexed_from_def nth_Cons' less_Suc_eq_0_disj algebra_simps of_nat_diff)

lemma indexed_from_append [simp]:
  "indexed_from b (es @ fs) \<longleftrightarrow> indexed_from b es \<and> indexed_from (b + int (length es)) fs"
  by (induction es arbitrary: b) (simp_all add: ac_simps)

lemma indexed_from_take: "indexed_from b es \<Longrightarrow> indexed_from b (take n es)"
  by (metis append_take_drop_id indexed_from_append)

lemma indexed_from_drop: "indexed_from b es \<Longrightarrow> n \<le> length es \<Longrightarrow> indexed_from (b + int n) (drop n es)"
  by (metis append_take_drop_id indexed_from_append length_take min_absorb2)

text \<open>The entries above an index are a suffix of a consecutively indexed log.\<close>

lemma filter_above:
  assumes "indexed_from b es"
  shows "filter (\<lambda>l. e_Index l > x) es = drop (nat (x + 1 - b)) es"
  using assms
proof (induction es arbitrary: b)
  case (Cons e es)
  then have e: "e_Index e = b" and IH: "filter (\<lambda>l. e_Index l > x) es = drop (nat (x - b)) es"
    using Cons.IH [of "b + 1"] by simp_all
  show ?case
  proof (cases "b \<le> x")
    case True
    then have "nat (x + 1 - b) = Suc (nat (x - b))" by simp
    with True e IH show ?thesis by simp
  next
    case False
    with e IH show ?thesis by simp
  qed
qed simp

lemma trim_log_indexed:
  assumes "indexed_from b es" and "b < x"
  shows "indexed_from x (trim_log x t es)"
proof (cases "nat (x + 1 - b) \<le> length es")
  case True
  from indexed_from_drop [OF assms(1) True] assms(2) show ?thesis
    by (simp add: trim_log_def filter_above [OF assms(1)] algebra_simps)
next
  case False
  then show ?thesis by (simp add: trim_log_def filter_above [OF assms(1)])
qed

definition raft_inv :: "'p Raft \<Rightarrow> bool" where
  "raft_inv rf \<longleftrightarrow>
     rf_log rf \<noteq> [] \<and> indexed_from (rf_lastIncludeIndex rf) (rf_log rf) \<and>
     0 \<le> rf_lastIncludeIndex rf \<and> rf_lastIncludeIndex rf \<le> rf_lastApplied rf \<and>
     rf_lastIncludeIndex rf \<le> rf_commitIndex rf \<and>
     (rf_state rf = Leader \<longrightarrow>
        length (rf_nextIndex rf) = rf_peers rf \<and> length (rf_matchIndex rf) = rf_peers rf)"

definition append_ok :: "AppendEntriesArgs \<Rightarrow> bool" where
  "append_ok args \<longleftrightarrow> indexed_from (ae_PrevLogIndex args + 1) (ae_Entries args)"

text \<open>The fields the invariant reads; the other fields may change freely.\<close>

lemma raft_inv_cong:
  assumes "rf_log rf' = rf_log rf" "rf_lastIncludeIndex rf' = rf_lastIncludeIndex rf"
    "rf_lastApplied rf' = rf_lastApplied rf" "rf_commitIndex rf' = rf_commitIndex rf"
    "rf_peers rf' = rf_peers rf"
    "rf_state rf' = Leader \<Longrightarrow> rf_state rf = Leader \<and>
       length (rf_nextIndex rf') = length (rf_nextIndex rf) \<and>
       length (rf_matchIndex rf') = length (rf_matchIndex rf)"
  shows "raft_inv rf \<Longrightarrow> raft_inv rf'"
  using assms by (auto simp: raft_inv_def)

section \<open>Which operations keep it\<close>

lemma persist_inv [simp]: "raft_inv (persist io rf) = raft_inv rf"
  by (simp add: raft_inv_def)

lemma send_role_inv [simp]: "raft_inv (send_role b t rf) = raft_inv rf"
  by (simp add: raft_inv_def)

lemma reset_inv [simp]: "raft_inv (resetElectionTimer rf) = raft_inv rf"
  by (simp add: raft_inv_def)

lemma lead_inv [inv_intros]:
  "raft_inv rf \<Longrightarrow> raft_inv ((initLeaderProgressLocked rf)\<lparr>rf_loops := l\<rparr>)"
  by (simp add: raft_inv_def initLeaderProgressLocked_def)

lemma RequestVote_inv [inv_intros]:
  "raft_inv rf \<Longrightarrow> RequestVote io rf args = Inr (rf', r) \<Longrightarrow> raft_inv rf'"
  by (auto simp: RequestVote_def Let_def raft_inv_def split: if_splits)

lemma startElection_inv [inv_intros]:
  "raft_inv rf \<Longrightarrow> startElection io rf = Inr (rf', args) \<Longrightarrow> raft_inv rf'"
  by (auto simp: startElection_def Let_def raft_inv_def split: if_splits)

lemma startElection_single_inv [inv_intros]: "raft_inv rf \<Longrightarrow> raft_inv (startElection_single rf)"
  by (auto simp: startElection_single_def raft_inv_def initLeaderProgressLocked_def)

lemma handleVoteReply_inv [inv_intros]:
  "raft_inv rf \<Longrightarrow> handleVoteReply io rf args votes call = (rf', votes') \<Longrightarrow> raft_inv rf'"
  by (auto simp: handleVoteReply_def Let_def raft_inv_def initLeaderProgressLocked_def
      split: if_splits option.splits)

lemma adopt_inv [inv_intros]: "raft_inv rf \<Longrightarrow> raft_inv (append_adopt_term io rf args)"
  by (auto simp: append_adopt_term_def raft_inv_def)

lemma adopt_frame [simp]:
  "rf_log (append_adopt_term io rf args) = rf_log rf"
  "rf_lastIncludeIndex (append_adopt_term io rf args) = rf_lastIncludeIndex rf"
  "rf_lastIncludeTerm (append_adopt_term io rf args) = rf_lastIncludeTerm rf"
  "rf_commitIndex (append_adopt_term io rf args) = rf_commitIndex rf"
  "rf_lastApplied (append_adopt_term io rf args) = rf_lastApplied rf"
  "rf_snapshot (append_adopt_term io rf args) = rf_snapshot rf"
  "rf_peers (append_adopt_term io rf args) = rf_peers rf"
  "rf_me (append_adopt_term io rf args) = rf_me rf"
  "rf_state (append_adopt_term io rf args) = Follower"
  "rf_pendingReadCh (append_adopt_term io rf args) = rf_pendingReadCh rf"
  "rf_dead (append_adopt_term io rf args) = rf_dead rf"
  by (simp_all add: append_adopt_term_def)

lemma accept_frame [simp]:
  "rf_lastIncludeIndex (append_accept rf args) = rf_lastIncludeIndex rf"
  "rf_lastIncludeTerm (append_accept rf args) = rf_lastIncludeTerm rf"
  "rf_lastApplied (append_accept rf args) = rf_lastApplied rf"
  "rf_snapshot (append_accept rf args) = rf_snapshot rf"
  "rf_peers (append_accept rf args) = rf_peers rf"
  "rf_me (append_accept rf args) = rf_me rf"
  "rf_state (append_accept rf args) = rf_state rf"
  "rf_currentTerm (append_accept rf args) = rf_currentTerm rf"
  "rf_votedFor (append_accept rf args) = rf_votedFor rf"
  "rf_persister (append_accept rf args) = rf_persister rf"
  "rf_pendingReadCh (append_accept rf args) = rf_pendingReadCh rf"
  "rf_nextIndex (append_accept rf args) = rf_nextIndex rf"
  "rf_matchIndex (append_accept rf args) = rf_matchIndex rf"
  "rf_dead (append_accept rf args) = rf_dead rf"
  by (simp_all add: append_accept_def Let_def)

lemma accept_log:
  "rf_log (append_accept rf args) =
     (if ae_Entries args = [] then rf_log rf
      else take (nat (ae_PrevLogIndex args + 1 - rf_lastIncludeIndex rf)) (rf_log rf) @ ae_Entries args)"
  by (simp add: append_accept_def Let_def)

lemma accept_commit:
  "rf_commitIndex (append_accept rf args) =
     (if ae_LeaderCommit args > rf_commitIndex rf
      then min (ae_LeaderCommit args)
        (rf_lastIncludeIndex rf + int (length (rf_log (append_accept rf args))) - 1)
      else rf_commitIndex rf)"
  by (auto simp: append_accept_def Let_def lastLogIndex_def)

lemma accept_inv [inv_intros]:
  assumes "raft_inv rf" "rf_state rf \<noteq> Leader" "append_ok args"
    and "rf_lastIncludeIndex rf \<le> ae_PrevLogIndex args" "ae_PrevLogIndex args \<le> lastLogIndex rf"
  shows "raft_inv (append_accept rf args)"
proof -
  let ?n = "nat (ae_PrevLogIndex args + 1 - rf_lastIncludeIndex rf)"
  have n: "?n \<le> length (rf_log rf)" "0 < ?n"
    using assms(4,5) by (simp_all add: lastLogIndex_def nat_le_iff)
  have log: "rf_log (append_accept rf args) \<noteq> []"
    "indexed_from (rf_lastIncludeIndex rf) (rf_log (append_accept rf args))"
    using assms n indexed_from_take [of "rf_lastIncludeIndex rf" "rf_log rf" ?n]
    by (auto simp: accept_log raft_inv_def append_ok_def min_absorb2)
  then have "0 < length (rf_log (append_accept rf args))" by simp
  then have "rf_lastIncludeIndex rf \<le> rf_commitIndex (append_accept rf args)"
    using assms(1) by (auto simp: accept_commit raft_inv_def min_def)
  with log assms(1,2) show ?thesis by (simp add: raft_inv_def)
qed

text \<open>
  The four outcomes of \<^verbatim>\<open>AppendEntries\<close>: a stale term, a previous index that is outside
  the log, a previous entry of another term, and acceptance.
\<close>

lemma AppendEntries_cases:
  obtains (stale) "ae_Term args < rf_currentTerm rf" "fst (AppendEntries io rf args) = rf"
      "\<not> aer_Success (snd (AppendEntries io rf args))"
  | (refused) "ae_Term args \<ge> rf_currentTerm rf"
      "fst (AppendEntries io rf args) = append_adopt_term io rf args"
      "\<not> aer_Success (snd (AppendEntries io rf args))"
      "ae_PrevLogIndex args < rf_lastIncludeIndex rf \<or> lastLogIndex rf < ae_PrevLogIndex args \<or>
       e_Term (rf_log rf ! nat (ae_PrevLogIndex args - rf_lastIncludeIndex rf)) \<noteq> ae_PrevLogTerm args"
  | (accepted) "ae_Term args \<ge> rf_currentTerm rf"
      "fst (AppendEntries io rf args) = persist io (append_accept (append_adopt_term io rf args) args)"
      "aer_Success (snd (AppendEntries io rf args))"
      "rf_lastIncludeIndex rf \<le> ae_PrevLogIndex args" "ae_PrevLogIndex args \<le> lastLogIndex rf"
      "e_Term (rf_log rf ! nat (ae_PrevLogIndex args - rf_lastIncludeIndex rf)) = ae_PrevLogTerm args"
proof (cases "ae_Term args < rf_currentTerm rf")
  case True
  then show ?thesis by (intro stale) (simp_all add: AppendEntries_def)
next
  case cur: False
  show ?thesis
  proof (cases "ae_PrevLogIndex args < rf_lastIncludeIndex rf \<or> lastLogIndex rf < ae_PrevLogIndex args \<or>
       e_Term (rf_log rf ! nat (ae_PrevLogIndex args - rf_lastIncludeIndex rf)) \<noteq> ae_PrevLogTerm args")
    case True
    with cur show ?thesis
      by (intro refused) (auto simp: AppendEntries_def Let_def lastLogIndex_def)
  next
    case False
    with cur show ?thesis
      by (intro accepted) (auto simp: AppendEntries_def Let_def lastLogIndex_def)
  qed
qed

lemma AppendEntries_inv [inv_intros]:
  assumes "raft_inv rf" "append_ok args"
  shows "raft_inv (fst (AppendEntries io rf args))"
proof (cases rule: AppendEntries_cases [of args rf io])
  case accepted
  then show ?thesis
    using assms by (auto simp: lastLogIndex_def intro!: accept_inv adopt_inv)
qed (use assms in \<open>auto intro: adopt_inv\<close>)

lemma count_match_ok:
  "\<forall>i \<in> set is. i < length (rf_matchIndex rf) \<Longrightarrow>
     count_match rf N is c =
       Inr (c + int (length (filter (\<lambda>i. int i \<noteq> rf_me rf \<and> N \<le> rf_matchIndex rf ! i) is)))"
  by (induction "is" arbitrary: c) simp_all

lemma commit_loop_only:
  "commit_loop rf N = Inr rf' \<Longrightarrow>
     rf' = rf\<lparr>rf_commitIndex := rf_commitIndex rf'\<rparr> \<and> rf_commitIndex rf \<le> rf_commitIndex rf'"
  by (induction rf N rule: commit_loop.induct)
    (auto simp: commit_loop.simps Let_def split: if_splits sum.splits)

lemma commit_loop_frame:
  "commit_loop rf N = Inr rf' \<Longrightarrow> \<exists>M. rf' = rf\<lparr>rf_commitIndex := M\<rparr> \<and> rf_commitIndex rf \<le> M"
  using commit_loop_only by blast

lemma updateCommiIndex_inv [inv_intros]:
  assumes "raft_inv rf" "updateCommiIndex rf = Inr rf'"
  shows "raft_inv rf'"
proof -
  obtain N where "rf' = rf\<lparr>rf_commitIndex := N\<rparr>" "rf_commitIndex rf \<le> N"
    using commit_loop_frame assms(2) unfolding updateCommiIndex_def by blast
  with assms(1) show ?thesis by (simp add: raft_inv_def)
qed

lemma Start_inv [inv_intros]: "raft_inv rf \<Longrightarrow> raft_inv (fst (Start io rf c))"
  by (simp add: Start_def Let_def raft_inv_def lastLogIndex_def)

lemma logUpdate_inv [inv_intros]:
  "raft_inv rf \<Longrightarrow> raft_inv (fst (logUpdate_check rf))"
  "raft_inv rf \<Longrightarrow> logUpdate_single rf = Inr rf' \<Longrightarrow> raft_inv rf'"
  "raft_inv rf \<Longrightarrow> logUpdate_self rf i = Inr rf' \<Longrightarrow> raft_inv rf'"
proof -
  show "raft_inv rf \<Longrightarrow> raft_inv (fst (logUpdate_check rf))"
    by (simp add: logUpdate_check_def Let_def)
  show "raft_inv rf \<Longrightarrow> logUpdate_single rf = Inr rf' \<Longrightarrow> raft_inv rf'"
    by (auto simp: logUpdate_single_def split: if_splits intro: updateCommiIndex_inv)
  show "raft_inv rf \<Longrightarrow> logUpdate_self rf i = Inr rf' \<Longrightarrow> raft_inv rf'"
    by (auto simp: logUpdate_self_def Let_def raft_inv_def split: if_splits)
qed

lemma replicate_prepare_inv [inv_intros]:
  assumes "raft_inv rf" "replicate_prepare rf j = Inr (rf', q)"
  shows "raft_inv rf'"
proof (cases "rf_state rf = Leader")
  case True
  with assms(2) obtain rf1 where "updateCommiIndex rf = Inr rf1"
      "rf' = rf1 \<or> rf' = rf1\<lparr>rf_nextIndex := (rf_nextIndex rf1)[j := rf_lastIncludeIndex rf1 + 1]\<rparr>"
    by (auto simp: replicate_prepare_def Let_def split: if_splits sum.splits)
  with updateCommiIndex_inv [OF assms(1)] show ?thesis by (auto simp: raft_inv_def)
qed (use assms in \<open>auto simp: replicate_prepare_def\<close>)

lemma replicate_snapshot_reply_inv [inv_intros]:
  "raft_inv rf \<Longrightarrow> replicate_snapshot_reply io rf j t call = Inr rf' \<Longrightarrow> raft_inv rf'"
  by (auto simp: replicate_snapshot_reply_def Let_def raft_inv_def split: if_splits option.splits)

lemma read_quorum_frame [simp]:
  "rf_log (read_quorum rf) = rf_log rf" "rf_lastIncludeIndex (read_quorum rf) = rf_lastIncludeIndex rf"
  "rf_lastIncludeTerm (read_quorum rf) = rf_lastIncludeTerm rf"
  "rf_snapshot (read_quorum rf) = rf_snapshot rf" "rf_persister (read_quorum rf) = rf_persister rf"
  "rf_currentTerm (read_quorum rf) = rf_currentTerm rf" "rf_votedFor (read_quorum rf) = rf_votedFor rf"
  "rf_lastApplied (read_quorum rf) = rf_lastApplied rf" "rf_commitIndex (read_quorum rf) = rf_commitIndex rf"
  "rf_peers (read_quorum rf) = rf_peers rf" "rf_me (read_quorum rf) = rf_me rf"
  "rf_state (read_quorum rf) = rf_state rf" "rf_nextIndex (read_quorum rf) = rf_nextIndex rf"
  "rf_matchIndex (read_quorum rf) = rf_matchIndex rf"
  by (simp_all add: read_quorum_def Let_def split: option.splits)

lemma replicate_append_reply_inv [inv_intros]:
  "raft_inv rf \<Longrightarrow> replicate_append_reply io rf j args call = Inr rf' \<Longrightarrow> raft_inv rf'"
  by (auto simp: replicate_append_reply_def Let_def raft_inv_def split: if_splits option.splits)

lemma take_snapshot_inv [inv_intros]:
  "raft_inv rf \<Longrightarrow> rf_lastIncludeIndex rf < i \<Longrightarrow> raft_inv (take_snapshot rf i t d)"
  using trim_log_indexed [of "rf_lastIncludeIndex rf" "rf_log rf" i t]
  by (auto simp: take_snapshot_def raft_inv_def trim_log_def)

lemma raise_progress_frame:
  "raise_progress rf is = Inr rf' \<Longrightarrow>
     rf' = rf\<lparr>rf_nextIndex := rf_nextIndex rf', rf_matchIndex := rf_matchIndex rf'\<rparr> \<and>
     length (rf_nextIndex rf') = length (rf_nextIndex rf) \<and>
     length (rf_matchIndex rf') = length (rf_matchIndex rf)"
  by (induction rf "is" rule: raise_progress.induct) (auto simp: Let_def split: if_splits)

lemma raise_progress_only:
  "raise_progress rf is = Inr rf' \<Longrightarrow>
     \<exists>ns ms. rf' = rf\<lparr>rf_nextIndex := ns, rf_matchIndex := ms\<rparr> \<and>
       length ns = length (rf_nextIndex rf) \<and> length ms = length (rf_matchIndex rf)"
  using raise_progress_frame by blast

lemma raise_progress_inv [inv_intros]:
  assumes "raft_inv rf" "raise_progress rf is = Inr rf'"
  shows "raft_inv rf'"
proof -
  obtain ns ms where "rf' = rf\<lparr>rf_nextIndex := ns, rf_matchIndex := ms\<rparr>"
      "length ns = length (rf_nextIndex rf)" "length ms = length (rf_matchIndex rf)"
    using raise_progress_only [OF assms(2)] by blast
  with assms(1) show ?thesis by (simp add: raft_inv_def)
qed

lemma Snapshot_inv [inv_intros]:
  "raft_inv rf \<Longrightarrow> Snapshot io rf i d = Inr rf' \<Longrightarrow> raft_inv rf'"
  by (auto simp: Snapshot_def Let_def not_le split: if_splits sum.splits
      intro: raise_progress_inv [OF take_snapshot_inv] take_snapshot_inv)

lemma InstallSnapshot_inv [inv_intros]:
  assumes "raft_inv rf"
  shows "raft_inv (fst (InstallSnapshot io rf args))"
proof -
  have "raft_inv (resetElectionTimer (rf1\<lparr>rf_state := Follower\<rparr>))" if "raft_inv rf1" for rf1
    using that by (simp add: raft_inv_def)
  moreover have "raft_inv ((send_role b t (rf\<lparr>rf_currentTerm := t', rf_state := Follower\<rparr>))\<lparr>rf_votedFor := v\<rparr>)"
    for b t t' v using assms by (simp add: raft_inv_def)
  ultimately show ?thesis
    using assms by (auto simp: InstallSnapshot_def Let_def intro: take_snapshot_inv)
qed

lemma apply_entries_frame:
  "apply_entries rf ms = (rf', ms') \<Longrightarrow>
     (\<exists>a. rf' = rf\<lparr>rf_lastApplied := a\<rparr> \<and> rf_lastApplied rf \<le> a)"
proof (induction rf ms rule: apply_entries.induct)
  case (1 rf ms)
  let ?next = "rf_lastApplied rf + 1"
  let ?done = "?next - rf_lastIncludeIndex rf \<le> 0 \<or> ?next - rf_lastIncludeIndex rf \<ge> int (length (rf_log rf))"
  consider (stop) "\<not> rf_lastApplied rf < rf_commitIndex rf \<or> \<not> ?next \<le> rf_lastIncludeIndex rf \<and> ?done"
    | (skip) "rf_lastApplied rf < rf_commitIndex rf" "?next \<le> rf_lastIncludeIndex rf"
    | (msg) "rf_lastApplied rf < rf_commitIndex rf" "\<not> ?next \<le> rf_lastIncludeIndex rf" "\<not> ?done"
    by blast
  then show ?case
  proof cases
    case stop
    with "1.prems" have "rf' = rf"
      by (subst (asm) apply_entries.simps) (auto simp: Let_def split: if_splits)
    then show ?thesis by (intro exI [of _ "rf_lastApplied rf"]) simp
  next
    case skip
    with "1.prems" have "apply_entries (rf\<lparr>rf_lastApplied := rf_lastIncludeIndex rf\<rparr>) ms = (rf', ms')"
      by (subst (asm) apply_entries.simps) (simp add: Let_def)
    from "1.IH"(1) [OF skip(1) refl skip(2) this] skip show ?thesis by auto
  next
    case msg
    with "1.prems" obtain m where "apply_entries (rf\<lparr>rf_lastApplied := ?next\<rparr>) (ms @ [m]) = (rf', ms')"
      and m: "m = \<lparr>am_CommandValid = True, am_Command = e_Command (rf_log rf ! nat (?next - rf_lastIncludeIndex rf)),
         am_CommandIndex = ?next, am_SnapshotValid = False, am_Snapshot = [],
         am_SnapshotTerm = 0, am_SnapshotIndex = 0\<rparr>"
      by (subst (asm) apply_entries.simps) (simp add: Let_def)
    from "1.IH"(2) [OF msg(1) refl msg(2) refl msg(3) this(1) [unfolded m]] show ?thesis by auto
  qed
qed

lemma applier_step_inv [inv_intros]:
  assumes "raft_inv rf" "applier_step rf = (rf', ms)"
  shows "raft_inv rf'"
proof -
  obtain a where "rf' = rf\<lparr>rf_lastApplied := a\<rparr>" "rf_lastApplied rf \<le> a"
    using assms(2) apply_entries_frame [of rf "[]" rf' ms] by (fastforce simp: applier_step_def split: if_splits)
  with assms(1) show ?thesis by (simp add: raft_inv_def)
qed

lemma read_inv [inv_intros]:
  "raft_inv rf \<Longrightarrow> raft_inv (fst (ReadIndex_begin rf))"
  "raft_inv rf \<Longrightarrow> raft_inv (fst (ReadIndex_confirmed rf q))"
  "raft_inv rf \<Longrightarrow> raft_inv (fst (ReadIndex_timeout rf))"
  "raft_inv rf \<Longrightarrow> raft_inv (fst (ticker_step rf))"
  by (auto simp: ReadIndex_begin_def ReadIndex_confirmed_def ReadIndex_timeout_def ticker_step_def
      raft_inv_def Let_def split: prod.splits State.splits option.splits)

end
