(* ===== verification/RaftSpec.thy ===== *)
theory RaftSpec
  imports RaftInv
begin

text \<open>
  What the handlers of a raft node compute, stated over log indices instead of slice
  positions: the commit rule, the messages of the applier, the log after an accepted
  \<^verbatim>\<open>AppendEntries\<close> and after a snapshot, and when a handler cannot panic.
\<close>

section \<open>Entries by index\<close>

definition entry_at :: "'p Raft \<Rightarrow> int \<Rightarrow> LogEntry" where
  "entry_at rf k = rf_log rf ! nat (k - rf_lastIncludeIndex rf)"

lemma raft_inv_last: "raft_inv rf \<Longrightarrow> rf_lastIncludeIndex rf \<le> lastLogIndex rf"
  by (cases "rf_log rf") (auto simp: raft_inv_def lastLogIndex_def)

lemma entry_at_index:
  "raft_inv rf \<Longrightarrow> rf_lastIncludeIndex rf \<le> k \<Longrightarrow> k \<le> lastLogIndex rf \<Longrightarrow> e_Index (entry_at rf k) = k"
  by (auto simp: raft_inv_def indexed_from_def entry_at_def lastLogIndex_def)

section \<open>The commit rule\<close>

text \<open>An index that a majority holds and whose entry is of the leader's own term.\<close>

definition committable :: "'p Raft \<Rightarrow> int \<Rightarrow> bool" where
  "committable rf N \<longleftrightarrow>
     rf_lastIncludeIndex rf < N \<and> N \<le> lastLogIndex rf \<and> e_Term (entry_at rf N) = rf_currentTerm rf \<and>
     rf_peers rf div 2 < 1 + card {i. i < rf_peers rf \<and> int i \<noteq> rf_me rf \<and> N \<le> rf_matchIndex rf ! i}"

lemma count_match_card:
  assumes "length (rf_matchIndex rf) = rf_peers rf"
  shows "count_match rf N [0..<rf_peers rf] 1 =
    Inr (1 + int (card {i. i < rf_peers rf \<and> int i \<noteq> rf_me rf \<and> N \<le> rf_matchIndex rf ! i}))"
proof -
  let ?P = "\<lambda>i. int i \<noteq> rf_me rf \<and> N \<le> rf_matchIndex rf ! i"
  have "length (filter ?P [0..<rf_peers rf]) = card (set (filter ?P [0..<rf_peers rf]))"
    by (rule distinct_card [symmetric]) simp
  also have "set (filter ?P [0..<rf_peers rf]) = {i. i < rf_peers rf \<and> ?P i}" by auto
  finally show ?thesis using assms by (subst count_match_ok) auto
qed

lemma commit_loop_step:
  assumes "length (rf_matchIndex rf) = rf_peers rf" "N \<le> lastLogIndex rf" "rf_lastIncludeIndex rf \<le> rf_commitIndex rf"
  shows "commit_loop rf N =
    (if N > rf_commitIndex rf then
       if committable rf N then Inr (rf\<lparr>rf_commitIndex := N\<rparr>) else commit_loop rf (N - 1)
     else Inr rf)"
proof (cases "N > rf_commitIndex rf")
  case True
  let ?S = "{i. i < rf_peers rf \<and> int i \<noteq> rf_me rf \<and> N \<le> rf_matchIndex rf ! i}"
  have "int (rf_peers rf) div 2 < 1 + int (card ?S) \<longleftrightarrow> rf_peers rf div 2 < 1 + card ?S" by linarith
  then have "committable rf N \<longleftrightarrow> 1 + int (card ?S) > int (rf_peers rf) div 2 \<and>
      N - rf_lastIncludeIndex rf > 0 \<and> N - rf_lastIncludeIndex rf < int (length (rf_log rf)) \<and>
      e_Term (rf_log rf ! nat (N - rf_lastIncludeIndex rf)) = rf_currentTerm rf"
    using assms(2,3) True by (auto simp: committable_def entry_at_def lastLogIndex_def)
  with True assms(3) show ?thesis
    by (subst commit_loop.simps) (auto simp: count_match_card [OF assms(1)] Let_def)
qed (simp add: commit_loop.simps)

lemma commit_loop_max:
  assumes "length (rf_matchIndex rf) = rf_peers rf" "N \<le> lastLogIndex rf" "rf_lastIncludeIndex rf \<le> rf_commitIndex rf"
  shows "\<exists>M. commit_loop rf N = Inr (rf\<lparr>rf_commitIndex := M\<rparr>) \<and>
    (M = rf_commitIndex rf \<or> rf_commitIndex rf < M \<and> committable rf M) \<and>
    (\<forall>K. M < K \<and> K \<le> N \<longrightarrow> \<not> committable rf K)"
  using assms(2)
proof (induction "nat (N - rf_commitIndex rf)" arbitrary: N)
  case 0
  then show ?case
    using commit_loop_step [OF assms(1) 0(2) assms(3)] by (intro exI [of _ "rf_commitIndex rf"]) auto
next
  case (Suc m)
  show ?case
  proof (cases "committable rf N")
    case True
    then show ?thesis using Suc commit_loop_step [OF assms(1) Suc.prems assms(3)] by (intro exI [of _ N]) auto
  next
    case False
    have "m = nat (N - 1 - rf_commitIndex rf)" "N - 1 \<le> lastLogIndex rf" using Suc by auto
    from Suc.hyps(1) [OF this] obtain M where M: "commit_loop rf (N - 1) = Inr (rf\<lparr>rf_commitIndex := M\<rparr>)"
      "M = rf_commitIndex rf \<or> rf_commitIndex rf < M \<and> committable rf M"
      "\<forall>K. M < K \<and> K \<le> N - 1 \<longrightarrow> \<not> committable rf K" by blast
    have "\<not> committable rf K" if "M < K" "K \<le> N" for K
      using M(3) False that by (cases "K = N") auto
    moreover have "commit_loop rf N = commit_loop rf (N - 1)"
      using commit_loop_step [OF assms(1) Suc.prems assms(3)] Suc(2) False by auto
    ultimately show ?thesis using M(1,2) by auto
  qed
qed

lemma updateCommiIndex_max:
  assumes "raft_inv rf" "rf_state rf = Leader"
  shows "\<exists>M. updateCommiIndex rf = Inr (rf\<lparr>rf_commitIndex := M\<rparr>) \<and>
    (M = rf_commitIndex rf \<or> rf_commitIndex rf < M \<and> committable rf M) \<and>
    (\<forall>K > M. \<not> committable rf K)"
proof -
  have l: "length (rf_matchIndex rf) = rf_peers rf" "rf_lastIncludeIndex rf \<le> rf_commitIndex rf"
    using assms by (auto simp: raft_inv_def)
  from commit_loop_max [OF l(1) order_refl l(2)] obtain M where
    M: "updateCommiIndex rf = Inr (rf\<lparr>rf_commitIndex := M\<rparr>)"
      "M = rf_commitIndex rf \<or> rf_commitIndex rf < M \<and> committable rf M"
      "\<forall>K. M < K \<and> K \<le> lastLogIndex rf \<longrightarrow> \<not> committable rf K"
    unfolding updateCommiIndex_def by blast
  have "\<not> committable rf K" if "M < K" for K
    using M(3) that by (cases "K \<le> lastLogIndex rf") (auto simp: committable_def)
  with M show ?thesis by blast
qed

section \<open>The applier\<close>

definition command_msg :: "'p Raft \<Rightarrow> int \<Rightarrow> ApplyMsg" where
  "command_msg rf k =
     \<lparr>am_CommandValid = True, am_Command = e_Command (entry_at rf k), am_CommandIndex = k,
      am_SnapshotValid = False, am_Snapshot = [], am_SnapshotTerm = 0, am_SnapshotIndex = 0\<rparr>"

lemma command_msg_applied [simp]: "command_msg (rf\<lparr>rf_lastApplied := a\<rparr>) k = command_msg rf k"
  by (simp add: command_msg_def entry_at_def)

lemma apply_entries_run:
  assumes "rf_lastIncludeIndex rf \<le> rf_lastApplied rf"
  shows "apply_entries rf ms =
    (rf\<lparr>rf_lastApplied := max (rf_lastApplied rf) (min (rf_commitIndex rf) (lastLogIndex rf))\<rparr>,
     ms @ map (command_msg rf) [rf_lastApplied rf + 1..min (rf_commitIndex rf) (lastLogIndex rf)])"
  using assms
proof (induction "nat (min (rf_commitIndex rf) (lastLogIndex rf) - rf_lastApplied rf)" arbitrary: rf ms)
  case 0
  then have "rf_lastApplied rf \<ge> min (rf_commitIndex rf) (lastLogIndex rf)" by simp
  then have stop: "rf_lastApplied rf \<ge> rf_commitIndex rf \<or>
      rf_lastApplied rf + 1 - rf_lastIncludeIndex rf \<ge> int (length (rf_log rf))"
    and e: "max (rf_lastApplied rf) (min (rf_commitIndex rf) (lastLogIndex rf)) = rf_lastApplied rf"
    and u: "[rf_lastApplied rf + 1..min (rf_commitIndex rf) (lastLogIndex rf)] = []"
    by (auto simp: lastLogIndex_def)
  have "apply_entries rf ms = (rf, ms)"
    using stop 0(2) by (subst apply_entries.simps) (auto simp: Let_def)
  with e u show ?case by simp
next
  case (Suc m)
  let ?rf = "rf\<lparr>rf_lastApplied := rf_lastApplied rf + 1\<rparr>" and ?k = "rf_lastApplied rf + 1"
  let ?stop = "min (rf_commitIndex rf) (lastLogIndex rf)"
  have k: "?k \<le> ?stop" using Suc(2) by linarith
  have ll: "lastLogIndex ?rf = lastLogIndex rf" by (simp add: lastLogIndex_def)
  have "apply_entries rf ms = apply_entries ?rf (ms @ [command_msg rf ?k])"
    using k Suc.prems
    by (subst apply_entries.simps) (auto simp: Let_def lastLogIndex_def command_msg_def entry_at_def)
  also have "\<dots> = (?rf\<lparr>rf_lastApplied := max (rf_lastApplied ?rf) (min (rf_commitIndex ?rf) (lastLogIndex ?rf))\<rparr>,
      (ms @ [command_msg rf ?k]) @ map (command_msg ?rf) [rf_lastApplied ?rf + 1..min (rf_commitIndex ?rf) (lastLogIndex ?rf)])"
    by (rule Suc.hyps(1)) (use Suc(2) Suc.prems ll in auto)
  also have "\<dots> = (rf\<lparr>rf_lastApplied := max (rf_lastApplied rf) ?stop\<rparr>, ms @ map (command_msg rf) [?k..?stop])"
    using k by (simp add: ll upto_rec1 [OF k] max_def)
  finally show ?case .
qed

lemma applier_step_run:
  assumes "raft_inv rf"
  shows "applier_step rf =
    (rf\<lparr>rf_lastApplied := max (rf_lastApplied rf) (min (rf_commitIndex rf) (lastLogIndex rf))\<rparr>,
     map (command_msg rf) [rf_lastApplied rf + 1..min (rf_commitIndex rf) (lastLogIndex rf)])"
  using assms apply_entries_run [of rf "[]"] by (simp add: applier_step_def raft_inv_def)

section \<open>Accepted entries and snapshots\<close>

lemma accept_entries:
  assumes "raft_inv rf" "append_ok args" "ae_Entries args \<noteq> []"
    and "rf_lastIncludeIndex rf \<le> ae_PrevLogIndex args" "ae_PrevLogIndex args \<le> lastLogIndex rf"
  defines "rf' \<equiv> append_accept rf args"
  shows "lastLogIndex rf' = ae_PrevLogIndex args + int (length (ae_Entries args))"
    and "rf_lastIncludeIndex rf \<le> k \<Longrightarrow> k \<le> ae_PrevLogIndex args \<Longrightarrow> entry_at rf' k = entry_at rf k"
    and "i < length (ae_Entries args) \<Longrightarrow>
      entry_at rf' (ae_PrevLogIndex args + 1 + int i) = ae_Entries args ! i"
proof -
  let ?n = "nat (ae_PrevLogIndex args + 1 - rf_lastIncludeIndex rf)"
  have n: "?n \<le> length (rf_log rf)" "int ?n = ae_PrevLogIndex args + 1 - rf_lastIncludeIndex rf"
    using assms(4,5) by (auto simp: lastLogIndex_def)
  have log: "rf_log rf' = take ?n (rf_log rf) @ ae_Entries args"
    using assms(3) by (simp add: rf'_def accept_log)
  have inc: "rf_lastIncludeIndex rf' = rf_lastIncludeIndex rf" by (simp add: rf'_def)
  show "lastLogIndex rf' = ae_PrevLogIndex args + int (length (ae_Entries args))"
    using n by (simp add: lastLogIndex_def log inc)
  show "entry_at rf' k = entry_at rf k" if "rf_lastIncludeIndex rf \<le> k" "k \<le> ae_PrevLogIndex args"
  proof -
    have "nat (k - rf_lastIncludeIndex rf) < ?n" using that by simp
    then show ?thesis using n(1) by (simp add: entry_at_def log inc nth_append)
  qed
  show "entry_at rf' (ae_PrevLogIndex args + 1 + int i) = ae_Entries args ! i"
    if "i < length (ae_Entries args)"
  proof -
    have "nat (ae_PrevLogIndex args + 1 + int i - rf_lastIncludeIndex rf) = ?n + i" using n(2) by linarith
    then show ?thesis using n(1) by (simp add: entry_at_def log inc nth_append)
  qed
qed

lemma take_snapshot_entries:
  fixes t :: int and d :: bytes
  assumes "raft_inv rf" "rf_lastIncludeIndex rf < x"
  defines "rf' \<equiv> take_snapshot rf x t d"
  shows "lastLogIndex rf' = max x (lastLogIndex rf)"
    and "x < k \<Longrightarrow> k \<le> lastLogIndex rf \<Longrightarrow> entry_at rf' k = entry_at rf k"
    and "e_Term (entry_at rf' x) = t"
proof -
  have ix: "indexed_from (rf_lastIncludeIndex rf) (rf_log rf)" using assms(1) by (simp add: raft_inv_def)
  have log: "rf_log rf' = \<lparr>e_Term = t, e_Command = [], e_Index = x\<rparr> #
      drop (nat (x + 1 - rf_lastIncludeIndex rf)) (rf_log rf)" and inc: "rf_lastIncludeIndex rf' = x"
    by (simp_all add: rf'_def take_snapshot_def trim_log_def filter_above [OF ix])
  show "lastLogIndex rf' = max x (lastLogIndex rf)"
    using assms(2) by (simp add: lastLogIndex_def log inc)
  show "e_Term (entry_at rf' x) = t" by (simp add: entry_at_def log inc)
  show "entry_at rf' k = entry_at rf k" if "x < k" "k \<le> lastLogIndex rf"
  proof -
    have a: "nat (k - x) = Suc (nat (k - x - 1))" using that by linarith
    have b: "nat (x + 1 - rf_lastIncludeIndex rf) + nat (k - x - 1) = nat (k - rf_lastIncludeIndex rf)"
      using that assms(2) by linarith
    have "nat (x + 1 - rf_lastIncludeIndex rf) \<le> length (rf_log rf)"
      using that assms(2) by (simp add: lastLogIndex_def)
    then show ?thesis by (simp add: entry_at_def log inc a b)
  qed
qed

section \<open>No panic\<close>

lemma RequestVote_ok: "raft_inv rf \<Longrightarrow> \<exists>x. RequestVote io rf args = Inr x"
  by (auto simp: RequestVote_def Let_def raft_inv_def)

lemma startElection_ok: "raft_inv rf \<Longrightarrow> \<exists>x. startElection io rf = Inr x"
  by (auto simp: startElection_def Let_def raft_inv_def)

lemma replicate_prepare_ok:
  assumes "raft_inv rf" "j < rf_peers rf"
  shows "\<exists>x. replicate_prepare rf j = Inr x"
proof (cases "rf_state rf = Leader")
  case True
  from updateCommiIndex_max [OF assms(1) True] obtain M where
    "updateCommiIndex rf = Inr (rf\<lparr>rf_commitIndex := M\<rparr>)" by blast
  with True assms show ?thesis by (auto simp: replicate_prepare_def raft_inv_def Let_def)
qed (simp add: replicate_prepare_def)

lemma replies_ok:
  assumes "raft_inv rf" "j < rf_peers rf"
  shows "\<exists>x. replicate_append_reply io rf j a call = Inr x"
    "\<exists>x. replicate_snapshot_reply io rf j t scall = Inr x"
  using assms
  by (auto simp: replicate_append_reply_def replicate_snapshot_reply_def raft_inv_def Let_def
      split: option.splits)

lemma raise_progress_ok:
  "length (rf_nextIndex rf) = n \<Longrightarrow> length (rf_matchIndex rf) = n \<Longrightarrow> \<forall>i \<in> set is. i < n \<Longrightarrow>
     \<exists>x. raise_progress rf is = Inr x"
  by (induction rf "is" rule: raise_progress.induct) (auto simp: Let_def)

lemma Snapshot_ok:
  assumes "raft_inv rf" "x \<le> lastLogIndex rf"
  shows "\<exists>rf'. Snapshot io rf x d = Inr rf'"
proof -
  let ?t = "e_Term (rf_log rf ! nat (x - rf_lastIncludeIndex rf))"
  let ?rf1 = "take_snapshot rf x ?t d"
  have "\<exists>y. raise_progress ?rf1 [0..<rf_peers ?rf1] = Inr y" if "rf_state ?rf1 = Leader"
    by (rule raise_progress_ok [of _ "rf_peers rf"])
      (use that assms(1) in \<open>auto simp: take_snapshot_def raft_inv_def\<close>)
  then show ?thesis using assms(2) by (auto simp: Snapshot_def Let_def lastLogIndex_def)
qed

lemma Snapshot_fields:
  assumes "Snapshot io rf x d = Inr rf'" "rf_lastIncludeIndex rf < x"
  shows "rf_log rf' = rf_log (take_snapshot rf x (e_Term (entry_at rf x)) d)"
    "rf_lastIncludeIndex rf' = x" "rf_snapshot rf' = d" "rf_lastIncludeTerm rf' = e_Term (entry_at rf x)"
proof -
  let ?rf1 = "take_snapshot rf x (e_Term (entry_at rf x)) d"
  obtain rf2 where rf2: "rf2 = ?rf1 \<or> raise_progress ?rf1 [0..<rf_peers ?rf1] = Inr rf2"
    "rf' = persist io rf2"
    using assms by (auto simp: Snapshot_def Let_def entry_at_def split: if_splits sum.splits)
  from rf2(1) have "rf_log rf2 = rf_log ?rf1 \<and> rf_lastIncludeIndex rf2 = x \<and> rf_snapshot rf2 = d \<and>
      rf_lastIncludeTerm rf2 = e_Term (entry_at rf x)"
    by (auto simp: take_snapshot_def dest!: raise_progress_only)
  with rf2(2) show "rf_log rf' = rf_log ?rf1" "rf_lastIncludeIndex rf' = x" "rf_snapshot rf' = d"
    "rf_lastIncludeTerm rf' = e_Term (entry_at rf x)" by simp_all
qed

lemma Snapshot_lastLogIndex:
  assumes "raft_inv rf" "Snapshot io rf x d = Inr rf'"
  shows "lastLogIndex rf' = lastLogIndex rf"
proof (cases "rf_lastIncludeIndex rf < x")
  case True
  let ?rf1 = "take_snapshot rf x (e_Term (entry_at rf x)) d"
  have "x \<le> lastLogIndex rf"
    using assms(2) True by (auto simp: Snapshot_def Let_def lastLogIndex_def split: if_splits)
  moreover have "lastLogIndex rf' = lastLogIndex ?rf1"
    using Snapshot_fields [OF assms(2) True] by (simp add: lastLogIndex_def take_snapshot_def)
  ultimately show ?thesis using take_snapshot_entries(1) [OF assms(1) True] by simp
next
  case False
  with assms(2) show ?thesis by (simp add: Snapshot_def)
qed

end
