(* ===== verification/RaftDurable.thy ===== *)
theory RaftDurable
  imports RaftInv
begin

text \<open>
  Terms, votes and durability. The first part states what an operation may do to the term,
  the vote and the role of a node; the second is the contract of a persister together with
  the codec a node uses, under which every operation leaves its hard state on disk, so that
  a restart with \<^const>\<open>Make\<close> finds the same term, vote, log and snapshot.
\<close>

section \<open>Terms, votes and roles\<close>

text \<open>
  An operation that is not part of an election: the term does not go back, the vote of the
  current term stays, and nobody becomes candidate or leader.
\<close>

definition vote_kept :: "'p Raft \<Rightarrow> 'p Raft \<Rightarrow> bool" where
  "vote_kept rf rf' \<longleftrightarrow>
     rf_me rf' = rf_me rf \<and> rf_peers rf' = rf_peers rf \<and>
     (rf_currentTerm rf < rf_currentTerm rf' \<or>
      rf_currentTerm rf = rf_currentTerm rf' \<and> rf_votedFor rf' = rf_votedFor rf) \<and>
     (rf_state rf' \<noteq> Follower \<longrightarrow> rf_state rf' = rf_state rf \<and> rf_currentTerm rf' = rf_currentTerm rf)"

lemma vote_kept_refl [simp]: "vote_kept rf rf"
  by (simp add: vote_kept_def)

lemma vote_kept_trans: "vote_kept a b \<Longrightarrow> vote_kept b c \<Longrightarrow> vote_kept a c"
  unfolding vote_kept_def by (intro conjI) (simp, simp, linarith, metis)

lemma vote_kept_helpers [simp]:
  "vote_kept rf (persist io rf') = vote_kept rf rf'"
  "vote_kept rf (send_role b t rf') = vote_kept rf rf'"
  "vote_kept rf (resetElectionTimer rf') = vote_kept rf rf'"
  by (simp_all add: vote_kept_def)

lemma adopt_vote: "rf_currentTerm rf \<le> ae_Term args \<Longrightarrow> vote_kept rf (append_adopt_term io rf args)"
  by (auto simp: append_adopt_term_def vote_kept_def)

lemma AppendEntries_vote: "vote_kept rf (fst (AppendEntries io rf args))"
proof (cases rule: AppendEntries_cases [of args rf io])
  case refused
  then show ?thesis by (simp add: adopt_vote)
next
  case accepted
  with adopt_vote [of rf args io] show ?thesis by (simp add: vote_kept_def)
qed simp

lemma commit_vote: "updateCommiIndex rf = Inr rf' \<Longrightarrow> vote_kept rf rf'"
  unfolding updateCommiIndex_def
  by (drule commit_loop_frame) (auto simp: vote_kept_def)

lemma Start_vote: "vote_kept rf (fst (Start io rf c))"
  by (simp add: Start_def Let_def vote_kept_def)

lemma logUpdate_vote:
  "vote_kept rf (fst (logUpdate_check rf))"
  "logUpdate_single rf = Inr rf' \<Longrightarrow> vote_kept rf rf'"
  "logUpdate_self rf i = Inr rf' \<Longrightarrow> vote_kept rf rf'"
proof -
  show "vote_kept rf (fst (logUpdate_check rf))" by (simp add: logUpdate_check_def Let_def)
  show "logUpdate_single rf = Inr rf' \<Longrightarrow> vote_kept rf rf'"
    by (auto simp: logUpdate_single_def split: if_splits intro: commit_vote)
  show "logUpdate_self rf i = Inr rf' \<Longrightarrow> vote_kept rf rf'"
    by (auto simp: logUpdate_self_def Let_def vote_kept_def split: if_splits)
qed

lemma replicate_prepare_vote:
  assumes "replicate_prepare rf j = Inr (rf', q)"
  shows "vote_kept rf rf'"
proof (cases "rf_state rf = Leader")
  case True
  with assms obtain rf1 where "updateCommiIndex rf = Inr rf1"
      "rf' = rf1 \<or> rf' = rf1\<lparr>rf_nextIndex := (rf_nextIndex rf1)[j := rf_lastIncludeIndex rf1 + 1]\<rparr>"
    by (auto simp: replicate_prepare_def Let_def split: if_splits sum.splits)
  with commit_vote [of rf rf1] show ?thesis by (auto simp: vote_kept_def)
qed (use assms in \<open>auto simp: replicate_prepare_def\<close>)

lemma reply_vote:
  "replicate_snapshot_reply io rf j t c = Inr rf' \<Longrightarrow> vote_kept rf rf'"
  "replicate_append_reply io rf j args call = Inr rf' \<Longrightarrow> vote_kept rf rf'"
  by (auto simp: replicate_snapshot_reply_def replicate_append_reply_def Let_def vote_kept_def
      split: if_splits option.splits)

lemma take_snapshot_vote: "vote_kept rf (take_snapshot rf i t d)"
  by (simp add: take_snapshot_def vote_kept_def)

lemma raise_progress_vote: "raise_progress rf is = Inr rf' \<Longrightarrow> vote_kept rf rf'"
  by (auto simp: vote_kept_def dest!: raise_progress_only)

lemma Snapshot_vote: "Snapshot io rf i d = Inr rf' \<Longrightarrow> vote_kept rf rf'"
  by (auto simp: Snapshot_def Let_def split: if_splits sum.splits
      intro: vote_kept_trans [OF take_snapshot_vote raise_progress_vote] take_snapshot_vote)

lemma InstallSnapshot_vote: "vote_kept rf (fst (InstallSnapshot io rf args))"
  by (simp add: InstallSnapshot_def Let_def take_snapshot_def vote_kept_def)

lemma applier_step_vote: "applier_step rf = (rf', ms) \<Longrightarrow> vote_kept rf rf'"
  by (auto simp: applier_step_def vote_kept_def split: if_splits dest!: apply_entries_frame)

lemma read_vote:
  "vote_kept rf (fst (ReadIndex_begin rf))" "vote_kept rf (fst (ReadIndex_confirmed rf q))"
  "vote_kept rf (fst (ReadIndex_timeout rf))" "vote_kept rf (fst (ticker_step rf))"
  "vote_kept rf (Kill rf)"
  by (auto simp: ReadIndex_begin_def ReadIndex_confirmed_def ReadIndex_timeout_def ticker_step_def
      Kill_def vote_kept_def Let_def split: prod.splits State.splits option.splits)

text \<open>The election handlers themselves.\<close>

lemma startElection_spec:
  "startElection io rf = Inr (rf', args) \<Longrightarrow>
     rf_me rf' = rf_me rf \<and> rf_peers rf' = rf_peers rf \<and> rf_state rf' = Candidate \<and>
     rf_currentTerm rf' = rf_currentTerm rf + 1 \<and> rf_votedFor rf' = rf_me rf \<and>
     rv_Term args = rf_currentTerm rf + 1 \<and> rv_CandidateId args = rf_me rf"
  by (auto simp: startElection_def Let_def split: if_splits)

text \<open>
  A vote is granted only at the term of the request, to a candidate the node had not voted
  against in that term, and never at an older term.
\<close>

lemma RequestVote_granted:
  assumes "RequestVote io rf args = Inr (rf', r)" "rvr_VoteGranted r"
  shows "rvr_Term r = rv_Term args" "rf_currentTerm rf' = rv_Term args"
    "rf_votedFor rf' = rv_CandidateId args" "rf_currentTerm rf \<le> rv_Term args"
    "rf_currentTerm rf = rv_Term args \<Longrightarrow> rf_votedFor rf = -1 \<or> rf_votedFor rf = rv_CandidateId args"
  using assms by (auto simp: RequestVote_def Let_def split: if_splits)

lemma RequestVote_state:
  assumes "RequestVote io rf args = Inr (rf', r)"
  shows "rf_me rf' = rf_me rf \<and> rf_peers rf' = rf_peers rf \<and> rf_currentTerm rf \<le> rf_currentTerm rf' \<and>
    (rf_currentTerm rf' = rf_currentTerm rf \<longrightarrow>
       rf_votedFor rf' = rf_votedFor rf \<or> rf_votedFor rf = -1) \<and>
    (rf_state rf' \<noteq> Follower \<longrightarrow> rf_state rf' = rf_state rf \<and> rf_currentTerm rf' = rf_currentTerm rf)"
  using assms by (auto simp: RequestVote_def Let_def split: if_splits)

lemma handleVoteReply_cases:
  assumes "handleVoteReply io rf args votes (Some r) = (rf', votes')"
  obtains (ignored) "vote_kept rf rf'" "votes' = votes"
  | (counted) "rf_state rf = Candidate" "rf_currentTerm rf = rv_Term args" "rvr_VoteGranted r"
      "rvr_Term r = rv_Term args" "votes' = votes + 1" "rf' = rf"
  | (won) "rf_state rf = Candidate" "rf_currentTerm rf = rv_Term args" "rvr_VoteGranted r"
      "rvr_Term r = rv_Term args" "votes' = votes + 1" "votes' > int (rf_peers rf) div 2"
      "rf_state rf' = Leader" "rf_me rf' = rf_me rf" "rf_peers rf' = rf_peers rf"
      "rf_currentTerm rf' = rf_currentTerm rf" "rf_votedFor rf' = rf_votedFor rf"
proof -
  consider (old) "rf_state rf \<noteq> Candidate \<or> rf_currentTerm rf \<noteq> rv_Term args \<or> rvr_Term r > rv_Term args \<or>
      \<not> (rvr_VoteGranted r \<and> rvr_Term r = rv_Term args)"
    | (vote) "rf_state rf = Candidate" "rf_currentTerm rf = rv_Term args" "rvr_VoteGranted r"
      "rvr_Term r = rv_Term args"
    by blast
  then show ?thesis
  proof cases
    case old
    then have "vote_kept rf rf' \<and> votes' = votes"
      using assms by (auto simp: handleVoteReply_def vote_kept_def split: if_splits)
    then show ?thesis using ignored by blast
  next
    case vote
    show ?thesis
    proof (cases "votes + 1 > int (rf_peers rf) div 2")
      case True
      then show ?thesis
        using vote assms by (intro won) (auto simp: handleVoteReply_def Let_def initLeaderProgressLocked_def)
    next
      case False
      then show ?thesis
        using vote assms by (intro counted) (auto simp: handleVoteReply_def Let_def)
    qed
  qed
qed

section \<open>Durability\<close>

text \<open>What a restart must find again, and what the persister holds.\<close>

definition same_hard :: "'p Raft \<Rightarrow> 'p Raft \<Rightarrow> bool" where
  "same_hard rf rf' \<longleftrightarrow>
     rf_currentTerm rf' = rf_currentTerm rf \<and> rf_votedFor rf' = rf_votedFor rf \<and>
     rf_log rf' = rf_log rf \<and> rf_lastIncludeIndex rf' = rf_lastIncludeIndex rf \<and>
     rf_lastIncludeTerm rf' = rf_lastIncludeTerm rf \<and> rf_snapshot rf' = rf_snapshot rf"

lemma same_hard_refl [simp]: "same_hard rf rf"
  by (simp add: same_hard_def)

lemma same_hard_message: "same_hard rf rf' \<Longrightarrow> raft_message rf' = raft_message rf"
  by (simp add: same_hard_def raft_message_def)

text \<open>
  Nothing was saved yet and the node is as it starts, or the last save is the node's state.
\<close>

definition durable :: "'p RaftIO \<Rightarrow> ('p \<Rightarrow> bool) \<Rightarrow> 'p Raft \<Rightarrow> bool" where
  "durable io pinv rf \<longleftrightarrow>
     pinv (rf_persister rf) \<and>
     (io_ReadRaftState io (rf_persister rf) = [] \<and> rf_currentTerm rf = 0 \<and> rf_votedFor rf = -1 \<and>
      rf_log rf = [\<lparr>e_Term = 0, e_Command = [], e_Index = 0\<rparr>] \<and> rf_lastIncludeIndex rf = 0 \<and>
      rf_lastIncludeTerm rf = 0 \<and> rf_snapshot rf = [] \<or>
      io_ReadRaftState io (rf_persister rf) \<noteq> [] \<and>
      io_Unmarshal io (io_ReadRaftState io (rf_persister rf)) = Inr (raft_message rf) \<and>
      io_ReadSnapshot io (rf_persister rf) = rf_snapshot rf)"

lemma durable_cong:
  assumes "same_hard rf rf'" "rf_persister rf' = rf_persister rf"
  shows "durable io pinv rf \<Longrightarrow> durable io pinv rf'"
  using assms same_hard_message [OF assms(1)] by (auto simp: durable_def same_hard_def)

lemma raft_message_persister [simp]: "raft_message (rf\<lparr>rf_persister := p\<rparr>) = raft_message rf"
  by (simp add: raft_message_def)

locale raft_store =
  fixes io :: "'p RaftIO" and pinv :: "'p \<Rightarrow> bool"
  assumes Save [simp]: "pinv p \<Longrightarrow> pinv (io_Save io p d s) \<and>
      io_ReadRaftState io (io_Save io p d s) = d \<and> io_ReadSnapshot io (io_Save io p d s) = s"
    and codec: "\<exists>d. io_Marshal io (raft_message rf) = Inr d \<and> d \<noteq> [] \<and>
      io_Unmarshal io d = Inr (raft_message (rf :: 'p Raft))"
begin

lemma persist_durable [intro]: "pinv (rf_persister rf) \<Longrightarrow> durable io pinv (persist io rf)"
proof -
  assume p: "pinv (rf_persister rf)"
  obtain d where d: "io_Marshal io (raft_message rf) = Inr d" "d \<noteq> []"
    "io_Unmarshal io d = Inr (raft_message rf)"
    using codec by blast
  then have "persist io rf = rf\<lparr>rf_persister := io_Save io (rf_persister rf) d (rf_snapshot rf)\<rparr>"
    by (simp add: persist_def)
  with d p show ?thesis by (simp add: durable_def)
qed

lemma persist_pinv [simp]: "pinv (rf_persister rf) \<Longrightarrow> pinv (rf_persister (persist io rf))"
  using persist_durable by (simp add: durable_def)

lemma durable_pinv [simp]: "durable io pinv rf \<Longrightarrow> pinv (rf_persister rf)"
  by (simp add: durable_def)

text \<open>Restarting a durable node.\<close>

lemma Make_durable:
  assumes "durable io pinv rf" "rf_log rf \<noteq> []"
  shows "\<exists>rf'. Make io n me (rf_persister rf) = Inr rf' \<and> same_hard rf rf' \<and>
    rf_persister rf' = rf_persister rf \<and> rf_me rf' = me \<and> rf_peers rf' = n \<and>
    (1 < n \<longrightarrow> rf_state rf' = Follower) \<and> rf_pendingReadCh rf' = None \<and>
    rf_commitIndex rf' = rf_lastIncludeIndex rf \<and> rf_lastApplied rf' = rf_lastIncludeIndex rf \<and>
    (rf_state rf' = Leader \<longrightarrow> length (rf_nextIndex rf') = n \<and> length (rf_matchIndex rf') = n)"
proof (cases "io_ReadRaftState io (rf_persister rf) = []")
  case True
  with assms show ?thesis
    by (auto simp: Make_def readPersist_def durable_def same_hard_def Let_def
        initLeaderProgressLocked_def)
next
  case False
  with assms show ?thesis
    by (simp add: Make_def readPersist_def durable_def same_hard_def raft_message_def Let_def
        initLeaderProgressLocked_def)
qed

section \<open>Every operation leaves its hard state on disk\<close>

text \<open>Operations on volatile fields only.\<close>

lemma volatile_durable:
  assumes "durable io pinv rf"
  shows "durable io pinv (send_role b t rf)" "durable io pinv (resetElectionTimer rf)"
    "durable io pinv (rf\<lparr>rf_state := st\<rparr>)" "durable io pinv (rf\<lparr>rf_commitIndex := ci\<rparr>)"
    "durable io pinv (rf\<lparr>rf_lastApplied := ap\<rparr>)" "durable io pinv (rf\<lparr>rf_nextIndex := ns\<rparr>)"
    "durable io pinv (rf\<lparr>rf_matchIndex := ms\<rparr>)" "durable io pinv (rf\<lparr>rf_loops := l\<rparr>)"
    "durable io pinv (rf\<lparr>rf_pendingReadCh := pc\<rparr>)" "durable io pinv (rf\<lparr>rf_pendingReadCount := n\<rparr>)"
    "durable io pinv (rf\<lparr>rf_readTriggerCh := k\<rparr>)" "durable io pinv (rf\<lparr>rf_dead := x\<rparr>)"
    "durable io pinv (rf\<lparr>rf_roleCh := rc\<rparr>)" "durable io pinv (rf\<lparr>rf_electionTimer := tm\<rparr>)"
    "durable io pinv (initLeaderProgressLocked rf)"
  by (rule durable_cong [OF _ _ assms]; simp add: same_hard_def initLeaderProgressLocked_def)+

lemma RequestVote_durable:
  assumes "durable io pinv rf" "RequestVote io rf args = Inr (rf', r)"
  shows "durable io pinv rf'"
proof -
  let ?rf1 = "if rv_Term args > rf_currentTerm rf then
     resetElectionTimer (persist io ((send_role False (rf_currentTerm rf) (rf\<lparr>rf_state := Follower\<rparr>))
        \<lparr>rf_currentTerm := rv_Term args, rf_votedFor := -1\<rparr>)) else rf"
  have 1: "durable io pinv ?rf1"
    using assms(1) durable_pinv [OF assms(1)] by (auto intro!: volatile_durable persist_durable)
  then have "durable io pinv (persist io (?rf1\<lparr>rf_votedFor := rv_CandidateId args\<rparr>))"
    by (intro persist_durable) (use durable_pinv in simp)
  then show ?thesis
    using 1 assms by (auto simp: RequestVote_def Let_def intro: volatile_durable split: if_splits)
qed

lemma startElection_durable:
  "durable io pinv rf \<Longrightarrow> startElection io rf = Inr (rf', args) \<Longrightarrow> durable io pinv rf'"
  by (auto simp: startElection_def Let_def split: if_splits
      intro!: volatile_durable persist_durable)

lemma startElection_single_durable:
  "durable io pinv rf \<Longrightarrow> durable io pinv (startElection_single rf)"
  by (auto simp: startElection_single_def intro!: volatile_durable)

lemma handleVoteReply_durable:
  "durable io pinv rf \<Longrightarrow> handleVoteReply io rf args votes call = (rf', votes') \<Longrightarrow> durable io pinv rf'"
  by (auto simp: handleVoteReply_def Let_def split: if_splits option.splits
      intro!: volatile_durable persist_durable)

lemma adopt_durable: "durable io pinv rf \<Longrightarrow> durable io pinv (append_adopt_term io rf args)"
  by (auto simp: append_adopt_term_def intro!: volatile_durable persist_durable)

lemma AppendEntries_durable:
  assumes "durable io pinv rf"
  shows "durable io pinv (fst (AppendEntries io rf args))"
proof (cases rule: AppendEntries_cases [of args rf io])
  case accepted
  then show ?thesis using durable_pinv [OF adopt_durable [OF assms, of args]] by auto
qed (simp_all add: assms adopt_durable)

lemma commit_durable:
  "durable io pinv rf \<Longrightarrow> updateCommiIndex rf = Inr rf' \<Longrightarrow> durable io pinv rf'"
  unfolding updateCommiIndex_def by (drule commit_loop_frame) (auto intro: volatile_durable)

lemma Start_durable: "durable io pinv rf \<Longrightarrow> durable io pinv (fst (Start io rf c))"
  by (auto simp: Start_def Let_def intro!: persist_durable)

lemma logUpdate_durable:
  "durable io pinv rf \<Longrightarrow> durable io pinv (fst (logUpdate_check rf))"
  "durable io pinv rf \<Longrightarrow> logUpdate_single rf = Inr rf' \<Longrightarrow> durable io pinv rf'"
  "durable io pinv rf \<Longrightarrow> logUpdate_self rf i = Inr rf' \<Longrightarrow> durable io pinv rf'"
  by (auto simp: logUpdate_check_def logUpdate_single_def logUpdate_self_def Let_def
      split: if_splits intro: commit_durable intro!: volatile_durable)

lemma replicate_prepare_durable:
  assumes "durable io pinv rf" "replicate_prepare rf j = Inr (rf', q)"
  shows "durable io pinv rf'"
proof (cases "rf_state rf = Leader")
  case True
  with assms(2) obtain rf1 where "updateCommiIndex rf = Inr rf1"
      "rf' = rf1 \<or> rf' = rf1\<lparr>rf_nextIndex := (rf_nextIndex rf1)[j := rf_lastIncludeIndex rf1 + 1]\<rparr>"
    by (auto simp: replicate_prepare_def Let_def split: if_splits sum.splits)
  with commit_durable [OF assms(1)] show ?thesis by (auto intro: volatile_durable)
qed (use assms in \<open>auto simp: replicate_prepare_def intro: volatile_durable\<close>)

lemma replicate_snapshot_reply_durable:
  "durable io pinv rf \<Longrightarrow> replicate_snapshot_reply io rf j t call = Inr rf' \<Longrightarrow> durable io pinv rf'"
  by (auto simp: replicate_snapshot_reply_def Let_def split: if_splits option.splits
      intro!: volatile_durable persist_durable)

lemma read_quorum_durable: "durable io pinv rf \<Longrightarrow> durable io pinv (read_quorum rf)"
  by (rule durable_cong [of rf]) (simp_all add: same_hard_def)

lemma replicate_append_reply_durable:
  "durable io pinv rf \<Longrightarrow> replicate_append_reply io rf j args call = Inr rf' \<Longrightarrow> durable io pinv rf'"
  by (auto simp: replicate_append_reply_def Let_def split: if_splits option.splits
      intro!: volatile_durable persist_durable read_quorum_durable)

lemma Snapshot_durable:
  assumes "durable io pinv rf" "Snapshot io rf i d = Inr rf'"
  shows "durable io pinv rf'"
proof (cases "i \<le> rf_lastIncludeIndex rf")
  case False
  let ?rf1 = "take_snapshot rf i (e_Term (rf_log rf ! nat (i - rf_lastIncludeIndex rf))) d"
  from False assms(2) obtain rf2 where "rf2 = ?rf1 \<or> raise_progress ?rf1 [0..<rf_peers ?rf1] = Inr rf2"
    "rf' = persist io rf2"
    by (auto simp: Snapshot_def Let_def split: if_splits sum.splits)
  moreover from this(1) have "rf_persister rf2 = rf_persister rf"
    by (auto simp: take_snapshot_def dest!: raise_progress_only)
  ultimately show ?thesis using durable_pinv [OF assms(1)] by auto
qed (use assms in \<open>simp add: Snapshot_def\<close>)

lemma InstallSnapshot_durable:
  assumes "durable io pinv rf"
  shows "durable io pinv (fst (InstallSnapshot io rf args))"
proof -
  let ?rf1 = "if is_Term args > rf_currentTerm rf then
      persist io ((send_role False (is_Term args)
        (rf\<lparr>rf_currentTerm := is_Term args, rf_state := Follower\<rparr>))\<lparr>rf_votedFor := -1\<rparr>) else rf"
  have "durable io pinv ?rf1" using assms by (auto intro!: persist_durable)
  then have 1: "durable io pinv (resetElectionTimer (?rf1\<lparr>rf_state := Follower\<rparr>))"
    by (intro volatile_durable)
  then have "durable io pinv (persist io (take_snapshot (resetElectionTimer (?rf1\<lparr>rf_state := Follower\<rparr>)) i t d))"
    for i t d by (intro persist_durable) (use assms in \<open>simp add: take_snapshot_def\<close>)
  with 1 assms show ?thesis by (simp add: InstallSnapshot_def Let_def)
qed

lemma applier_step_durable:
  "durable io pinv rf \<Longrightarrow> applier_step rf = (rf', ms) \<Longrightarrow> durable io pinv rf'"
  by (auto simp: applier_step_def split: if_splits dest!: apply_entries_frame intro: volatile_durable)

lemma read_durable:
  assumes "durable io pinv rf"
  shows "durable io pinv (fst (ReadIndex_begin rf))" "durable io pinv (fst (ReadIndex_confirmed rf q))"
    "durable io pinv (fst (ReadIndex_timeout rf))" "durable io pinv (fst (ticker_step rf))"
    "durable io pinv (Kill rf)"
  using assms
  by (auto simp: ReadIndex_begin_def ReadIndex_confirmed_def ReadIndex_timeout_def ticker_step_def
      Kill_def Let_def split: prod.splits State.splits option.splits intro!: volatile_durable)

end

end
