(* ===== verification/RaftWire.thy ===== *)
theory RaftWire
  imports RaftDurable
begin

text \<open>
  A concrete, executable wire codec for the raft state, standing in for protobuf, and the
  two persisters of the repository combined with it: both satisfy the contract a node
  relies on. Numbers are written in unary with a sign byte, byte strings and lists with
  their length in front.
\<close>

section \<open>Encoders and decoders\<close>

definition enc_nat :: "nat \<Rightarrow> bytes" where
  "enc_nat n = replicate n 1 @ [0]"

fun dec_nat :: "bytes \<Rightarrow> (nat \<times> bytes) option" where
  "dec_nat [] = None"
| "dec_nat (b # bs) =
     (if b = 0 then Some (0, bs)
      else case dec_nat bs of None \<Rightarrow> None | Some (n, r) \<Rightarrow> Some (Suc n, r))"

lemma dec_enc_nat [simp]: "dec_nat (enc_nat n @ r) = Some (n, r)"
  unfolding enc_nat_def by (induction n) simp_all

definition enc_int :: "int \<Rightarrow> bytes" where
  "enc_int i = (if i < 0 then 1 else 0) # enc_nat (nat \<bar>i\<bar>)"

fun dec_int :: "bytes \<Rightarrow> (int \<times> bytes) option" where
  "dec_int [] = None"
| "dec_int (b # bs) =
     (case dec_nat bs of
        None \<Rightarrow> None
      | Some (n, r) \<Rightarrow> Some (if b = 1 then - int n else int n, r))"

lemma dec_enc_int [simp]: "dec_int (enc_int i @ r) = Some (i, r)"
  by (simp add: enc_int_def)

definition enc_bytes :: "bytes \<Rightarrow> bytes" where
  "enc_bytes b = enc_nat (length b) @ b"

definition dec_bytes :: "bytes \<Rightarrow> (bytes \<times> bytes) option" where
  "dec_bytes bs =
     (case dec_nat bs of
        None \<Rightarrow> None
      | Some (n, r) \<Rightarrow> if n \<le> length r then Some (take n r, drop n r) else None)"

lemma dec_enc_bytes [simp]: "dec_bytes (enc_bytes b @ r) = Some (b, r)"
  by (simp add: enc_bytes_def dec_bytes_def)

fun dec_many :: "(bytes \<Rightarrow> ('a \<times> bytes) option) \<Rightarrow> nat \<Rightarrow> bytes \<Rightarrow> ('a list \<times> bytes) option" where
  "dec_many d 0 bs = Some ([], bs)"
| "dec_many d (Suc n) bs =
     (case d bs of
        None \<Rightarrow> None
      | Some (x, r) \<Rightarrow> (case dec_many d n r of None \<Rightarrow> None | Some (xs, r') \<Rightarrow> Some (x # xs, r')))"

definition enc_list :: "('a \<Rightarrow> bytes) \<Rightarrow> 'a list \<Rightarrow> bytes" where
  "enc_list e xs = enc_nat (length xs) @ concat (map e xs)"

definition dec_list :: "(bytes \<Rightarrow> ('a \<times> bytes) option) \<Rightarrow> bytes \<Rightarrow> ('a list \<times> bytes) option" where
  "dec_list d bs = (case dec_nat bs of None \<Rightarrow> None | Some (n, r) \<Rightarrow> dec_many d n r)"

lemma dec_enc_list:
  assumes "\<And>x r. x \<in> set xs \<Longrightarrow> d (e x @ r) = Some (x, r)"
  shows "dec_list d (enc_list e xs @ r) = Some (xs, r)"
proof -
  have "dec_many d (length ys) (concat (map e ys) @ r) = Some (ys, r)" if "set ys \<subseteq> set xs" for ys
    using that by (induction ys) (simp_all add: assms)
  then show ?thesis by (simp add: enc_list_def dec_list_def)
qed

section \<open>The raft state\<close>

definition enc_entry :: "pb_LogEntry option \<Rightarrow> bytes" where
  "enc_entry e =
     (case e of None \<Rightarrow> []
      | Some l \<Rightarrow> enc_int (pe_Term l) @ enc_int (pe_Index l) @ enc_bytes (pe_Command l))"

definition dec_entry :: "bytes \<Rightarrow> (pb_LogEntry option \<times> bytes) option" where
  "dec_entry bs =
     (case dec_int bs of None \<Rightarrow> None | Some (t, r1) \<Rightarrow>
      (case dec_int r1 of None \<Rightarrow> None | Some (i, r2) \<Rightarrow>
       (case dec_bytes r2 of None \<Rightarrow> None | Some (c, r3) \<Rightarrow>
          Some (Some \<lparr>pe_Term = t, pe_Index = i, pe_Command = c\<rparr>, r3))))"

definition wire_marshal :: "pb_RaftState \<Rightarrow> go_error + bytes" where
  "wire_marshal m =
     (case prs_Snapshot m of None \<Rightarrow> Inl (ErrorString []) | Some sn \<Rightarrow>
      (case prs_Hardstate m of None \<Rightarrow> Inl (ErrorString []) | Some hs \<Rightarrow>
         Inr (enc_int (ps_LastIncludeIndex sn) @ enc_int (ps_LastIncludeTerm sn) @
              enc_int (ph_Term hs) @ enc_int (ph_VotedFor hs) @ enc_list enc_entry (prs_Log m))))"

definition wire_unmarshal :: "bytes \<Rightarrow> go_error + pb_RaftState" where
  "wire_unmarshal bs =
     (case dec_list dec_int (enc_nat 4 @ bs) of
        Some ([li, lt, t, v], r) \<Rightarrow>
          (case dec_list dec_entry r of
             Some (log, _) \<Rightarrow>
               Inr \<lparr>prs_Snapshot = Some \<lparr>ps_LastIncludeIndex = li, ps_LastIncludeTerm = lt\<rparr>,
                    prs_Log = log, prs_Hardstate = Some \<lparr>ph_Term = t, ph_VotedFor = v\<rparr>\<rparr>
           | None \<Rightarrow> Inl (ErrorString []))
      | _ \<Rightarrow> Inl (ErrorString []))"

lemma dec_enc_entry [simp]: "dec_entry (enc_entry (Some l) @ r) = Some (Some l, r)"
  by (simp add: enc_entry_def dec_entry_def)

lemma wire_ints:
  "dec_list dec_int (enc_nat 4 @ enc_int a @ enc_int b @ enc_int c @ enc_int d @ r) =
     Some ([a, b, c, d], r)"
proof -
  have "dec_list dec_int (enc_list enc_int [a, b, c, d] @ r) = Some ([a, b, c, d], r)"
    by (rule dec_enc_list) simp
  then show ?thesis by (simp add: enc_list_def numeral_eq_Suc)
qed

lemma wire_log: "dec_list dec_entry (enc_list enc_entry (convertLogToPB log)) = Some (convertLogToPB log, [])"
  using dec_enc_list [of "convertLogToPB log" dec_entry enc_entry "[]"] by (force simp: convertLogToPB_def)

lemma wire_ok:
  "\<exists>d. wire_marshal (raft_message rf) = Inr d \<and> d \<noteq> [] \<and> wire_unmarshal d = Inr (raft_message rf)"
  by (simp add: wire_marshal_def wire_unmarshal_def raft_message_def wire_ints wire_log)
    (simp add: enc_int_def)

section \<open>The two persisters\<close>

definition memory_io :: "MemoryPersister RaftIO" where
  "memory_io = \<lparr>io_Save = MemoryPersister_Save, io_ReadRaftState = MemoryPersister_ReadRaftState,
     io_ReadSnapshot = MemoryPersister_ReadSnapshot, io_RaftStateSize = MemoryPersister_RaftStateSize,
     io_Marshal = wire_marshal, io_Unmarshal = wire_unmarshal\<rparr>"

definition disk_io :: "(slotManifest \<Rightarrow> bytes) \<Rightarrow> (DiskPersister \<times> disk) RaftIO" where
  "disk_io json = \<lparr>io_Save = disk_save json,
     io_ReadRaftState = (\<lambda>p. DiskPersister_ReadRaftState (fst p)),
     io_ReadSnapshot = (\<lambda>p. DiskPersister_ReadSnapshot (fst p)),
     io_RaftStateSize = (\<lambda>p. DiskPersister_RaftStateSize (fst p)),
     io_Marshal = wire_marshal, io_Unmarshal = wire_unmarshal\<rparr>"

interpretation memraft: raft_store memory_io "\<lambda>_. True"
proof
  fix p d s
  show "True \<and> io_ReadRaftState memory_io (io_Save memory_io p d s) = d \<and>
      io_ReadSnapshot memory_io (io_Save memory_io p d s) = s"
    by (simp add: memory_io_def)
next
  fix rf :: "MemoryPersister Raft"
  show "\<exists>d. io_Marshal memory_io (raft_message rf) = Inr d \<and> d \<noteq> [] \<and>
      io_Unmarshal memory_io d = Inr (raft_message rf)"
    using wire_ok [of rf] by (simp add: memory_io_def)
qed

interpretation diskraft: raft_store "disk_io json" "\<lambda>p. slots_ok (fst p)" for json
proof
  fix p :: "DiskPersister \<times> disk" and d s
  assume "slots_ok (fst p)"
  then show "slots_ok (fst (io_Save (disk_io json) p d s)) \<and>
      io_ReadRaftState (disk_io json) (io_Save (disk_io json) p d s) = d \<and>
      io_ReadSnapshot (disk_io json) (io_Save (disk_io json) p d s) = s"
    by (simp add: disk_io_def)
next
  fix rf :: "(DiskPersister \<times> disk) Raft"
  show "\<exists>d. io_Marshal (disk_io json) (raft_message rf) = Inr d \<and> d \<noteq> [] \<and>
      io_Unmarshal (disk_io json) d = Inr (raft_message rf)"
    using wire_ok [of rf] by (simp add: disk_io_def)
qed

end
