(* ===== verification/RaftNet.thy ===== *)
theory RaftNet
  imports RaftWire
begin

text \<open>
  A cluster of raft nodes. A state holds the nodes, every request and reply that was ever
  sent (so a message can be lost, delayed, reordered or delivered again), the vote counter
  of each election with the peers whose goroutine has finished, and the messages each
  node's applier has sent. One action is one critical section of one node, or a restart of
  a node from what its persister holds. \<open>net_step\<close> runs an action; it is undefined when
  the action names no message or the code panics.
\<close>

section \<open>Clusters and actions\<close>

record 'p net =
  net_nodes :: "'p Raft list"
  net_vreqs :: "RequestVoteArgs list"
  net_vreps :: "(nat \<times> RequestVoteArgs \<times> RequestVoteReply) list"
  net_tally :: "nat \<Rightarrow> int \<Rightarrow> (int \<times> nat list) option"
  net_areqs :: "(nat \<times> AppendEntriesArgs) list"
  net_areps :: "(nat \<times> AppendEntriesArgs \<times> AppendEntriesReply) list"
  net_sreqs :: "(nat \<times> InstallSnapshotArgs) list"
  net_sreps :: "(nat \<times> InstallSnapshotArgs \<times> InstallSnapshotReply) list"
  net_applied :: "ApplyMsg list list"

datatype action =
    Elect nat
  | DeliverVote nat nat
  | VoteReply nat
  | LeadAlone nat
  | Propose nat bytes
  | LogCheck nat
  | LogSingle nat
  | LogSelf nat int
  | Replicate nat nat
  | DeliverAppend nat
  | AppendReply nat
  | DeliverSnapshot nat
  | SnapshotReply nat
  | ApplyStep nat
  | Compact nat int bytes
  | ReadBegin nat
  | ReadConfirmed nat int int
  | ReadTimeout nat
  | TimerFires nat
  | Tick nat
  | KillNode nat
  | Restart nat

definition put_node :: "nat \<Rightarrow> 'p Raft \<Rightarrow> 'p net \<Rightarrow> 'p net" where
  "put_node i rf s = s\<lparr>net_nodes := (net_nodes s)[i := rf]\<rparr>"

text \<open>A section that may panic, and one that may not, of node \<open>i\<close>.\<close>

definition may_panic :: "nat \<Rightarrow> ('p Raft \<Rightarrow> 'p Raft outcome) \<Rightarrow> 'p net \<Rightarrow> 'p net option" where
  "may_panic i f s =
     (if i < length (net_nodes s)
      then case f (net_nodes s ! i) of Inl _ \<Rightarrow> None | Inr rf \<Rightarrow> Some (put_node i rf s)
      else None)"

definition quiet :: "nat \<Rightarrow> ('p Raft \<Rightarrow> 'p Raft) \<Rightarrow> 'p net \<Rightarrow> 'p net option" where
  "quiet i f s = may_panic i (\<lambda>rf. Inr (f rf)) s"

definition elect_act :: "'p RaftIO \<Rightarrow> nat \<Rightarrow> 'p net \<Rightarrow> 'p net option" where
  "elect_act io i s =
     (if i < length (net_nodes s)
      then case startElection io (net_nodes s ! i) of
          Inl _ \<Rightarrow> None
        | Inr (rf, args) \<Rightarrow>
            Some ((put_node i rf s)\<lparr>net_vreqs := net_vreqs s @ [args],
              net_tally := (net_tally s)(i := (net_tally s i)(rv_Term args \<mapsto> (1, [])))\<rparr>)
      else None)"

text \<open>A candidate sends no request to itself.\<close>

definition vote_act :: "'p RaftIO \<Rightarrow> nat \<Rightarrow> nat \<Rightarrow> 'p net \<Rightarrow> 'p net option" where
  "vote_act io j k s =
     (if j < length (net_nodes s) \<and> k < length (net_vreqs s) \<and>
         rv_CandidateId (net_vreqs s ! k) \<noteq> int j
      then case RequestVote io (net_nodes s ! j) (net_vreqs s ! k) of
          Inl _ \<Rightarrow> None
        | Inr (rf, r) \<Rightarrow>
            Some ((put_node j rf s)\<lparr>net_vreps := net_vreps s @ [(j, net_vreqs s ! k, r)]\<rparr>)
      else None)"

text \<open>Each goroutine of an election handles one reply.\<close>

definition vote_reply_act :: "'p RaftIO \<Rightarrow> nat \<Rightarrow> 'p net \<Rightarrow> 'p net option" where
  "vote_reply_act io k s =
     (if k < length (net_vreps s)
      then case net_vreps s ! k of (j, args, r) \<Rightarrow>
          (let c = nat (rv_CandidateId args); t = rv_Term args
           in case net_tally s c t of
                None \<Rightarrow> None
              | Some (votes, fin) \<Rightarrow>
                  if j \<in> set fin \<or> length (net_nodes s) \<le> c then None
                  else case handleVoteReply io (net_nodes s ! c) args votes (Some r) of
                    (rf, votes') \<Rightarrow>
                      Some ((put_node c rf s)\<lparr>net_tally :=
                        (net_tally s)(c := (net_tally s c)(t \<mapsto> (votes', j # fin)))\<rparr>))
      else None)"

definition replicate_act :: "nat \<Rightarrow> nat \<Rightarrow> 'p net \<Rightarrow> 'p net option" where
  "replicate_act i j s =
     (if i < length (net_nodes s) \<and> j < length (net_nodes s) \<and> i \<noteq> j
      then case replicate_prepare (net_nodes s ! i) j of
          Inl _ \<Rightarrow> None
        | Inr (rf, NoRequest) \<Rightarrow> Some (put_node i rf s)
        | Inr (rf, SendAppend a) \<Rightarrow> Some ((put_node i rf s)\<lparr>net_areqs := net_areqs s @ [(j, a)]\<rparr>)
        | Inr (rf, SendSnapshot a) \<Rightarrow> Some ((put_node i rf s)\<lparr>net_sreqs := net_sreqs s @ [(j, a)]\<rparr>)
      else None)"

definition append_act :: "'p RaftIO \<Rightarrow> nat \<Rightarrow> 'p net \<Rightarrow> 'p net option" where
  "append_act io k s =
     (if k < length (net_areqs s)
      then case net_areqs s ! k of (j, a) \<Rightarrow>
          if j < length (net_nodes s)
          then case AppendEntries io (net_nodes s ! j) a of
              (rf, r) \<Rightarrow> Some ((put_node j rf s)\<lparr>net_areps := net_areps s @ [(j, a, r)]\<rparr>)
          else None
      else None)"

definition append_reply_act :: "'p RaftIO \<Rightarrow> nat \<Rightarrow> 'p net \<Rightarrow> 'p net option" where
  "append_reply_act io k s =
     (if k < length (net_areps s)
      then case net_areps s ! k of (j, a, r) \<Rightarrow>
          may_panic (nat (ae_LeaderId a)) (\<lambda>rf. replicate_append_reply io rf j a (Some r)) s
      else None)"

definition snapshot_act :: "'p RaftIO \<Rightarrow> nat \<Rightarrow> 'p net \<Rightarrow> 'p net option" where
  "snapshot_act io k s =
     (if k < length (net_sreqs s)
      then case net_sreqs s ! k of (j, a) \<Rightarrow>
          if j < length (net_nodes s)
          then case InstallSnapshot io (net_nodes s ! j) a of
              (rf, r, m) \<Rightarrow>
                Some ((put_node j rf s)\<lparr>net_sreps := net_sreps s @ [(j, a, r)],
                  net_applied := (net_applied s)[j := net_applied s ! j @
                    (case m of None \<Rightarrow> [] | Some x \<Rightarrow> [x])]\<rparr>)
          else None
      else None)"

definition snapshot_reply_act :: "'p RaftIO \<Rightarrow> nat \<Rightarrow> 'p net \<Rightarrow> 'p net option" where
  "snapshot_reply_act io k s =
     (if k < length (net_sreps s)
      then case net_sreps s ! k of (j, a, r) \<Rightarrow>
          may_panic (nat (is_LeaderID a)) (\<lambda>rf. replicate_snapshot_reply io rf j (is_Term a) (Some r)) s
      else None)"

definition apply_act :: "nat \<Rightarrow> 'p net \<Rightarrow> 'p net option" where
  "apply_act i s =
     (if i < length (net_nodes s)
      then case applier_step (net_nodes s ! i) of
          (rf, ms) \<Rightarrow> Some ((put_node i rf s)\<lparr>net_applied := (net_applied s)[i := net_applied s ! i @ ms]\<rparr>)
      else None)"

text \<open>A new process of node \<open>i\<close> reads the persister the old one wrote.\<close>

definition restart_act :: "'p RaftIO \<Rightarrow> nat \<Rightarrow> 'p net \<Rightarrow> 'p net option" where
  "restart_act io i s =
     map_option (\<lambda>s'. s'\<lparr>net_applied := (net_applied s')[i := []]\<rparr>)
       (may_panic i (\<lambda>rf. Make io (length (net_nodes s)) (int i) (rf_persister rf)) s)"

fun net_step :: "'p RaftIO \<Rightarrow> action \<Rightarrow> 'p net \<Rightarrow> 'p net option" where
  "net_step io (Elect i) s = elect_act io i s"
| "net_step io (DeliverVote j k) s = vote_act io j k s"
| "net_step io (VoteReply k) s = vote_reply_act io k s"
| "net_step io (LeadAlone i) s =
     (if length (net_nodes s) = 1 then quiet i startElection_single s else None)"
| "net_step io (Propose i c) s = quiet i (\<lambda>rf. fst (Start io rf c)) s"
| "net_step io (LogCheck i) s = quiet i (\<lambda>rf. fst (logUpdate_check rf)) s"
| "net_step io (LogSingle i) s = may_panic i logUpdate_single s"
| "net_step io (LogSelf i x) s = may_panic i (\<lambda>rf. logUpdate_self rf x) s"
| "net_step io (Replicate i j) s = replicate_act i j s"
| "net_step io (DeliverAppend k) s = append_act io k s"
| "net_step io (AppendReply k) s = append_reply_act io k s"
| "net_step io (DeliverSnapshot k) s = snapshot_act io k s"
| "net_step io (SnapshotReply k) s = snapshot_reply_act io k s"
| "net_step io (ApplyStep i) s = apply_act i s"
| "net_step io (Compact i x d) s = may_panic i (\<lambda>rf. Snapshot io rf x d) s"
| "net_step io (ReadBegin i) s = quiet i (\<lambda>rf. fst (ReadIndex_begin rf)) s"
| "net_step io (ReadConfirmed i x t) s = quiet i (\<lambda>rf. fst (ReadIndex_confirmed rf (x, t))) s"
| "net_step io (ReadTimeout i) s = quiet i (\<lambda>rf. fst (ReadIndex_timeout rf)) s"
| "net_step io (TimerFires i) s =
     quiet i (\<lambda>rf. rf\<lparr>rf_electionTimer := map_option (\<lambda>_. True) (rf_electionTimer rf)\<rparr>) s"
| "net_step io (Tick i) s = quiet i (\<lambda>rf. fst (ticker_step rf)) s"
| "net_step io (KillNode i) s = quiet i Kill s"
| "net_step io (Restart i) s = restart_act io i s"

fun net_run :: "'p RaftIO \<Rightarrow> action list \<Rightarrow> 'p net \<Rightarrow> 'p net option" where
  "net_run io [] s = Some s"
| "net_run io (a # as) s = (case net_step io a s of None \<Rightarrow> None | Some s' \<Rightarrow> net_run io as s')"

text \<open>Booting one process per persister.\<close>

fun boot_nodes :: "'p RaftIO \<Rightarrow> nat \<Rightarrow> nat \<Rightarrow> 'p list \<Rightarrow> 'p Raft list option" where
  "boot_nodes io n i [] = Some []"
| "boot_nodes io n i (p # ps) =
     (case Make io n (int i) p of
        Inl _ \<Rightarrow> None
      | Inr rf \<Rightarrow> (case boot_nodes io n (Suc i) ps of None \<Rightarrow> None | Some rfs \<Rightarrow> Some (rf # rfs)))"

definition net_init :: "'p RaftIO \<Rightarrow> 'p list \<Rightarrow> 'p net option" where
  "net_init io ps =
     (case boot_nodes io (length ps) 0 ps of
        None \<Rightarrow> None
      | Some rfs \<Rightarrow>
          Some \<lparr>net_nodes = rfs, net_vreqs = [], net_vreps = [], net_tally = (\<lambda>_ _. None),
            net_areqs = [], net_areps = [], net_sreqs = [], net_sreps = [],
            net_applied = replicate (length ps) []\<rparr>)"

text \<open>The states a cluster can reach from empty persisters.\<close>

definition reachable :: "'p RaftIO \<Rightarrow> 'p list \<Rightarrow> 'p net \<Rightarrow> bool" where
  "reachable io ps s \<longleftrightarrow> (\<exists>s0 acts. net_init io ps = Some s0 \<and> net_run io acts s0 = Some s)"

definition blank :: "'p RaftIO \<Rightarrow> ('p \<Rightarrow> bool) \<Rightarrow> 'p \<Rightarrow> bool" where
  "blank io pinv p \<longleftrightarrow> pinv p \<and> io_ReadRaftState io p = [] \<and> io_ReadSnapshot io p = []"

lemma net_run_append:
  "net_run io (as @ bs) s = (case net_run io as s of None \<Rightarrow> None | Some s' \<Rightarrow> net_run io bs s')"
  by (induction as arbitrary: s) (auto split: option.splits)

lemma put_node_simps [simp]:
  "net_nodes (put_node i rf s) = (net_nodes s)[i := rf]"
  "net_vreqs (put_node i rf s) = net_vreqs s" "net_vreps (put_node i rf s) = net_vreps s"
  "net_tally (put_node i rf s) = net_tally s" "net_areqs (put_node i rf s) = net_areqs s"
  "net_areps (put_node i rf s) = net_areps s" "net_sreqs (put_node i rf s) = net_sreqs s"
  "net_sreps (put_node i rf s) = net_sreps s" "net_applied (put_node i rf s) = net_applied s"
  by (simp_all add: put_node_def)

lemma may_panic_Some:
  "may_panic i f s = Some s' \<Longrightarrow>
     i < length (net_nodes s) \<and> (\<exists>rf. f (net_nodes s ! i) = Inr rf \<and> s' = put_node i rf s)"
  by (auto simp: may_panic_def split: if_splits sum.splits)

lemma quiet_Some:
  "quiet i f s = Some s' \<Longrightarrow> i < length (net_nodes s) \<and> s' = put_node i (f (net_nodes s ! i)) s"
  by (auto simp: quiet_def dest: may_panic_Some)

section \<open>Well-formed clusters\<close>

lemma replicate_prepare_append_ok:
  assumes "raft_inv rf" "replicate_prepare rf j = Inr (rf', SendAppend a)"
  shows "append_ok a"
proof -
  from assms(2) obtain rf1 where rf1: "updateCommiIndex rf = Inr rf1"
    by (auto simp: replicate_prepare_def Let_def split: if_splits sum.splits)
  from updateCommiIndex_inv [OF assms(1) rf1]
  have ix: "indexed_from (rf_lastIncludeIndex rf1) (rf_log rf1)" by (simp add: raft_inv_def)
  let ?I = "rf_nextIndex rf1 ! j"
  have a: "ae_PrevLogIndex a = ?I - 1" "rf_lastIncludeIndex rf1 < ?I"
    "ae_Entries a = (if ?I > lastLogIndex rf1 then []
      else drop (nat (?I - rf_lastIncludeIndex rf1)) (rf_log rf1))"
    using assms(2) rf1 by (auto simp: replicate_prepare_def Let_def split: if_splits)
  show ?thesis
  proof (cases "?I > lastLogIndex rf1")
    case False
    then have "nat (?I - rf_lastIncludeIndex rf1) \<le> length (rf_log rf1)" by (simp add: lastLogIndex_def)
    from indexed_from_drop [OF ix this] a False show ?thesis by (simp add: append_ok_def)
  qed (use a in \<open>simp add: append_ok_def\<close>)
qed

text \<open>
  A good node knows its place, keeps the local invariant and has its hard state on disk; a
  move changes one node and neither requests, replies nor counters of elections.
\<close>

definition good_node :: "'p RaftIO \<Rightarrow> ('p \<Rightarrow> bool) \<Rightarrow> nat \<Rightarrow> nat \<Rightarrow> 'p Raft \<Rightarrow> bool" where
  "good_node io pinv n i rf \<longleftrightarrow>
     rf_me rf = int i \<and> rf_peers rf = n \<and> raft_inv rf \<and> durable io pinv rf"

definition good_net :: "'p RaftIO \<Rightarrow> ('p \<Rightarrow> bool) \<Rightarrow> nat \<Rightarrow> 'p net \<Rightarrow> bool" where
  "good_net io pinv n s \<longleftrightarrow>
     length (net_nodes s) = n \<and> (\<forall>i < n. good_node io pinv n i (net_nodes s ! i)) \<and>
     (\<forall>(j, a) \<in> set (net_areqs s). append_ok a)"

definition moved :: "'p net \<Rightarrow> nat \<Rightarrow> 'p Raft \<Rightarrow> 'p net \<Rightarrow> bool" where
  "moved s i rf' s' \<longleftrightarrow>
     i < length (net_nodes s) \<and> net_nodes s' = (net_nodes s)[i := rf'] \<and>
     net_vreqs s' = net_vreqs s \<and> net_vreps s' = net_vreps s \<and> net_tally s' = net_tally s \<and>
     (\<forall>(j, a) \<in> set (net_areqs s'). (j, a) \<in> set (net_areqs s) \<or> append_ok a) \<and>
     (vote_kept (net_nodes s ! i) rf' \<or> length (net_nodes s) = 1)"

lemma moved_put: "i < length (net_nodes s) \<Longrightarrow> vote_kept (net_nodes s ! i) rf' \<or> length (net_nodes s) = 1 \<Longrightarrow>
    moved s i rf' (put_node i rf' s)"
  by (auto simp: moved_def)

lemma good_nodeD: "good_net io pinv n s \<Longrightarrow> i < n \<Longrightarrow> good_node io pinv n i (net_nodes s ! i)"
  by (simp add: good_net_def)

lemma good_node_kept:
  "good_node io pinv n i rf \<Longrightarrow> vote_kept rf rf' \<Longrightarrow> (raft_inv rf \<Longrightarrow> raft_inv rf') \<Longrightarrow>
     (durable io pinv rf \<Longrightarrow> durable io pinv rf') \<Longrightarrow> good_node io pinv n i rf'"
  by (simp add: good_node_def vote_kept_def)

context raft_store
begin

text \<open>The sections that are not part of an election move a good node to a good node.\<close>

definition keeps :: "('p Raft \<Rightarrow> 'p Raft) \<Rightarrow> bool" where
  "keeps f \<longleftrightarrow> (\<forall>rf. vote_kept rf (f rf) \<and> (raft_inv rf \<longrightarrow> raft_inv (f rf)) \<and>
     (durable io pinv rf \<longrightarrow> durable io pinv (f rf)))"

lemma keeps_ops:
  "keeps (\<lambda>rf. fst (Start io rf c))" "keeps (\<lambda>rf. fst (logUpdate_check rf))"
  "keeps (\<lambda>rf. fst (ReadIndex_begin rf))" "keeps (\<lambda>rf. fst (ReadIndex_confirmed rf q))"
  "keeps (\<lambda>rf. fst (ReadIndex_timeout rf))" "keeps (\<lambda>rf. fst (ticker_step rf))" "keeps Kill"
  "keeps (\<lambda>rf. rf\<lparr>rf_electionTimer := map_option (\<lambda>_. True) (rf_electionTimer rf)\<rparr>)"
proof -
  show "keeps Kill" "keeps (\<lambda>rf. rf\<lparr>rf_electionTimer := map_option (\<lambda>_. True) (rf_electionTimer rf)\<rparr>)"
    unfolding keeps_def by (simp_all add: Kill_def vote_kept_def raft_inv_def volatile_durable)
qed (unfold keeps_def, (blast intro: Start_inv logUpdate_inv read_inv Start_vote Start_durable
    logUpdate_vote logUpdate_durable read_vote read_durable)+)

definition may_keep :: "('p Raft \<Rightarrow> 'p Raft outcome) \<Rightarrow> bool" where
  "may_keep f \<longleftrightarrow> (\<forall>rf rf'. f rf = Inr rf' \<longrightarrow> vote_kept rf rf' \<and> (raft_inv rf \<longrightarrow> raft_inv rf') \<and>
     (durable io pinv rf \<longrightarrow> durable io pinv rf'))"

lemma may_keep_ops:
  "may_keep logUpdate_single" "may_keep (\<lambda>rf. logUpdate_self rf x)"
  "may_keep (\<lambda>rf. replicate_append_reply io rf j a call)"
  "may_keep (\<lambda>rf. replicate_snapshot_reply io rf j t scall)"
  "may_keep (\<lambda>rf. Snapshot io rf i d)"
  unfolding may_keep_def
  by (blast intro: inv_intros logUpdate_vote logUpdate_durable reply_vote Snapshot_vote
      replicate_append_reply_durable replicate_snapshot_reply_durable Snapshot_durable)+

lemma may_keep_move:
  assumes "good_net io pinv n s" "may_keep f" "may_panic i f s = Some s'"
  shows "\<exists>i rf'. moved s i rf' s' \<and> good_node io pinv n i rf'"
proof -
  from may_panic_Some [OF assms(3)] obtain rf' where
    i: "i < length (net_nodes s)" and f: "f (net_nodes s ! i) = Inr rf'" and s': "s' = put_node i rf' s"
    by blast
  have g: "good_node io pinv n i (net_nodes s ! i)" using assms(1) i by (simp add: good_net_def)
  have v: "vote_kept (net_nodes s ! i) rf'" using f assms(2) by (simp add: may_keep_def)
  have "good_node io pinv n i rf'"
    by (rule good_node_kept [OF g v]) (use f assms(2) in \<open>auto simp: may_keep_def\<close>)
  with moved_put [OF i] s' v show ?thesis by blast
qed

lemma keeps_move:
  assumes "good_net io pinv n s" "keeps f" "quiet i f s = Some s'"
  shows "\<exists>i rf'. moved s i rf' s' \<and> good_node io pinv n i rf'"
  using assms may_keep_move [of n s "\<lambda>rf. Inr (f rf)" i s']
  by (simp add: quiet_def may_keep_def keeps_def)

lemma replicate_move:
  assumes "good_net io pinv n s" "replicate_act i j s = Some s'"
  shows "\<exists>i rf'. moved s i rf' s' \<and> good_node io pinv n i rf'"
proof -
  from assms(2) obtain rf' q where i: "i < length (net_nodes s)"
    and q: "replicate_prepare (net_nodes s ! i) j = Inr (rf', q)"
    and s': "net_nodes s' = (net_nodes s)[i := rf']" "net_vreqs s' = net_vreqs s"
      "net_vreps s' = net_vreps s" "net_tally s' = net_tally s"
      "net_areqs s' = net_areqs s \<or> (\<exists>a. q = SendAppend a \<and> net_areqs s' = net_areqs s @ [(j, a)])"
    by (auto simp: replicate_act_def split: if_splits sum.splits send_request.splits)
  have g: "good_node io pinv n i (net_nodes s ! i)" using assms(1) i by (simp add: good_net_def)
  have v: "vote_kept (net_nodes s ! i) rf'" by (rule replicate_prepare_vote [OF q])
  have "good_node io pinv n i rf'"
    by (rule good_node_kept [OF g v replicate_prepare_inv [OF _ q] replicate_prepare_durable [OF _ q]])
  moreover have "moved s i rf' s'"
    using i s' v q replicate_prepare_append_ok [of "net_nodes s ! i" j rf'] g
    by (auto simp: moved_def good_node_def)
  ultimately show ?thesis by blast
qed

lemma append_move:
  assumes "good_net io pinv n s" "append_act io k s = Some s'"
  shows "\<exists>i rf'. moved s i rf' s' \<and> good_node io pinv n i rf'"
proof -
  obtain j a where k: "k < length (net_areqs s)" "net_areqs s ! k = (j, a)"
    using assms(2) by (cases "net_areqs s ! k") (auto simp: append_act_def split: if_splits)
  let ?rf' = "fst (AppendEntries io (net_nodes s ! j) a)"
  have j: "j < length (net_nodes s)" and s': "net_nodes s' = (net_nodes s)[j := ?rf']"
    "net_vreqs s' = net_vreqs s" "net_vreps s' = net_vreps s" "net_tally s' = net_tally s"
    "net_areqs s' = net_areqs s"
    using assms(2) k by (auto simp: append_act_def split: if_splits prod.splits)
  have g: "good_node io pinv n j (net_nodes s ! j)" using assms(1) j by (simp add: good_net_def)
  have "append_ok a" using assms(1) k nth_mem [OF k(1)] by (auto simp: good_net_def)
  then have "good_node io pinv n j ?rf'"
    by (intro good_node_kept [OF g AppendEntries_vote AppendEntries_inv AppendEntries_durable])
  moreover have "moved s j ?rf' s'" using j s' AppendEntries_vote by (auto simp: moved_def)
  ultimately show ?thesis by blast
qed

lemma snapshot_move:
  assumes "good_net io pinv n s" "snapshot_act io k s = Some s'"
  shows "\<exists>i rf'. moved s i rf' s' \<and> good_node io pinv n i rf'"
proof -
  obtain j a where k: "k < length (net_sreqs s)" "net_sreqs s ! k = (j, a)"
    using assms(2) by (cases "net_sreqs s ! k") (auto simp: snapshot_act_def split: if_splits)
  let ?rf' = "fst (InstallSnapshot io (net_nodes s ! j) a)"
  have j: "j < length (net_nodes s)" and s': "net_nodes s' = (net_nodes s)[j := ?rf']"
    "net_vreqs s' = net_vreqs s" "net_vreps s' = net_vreps s" "net_tally s' = net_tally s"
    "net_areqs s' = net_areqs s"
    using assms(2) k by (auto simp: snapshot_act_def split: if_splits prod.splits)
  have g: "good_node io pinv n j (net_nodes s ! j)" using assms(1) j by (simp add: good_net_def)
  have "good_node io pinv n j ?rf'"
    by (rule good_node_kept [OF g InstallSnapshot_vote InstallSnapshot_inv InstallSnapshot_durable])
  moreover have "moved s j ?rf' s'" using j s' InstallSnapshot_vote by (auto simp: moved_def)
  ultimately show ?thesis by blast
qed

lemma apply_move:
  assumes "good_net io pinv n s" "apply_act i s = Some s'"
  shows "\<exists>i rf'. moved s i rf' s' \<and> good_node io pinv n i rf'"
proof -
  obtain rf' ms where m: "applier_step (net_nodes s ! i) = (rf', ms)" by fastforce
  have i: "i < length (net_nodes s)" and s': "net_nodes s' = (net_nodes s)[i := rf']"
    "net_vreqs s' = net_vreqs s" "net_vreps s' = net_vreps s" "net_tally s' = net_tally s"
    "net_areqs s' = net_areqs s"
    using assms(2) m by (auto simp: apply_act_def split: if_splits)
  have g: "good_node io pinv n i (net_nodes s ! i)" using assms(1) i by (simp add: good_net_def)
  have "good_node io pinv n i rf'"
    by (rule good_node_kept [OF g applier_step_vote [OF m] applier_step_inv [OF _ m] applier_step_durable [OF _ m]])
  moreover have "moved s i rf' s'" using i s' applier_step_vote [OF m] by (auto simp: moved_def)
  ultimately show ?thesis by blast
qed

lemma restart_good:
  assumes "good_node io pinv n i rf"
  shows "\<exists>rf'. Make io n (int i) (rf_persister rf) = Inr rf' \<and> good_node io pinv n i rf' \<and>
    (vote_kept rf rf' \<or> n \<le> 1)"
proof -
  have d: "durable io pinv rf" "rf_log rf \<noteq> []" using assms by (auto simp: good_node_def raft_inv_def)
  from Make_durable [OF d, of n "int i"] obtain rf' where
    m: "Make io n (int i) (rf_persister rf) = Inr rf'" "same_hard rf rf'"
    "rf_persister rf' = rf_persister rf" "rf_me rf' = int i" "rf_peers rf' = n"
    "1 < n \<longrightarrow> rf_state rf' = Follower" "rf_commitIndex rf' = rf_lastIncludeIndex rf"
    "rf_lastApplied rf' = rf_lastIncludeIndex rf"
    "rf_state rf' = Leader \<longrightarrow> length (rf_nextIndex rf') = n \<and> length (rf_matchIndex rf') = n"
    by blast
  have "durable io pinv rf'" by (rule durable_cong [OF m(2,3) d(1)])
  moreover have "raft_inv rf'" using assms m by (auto simp: good_node_def raft_inv_def same_hard_def)
  moreover have "vote_kept rf rf' \<or> n \<le> 1"
    using assms m by (auto simp: vote_kept_def good_node_def same_hard_def)
  ultimately show ?thesis using m by (auto simp: good_node_def)
qed

lemma restart_move:
  assumes "good_net io pinv n s" "restart_act io i s = Some s'"
  shows "\<exists>i rf'. moved s i rf' s' \<and> good_node io pinv n i rf'"
proof -
  let ?f = "\<lambda>rf. Make io (length (net_nodes s)) (int i) (rf_persister rf)"
  obtain s1 where s1: "may_panic i ?f s = Some s1" and s': "s' = s1\<lparr>net_applied := (net_applied s1)[i := []]\<rparr>"
    using assms(2) by (auto simp: restart_act_def)
  from may_panic_Some [OF s1] obtain rf' where i: "i < length (net_nodes s)"
    and rf': "?f (net_nodes s ! i) = Inr rf'" "s1 = put_node i rf' s" by blast
  have n: "length (net_nodes s) = n" and g: "good_node io pinv n i (net_nodes s ! i)"
    using assms(1) i by (simp_all add: good_net_def)
  from restart_good [OF g] rf'(1) n have "good_node io pinv n i rf'" "vote_kept (net_nodes s ! i) rf' \<or> n \<le> 1"
    by auto
  moreover from this(2) have "moved s i rf' s'"
    using i rf'(2) s' n by (auto simp: moved_def)
  ultimately show ?thesis by blast
qed

lemma alone_move:
  assumes "good_net io pinv n s" "quiet i startElection_single s = Some s'" "length (net_nodes s) = 1"
  shows "\<exists>i rf'. moved s i rf' s' \<and> good_node io pinv n i rf'"
proof -
  let ?rf = "net_nodes s ! i"
  have i: "i < length (net_nodes s)" and s': "s' = put_node i (startElection_single ?rf) s"
    using quiet_Some [OF assms(2)] by auto
  have g: "good_node io pinv n i ?rf" using assms(1) i by (simp add: good_net_def)
  have "rf_me (startElection_single ?rf) = rf_me ?rf" "rf_peers (startElection_single ?rf) = rf_peers ?rf"
    by (simp_all add: startElection_single_def initLeaderProgressLocked_def)
  with g have "good_node io pinv n i (startElection_single ?rf)"
    using startElection_single_inv startElection_single_durable by (auto simp: good_node_def)
  with moved_put [OF i] assms(3) s' show ?thesis by blast
qed

end

end
