(* ===== verification/RaftElect.thy ===== *)
theory RaftElect
  imports RaftNet
begin

text \<open>
  Election safety of a cluster. A vote is a started election (for oneself) or a granted
  reply; a node votes once per term, across restarts, because its vote is on disk before the
  reply is sent; a leader has more votes than half of the nodes; and two majorities share a
  node.
\<close>

section \<open>Votes\<close>

definition voted :: "'p net \<Rightarrow> nat \<Rightarrow> int \<Rightarrow> nat \<Rightarrow> bool" where
  "voted s j t c \<longleftrightarrow>
     net_tally s j t \<noteq> None \<and> c = j \<or>
     (\<exists>args r. (j, args, r) \<in> set (net_vreps s) \<and> rvr_VoteGranted r \<and> rv_Term args = t \<and>
        rv_CandidateId args = int c)"

text \<open>
  Requests come from elections; a vote binds the node's disk; a node votes once per term; a
  counter has one for the candidate and one for each peer that voted for it; a candidate
  has an election, a leader has won one.
\<close>

definition requests_ok :: "nat \<Rightarrow> 'p net \<Rightarrow> bool" where
  "requests_ok n s \<longleftrightarrow>
     (\<forall>a \<in> set (net_vreqs s). \<exists>c < n. rv_CandidateId a = int c \<and> net_tally s c (rv_Term a) \<noteq> None) \<and>
     (\<forall>(j, a, r) \<in> set (net_vreps s). j < n \<and> a \<in> set (net_vreqs s) \<and> rv_CandidateId a \<noteq> int j) \<and>
     (\<forall>c t. net_tally s c t \<noteq> None \<longrightarrow> c < n)"

definition votes_bind :: "nat \<Rightarrow> 'p net \<Rightarrow> bool" where
  "votes_bind n s \<longleftrightarrow>
     (\<forall>j < n. \<forall>t c. voted s j t c \<longrightarrow>
        t \<le> rf_currentTerm (net_nodes s ! j) \<and>
        (rf_currentTerm (net_nodes s ! j) = t \<longrightarrow> rf_votedFor (net_nodes s ! j) = int c))"

definition votes_unique :: "'p net \<Rightarrow> bool" where
  "votes_unique s \<longleftrightarrow> (\<forall>j t c c'. voted s j t c \<longrightarrow> voted s j t c' \<longrightarrow> c = c')"

definition tally_ok :: "nat \<Rightarrow> 'p net \<Rightarrow> bool" where
  "tally_ok n s \<longleftrightarrow>
     (\<forall>c t v fin. net_tally s c t = Some (v, fin) \<longrightarrow>
        (\<exists>V \<subseteq> set fin. c \<notin> V \<and> V \<subseteq> {..<n} \<and> v = 1 + int (card V) \<and> (\<forall>j \<in> V. voted s j t c)))"

definition roles_ok :: "nat \<Rightarrow> 'p net \<Rightarrow> bool" where
  "roles_ok n s \<longleftrightarrow>
     (\<forall>i < n. let rf = net_nodes s ! i in
        (rf_state rf = Candidate \<longrightarrow> net_tally s i (rf_currentTerm rf) \<noteq> None) \<and>
        (rf_state rf = Leader \<longrightarrow> n = 1 \<or>
           (\<exists>v fin. net_tally s i (rf_currentTerm rf) = Some (v, fin) \<and> v > int n div 2)))"

definition elect_inv :: "nat \<Rightarrow> 'p net \<Rightarrow> bool" where
  "elect_inv n s \<longleftrightarrow>
     requests_ok n s \<and> votes_bind n s \<and> votes_unique s \<and> tally_ok n s \<and> roles_ok n s"

text \<open>Two majorities of \<open>n\<close> nodes have a node in common.\<close>

lemma majorities_meet:
  assumes "A \<subseteq> {..<n}" "B \<subseteq> {..<n}" "n div 2 < card A" "n div 2 < card B"
  shows "A \<inter> B \<noteq> {}"
proof
  assume "A \<inter> B = {}"
  moreover have fin: "finite A" "finite B" using assms(1,2) by (auto intro: finite_subset)
  ultimately have "card (A \<union> B) = card A + card B" by (simp add: card_Un_disjoint)
  moreover have "card (A \<union> B) \<le> card {..<n}" using assms(1,2) by (intro card_mono) auto
  ultimately show False using assms(3,4) by simp
qed

lemma tallyD:
  "elect_inv n s \<Longrightarrow> net_tally s c t = Some (v, fin) \<Longrightarrow>
     \<exists>V. V \<subseteq> set fin \<and> c \<notin> V \<and> V \<subseteq> {..<n} \<and> v = 1 + int (card V) \<and> (\<forall>j \<in> V. voted s j t c)"
  unfolding elect_inv_def tally_ok_def by blast

lemma tally_mono:
  assumes "elect_inv n s" "net_tally s c t = Some (v, fin)" "\<And>j. voted s j t c \<Longrightarrow> voted s' j t c"
  shows "\<exists>V \<subseteq> set fin. c \<notin> V \<and> V \<subseteq> {..<n} \<and> v = 1 + int (card V) \<and> (\<forall>j \<in> V. voted s' j t c)"
proof -
  obtain V where V: "V \<subseteq> set fin" "c \<notin> V" "V \<subseteq> {..<n}" "v = 1 + int (card V)" "\<forall>j \<in> V. voted s j t c"
    using tallyD [OF assms(1,2)] by blast
  then have "\<forall>j \<in> V. voted s' j t c" using assms(3) by blast
  with V show ?thesis by (intro exI [of _ V]) simp
qed

text \<open>The voters of a leader.\<close>

lemma leader_votes:
  assumes "elect_inv n s" "i < n" "rf_state (net_nodes s ! i) = Leader" "n \<noteq> 1"
  obtains A where "A \<subseteq> {..<n}" "n div 2 < card A" "\<forall>j \<in> A. voted s j (rf_currentTerm (net_nodes s ! i)) i"
proof -
  let ?t = "rf_currentTerm (net_nodes s ! i)"
  from assms obtain v fin where v: "net_tally s i ?t = Some (v, fin)" "v > int n div 2"
    by (auto simp: elect_inv_def roles_ok_def Let_def)
  obtain V where V: "i \<notin> V" "V \<subseteq> {..<n}" "v = 1 + int (card V)" "\<forall>j \<in> V. voted s j ?t i"
    using tallyD [OF assms(1) v(1)] by blast
  have "finite V" using V(2) by (rule finite_subset) simp
  then have "card (insert i V) = 1 + card V" using V(1) by simp
  then have "n div 2 < card (insert i V)" using V(3) v(2) by linarith
  moreover have "voted s i ?t i" using v(1) by (simp add: voted_def)
  ultimately show thesis using V assms(2) by (intro that [of "insert i V"]) auto
qed

lemma one_leader_per_term:
  assumes "elect_inv n s" "i < n" "j < n"
    and "rf_state (net_nodes s ! i) = Leader" "rf_state (net_nodes s ! j) = Leader"
    and "rf_currentTerm (net_nodes s ! i) = rf_currentTerm (net_nodes s ! j)"
  shows "i = j"
proof (cases "n = 1")
  case False
  obtain A where A: "A \<subseteq> {..<n}" "n div 2 < card A" "\<forall>k \<in> A. voted s k (rf_currentTerm (net_nodes s ! i)) i"
    by (rule leader_votes [OF assms(1,2,4) False])
  obtain B where B: "B \<subseteq> {..<n}" "n div 2 < card B" "\<forall>k \<in> B. voted s k (rf_currentTerm (net_nodes s ! j)) j"
    by (rule leader_votes [OF assms(1,3,5) False])
  from majorities_meet [OF A(1) B(1) A(2) B(2)] obtain k where "k \<in> A" "k \<in> B" by blast
  then show ?thesis using A(3) B(3) assms(1,6) by (auto simp: elect_inv_def votes_unique_def)
qed (use assms in simp)

section \<open>Moves keep the invariant\<close>

lemma voted_cong: "net_tally s' = net_tally s \<Longrightarrow> net_vreps s' = net_vreps s \<Longrightarrow> voted s' = voted s"
  by (intro ext) (simp add: voted_def)

lemma voted_bound:
  assumes "elect_inv n s" "j < n" "voted s j t c"
  shows "t \<le> rf_currentTerm (net_nodes s ! j)"
    "rf_currentTerm (net_nodes s ! j) = t \<Longrightarrow> rf_votedFor (net_nodes s ! j) = int c"
  using assms by (auto simp: elect_inv_def votes_bind_def)

lemma roles_okD:
  assumes "elect_inv n s" "i < n"
  shows "rf_state (net_nodes s ! i) = Candidate \<Longrightarrow>
      net_tally s i (rf_currentTerm (net_nodes s ! i)) \<noteq> None"
    "rf_state (net_nodes s ! i) = Leader \<Longrightarrow> n \<noteq> 1 \<Longrightarrow>
      \<exists>v fin. net_tally s i (rf_currentTerm (net_nodes s ! i)) = Some (v, fin) \<and> v > int n div 2"
  using assms by (auto simp: elect_inv_def roles_ok_def Let_def)

lemma requests_ok_step:
  assumes ok: "requests_ok n s"
    and mono: "\<And>c t. net_tally s c t \<noteq> None \<Longrightarrow> net_tally s' c t \<noteq> None"
    and dm: "\<And>c t. net_tally s' c t \<noteq> None \<Longrightarrow> net_tally s c t \<noteq> None \<or> c < n"
    and reqs: "\<And>a. a \<in> set (net_vreqs s') \<Longrightarrow> a \<in> set (net_vreqs s) \<or>
      (\<exists>c < n. rv_CandidateId a = int c \<and> net_tally s' c (rv_Term a) \<noteq> None)"
    and reps: "\<And>j a r. (j, a, r) \<in> set (net_vreps s') \<Longrightarrow> (j, a, r) \<in> set (net_vreps s) \<or>
      j < n \<and> a \<in> set (net_vreqs s) \<and> rv_CandidateId a \<noteq> int j"
    and sub: "set (net_vreqs s) \<subseteq> set (net_vreqs s')"
  shows "requests_ok n s'"
proof -
  have "\<exists>c < n. rv_CandidateId a = int c \<and> net_tally s' c (rv_Term a) \<noteq> None"
    if "a \<in> set (net_vreqs s')" for a
    using reqs [OF that] ok mono unfolding requests_ok_def by blast
  moreover have "j < n \<and> a \<in> set (net_vreqs s') \<and> rv_CandidateId a \<noteq> int j"
    if "(j, a, r) \<in> set (net_vreps s')" for j a r
    using reps [OF that] ok sub unfolding requests_ok_def by fast
  moreover have "c < n" if "net_tally s' c t \<noteq> None" for c t
    using dm [OF that] ok unfolding requests_ok_def by blast
  ultimately show ?thesis unfolding requests_ok_def by blast
qed

lemma votes_bind_step:
  assumes I: "elect_inv n s"
    and step: "\<And>j t c. j < n \<Longrightarrow> voted s' j t c \<Longrightarrow>
      voted s j t c \<and> rf_currentTerm (net_nodes s ! j) \<le> rf_currentTerm (net_nodes s' ! j) \<and>
        (rf_currentTerm (net_nodes s' ! j) = rf_currentTerm (net_nodes s ! j) \<longrightarrow>
           rf_votedFor (net_nodes s' ! j) = rf_votedFor (net_nodes s ! j) \<or>
           rf_votedFor (net_nodes s ! j) = -1) \<or>
      rf_currentTerm (net_nodes s' ! j) = t \<and> rf_votedFor (net_nodes s' ! j) = int c"
  shows "votes_bind n s'"
  unfolding votes_bind_def
proof (intro allI impI)
  fix j t c assume j: "j < n" and "voted s' j t c"
  from step [OF this] show "t \<le> rf_currentTerm (net_nodes s' ! j) \<and>
      (rf_currentTerm (net_nodes s' ! j) = t \<longrightarrow> rf_votedFor (net_nodes s' ! j) = int c)"
  proof (elim disjE conjE)
    assume "voted s j t c"
    note old = voted_bound [OF I j this]
    assume "rf_currentTerm (net_nodes s ! j) \<le> rf_currentTerm (net_nodes s' ! j)"
      "rf_currentTerm (net_nodes s' ! j) = rf_currentTerm (net_nodes s ! j) \<longrightarrow>
         rf_votedFor (net_nodes s' ! j) = rf_votedFor (net_nodes s ! j) \<or>
         rf_votedFor (net_nodes s ! j) = -1"
    with old show ?thesis by (cases "rf_currentTerm (net_nodes s ! j) = t") auto
  qed simp
qed

lemma tally_ok_step:
  assumes I: "elect_inv n s" and mono: "\<And>j t c. voted s j t c \<Longrightarrow> voted s' j t c"
    and step: "\<And>c t v fin. net_tally s' c t = Some (v, fin) \<Longrightarrow> net_tally s c t = Some (v, fin) \<or>
      (\<exists>V \<subseteq> set fin. c \<notin> V \<and> V \<subseteq> {..<n} \<and> v = 1 + int (card V) \<and> (\<forall>j \<in> V. voted s' j t c))"
  shows "tally_ok n s'"
  unfolding tally_ok_def
proof (intro allI impI)
  fix c t v fin assume "net_tally s' c t = Some (v, fin)"
  from step [OF this] show "\<exists>V \<subseteq> set fin. c \<notin> V \<and> V \<subseteq> {..<n} \<and> v = 1 + int (card V) \<and>
      (\<forall>j \<in> V. voted s' j t c)"
    by (rule disjE) (rule tally_mono [OF I _ mono], assumption+)
qed

lemma roles_ok_step:
  assumes I: "elect_inv n s"
    and mono: "\<And>c t v fin. net_tally s c t = Some (v, fin) \<Longrightarrow>
      \<exists>v' fin'. net_tally s' c t = Some (v', fin') \<and> v \<le> v'"
    and step: "\<And>i. i < n \<Longrightarrow> rf_state (net_nodes s' ! i) \<noteq> Follower \<Longrightarrow>
      rf_state (net_nodes s' ! i) = rf_state (net_nodes s ! i) \<and>
        rf_currentTerm (net_nodes s' ! i) = rf_currentTerm (net_nodes s ! i) \<or>
      rf_state (net_nodes s' ! i) = Candidate \<and>
        net_tally s' i (rf_currentTerm (net_nodes s' ! i)) \<noteq> None"
  shows "roles_ok n s'"
  unfolding roles_ok_def Let_def
proof (intro allI impI conjI)
  fix i assume i: "i < n"
  let ?t = "rf_currentTerm (net_nodes s' ! i)"
  show "net_tally s' i ?t \<noteq> None" if "rf_state (net_nodes s' ! i) = Candidate"
  proof (cases "net_tally s i ?t")
    case None
    with step [OF i] roles_okD(1) [OF I i] that show ?thesis by auto
  next
    case (Some a)
    with mono [of i ?t "fst a" "snd a"] show ?thesis by auto
  qed
  assume l: "rf_state (net_nodes s' ! i) = Leader"
  then have old: "rf_state (net_nodes s ! i) = Leader" "?t = rf_currentTerm (net_nodes s ! i)"
    using step [OF i] by simp_all
  show "n = 1 \<or> (\<exists>v fin. net_tally s' i ?t = Some (v, fin) \<and> v > int n div 2)"
  proof (cases "n = 1")
    case False
    from roles_okD(2) [OF I i old(1) this] obtain v fin where
      v: "net_tally s i ?t = Some (v, fin)" "v > int n div 2" unfolding old(2) by blast
    from mono [OF v(1)] v(2) show ?thesis by auto
  qed simp
qed

lemma moved_elect:
  assumes I: "elect_inv n s" and mv: "moved s i rf' s'" "length (net_nodes s) = n" and n: "n \<noteq> 1"
  shows "elect_inv n s'"
proof -
  let ?rf = "net_nodes s ! i"
  have m: "i < n" "net_nodes s' = (net_nodes s)[i := rf']" "net_vreqs s' = net_vreqs s"
    "net_vreps s' = net_vreps s" "net_tally s' = net_tally s" "vote_kept ?rf rf'"
    using mv n by (auto simp: moved_def)
  have vs: "voted s' = voted s" by (rule voted_cong [OF m(5,4)])
  have nodes: "net_nodes s' ! j = (if j = i then rf' else net_nodes s ! j)" if "j < n" for j
    using that m(1,2) mv(2) by simp
  have "requests_ok n s'" using I m by (simp add: elect_inv_def requests_ok_def)
  moreover have "votes_unique s'" using I vs by (simp add: elect_inv_def votes_unique_def)
  moreover have "tally_ok n s'" by (rule tally_ok_step [OF I]) (simp_all add: vs m(5))
  moreover have "votes_bind n s'"
    by (rule votes_bind_step [OF I]) (use m(6) nodes in \<open>auto simp: vs vote_kept_def\<close>)
  moreover have "roles_ok n s'"
    by (rule roles_ok_step [OF I]) (use m(5,6) nodes in \<open>auto simp: vote_kept_def\<close>)
  ultimately show ?thesis by (simp add: elect_inv_def)
qed

section \<open>Starting an election\<close>

lemma elect_elect:
  assumes I: "elect_inv n s" and n: "length (net_nodes s) = n"
    and i: "i < n" "startElection io (net_nodes s ! i) = Inr (rf', args)" "rf_me (net_nodes s ! i) = int i"
    and s': "s' = (put_node i rf' s)\<lparr>net_vreqs := net_vreqs s @ [args],
      net_tally := (net_tally s)(i := (net_tally s i)(rv_Term args \<mapsto> (1, [])))\<rparr>"
  shows "elect_inv n s'"
proof -
  let ?T = "rf_currentTerm (net_nodes s ! i) + 1"
  have e: "rf_state rf' = Candidate" "rf_currentTerm rf' = ?T" "rf_votedFor rf' = int i"
    "rv_Term args = ?T" "rv_CandidateId args = int i"
    using startElection_spec [OF i(2)] i(3) by simp_all
  have fresh: "\<not> voted s i ?T c" for c using voted_bound(1) [OF I i(1)] by fastforce
  from fresh [of i] have none: "net_tally s i ?T = None" unfolding voted_def by blast
  have tally: "net_tally s' c t = (if c = i \<and> t = ?T then Some (1, []) else net_tally s c t)" for c t
    by (simp add: s' e)
  have reps: "net_vreps s' = net_vreps s" "net_vreqs s' = net_vreqs s @ [args]" by (simp_all add: s')
  have v: "voted s' j t c \<longleftrightarrow> voted s j t c \<or> j = i \<and> t = ?T \<and> c = i" for j t c
    using none by (auto simp: voted_def tally reps)
  have nodes: "net_nodes s' ! j = (if j = i then rf' else net_nodes s ! j)" if "j < n" for j
    using that n i(1) by (simp add: s')
  have "requests_ok n s'"
    by (rule requests_ok_step [of n s]) (use I i(1) e in \<open>auto simp: elect_inv_def tally reps split: if_splits\<close>)
  moreover have "votes_bind n s'"
    by (rule votes_bind_step [OF I]) (use nodes e in \<open>auto simp: v\<close>)
  moreover have "votes_unique s'"
    using I fresh unfolding elect_inv_def votes_unique_def v by blast
  moreover have "tally_ok n s'"
    by (rule tally_ok_step [OF I]) (auto simp: v tally split: if_splits)
  moreover have "roles_ok n s'"
    by (rule roles_ok_step [OF I]) (use nodes e none in \<open>auto simp: tally\<close>)
  ultimately show ?thesis by (simp add: elect_inv_def)
qed

section \<open>Granting a vote\<close>

lemma elect_vote:
  assumes I: "elect_inv n s" and n: "length (net_nodes s) = n"
    and j: "j < n" "args \<in> set (net_vreqs s)" "rv_CandidateId args \<noteq> int j"
    and r: "RequestVote io (net_nodes s ! j) args = Inr (rf', r)"
    and s': "s' = (put_node j rf' s)\<lparr>net_vreps := net_vreps s @ [(j, args, r)]\<rparr>"
  shows "elect_inv n s'"
proof -
  let ?rf = "net_nodes s ! j"
  obtain cand where cand: "rv_CandidateId args = int cand"
    using I j(2) by (auto simp: elect_inv_def requests_ok_def)
  have st: "rf_currentTerm ?rf \<le> rf_currentTerm rf'"
    "rf_currentTerm rf' = rf_currentTerm ?rf \<Longrightarrow> rf_votedFor rf' = rf_votedFor ?rf \<or> rf_votedFor ?rf = -1"
    "rf_state rf' \<noteq> Follower \<Longrightarrow> rf_state rf' = rf_state ?rf \<and> rf_currentTerm rf' = rf_currentTerm ?rf"
    using RequestVote_state [OF r] by auto
  have v: "voted s' i t c \<longleftrightarrow> voted s i t c \<or> rvr_VoteGranted r \<and> i = j \<and> t = rv_Term args \<and> c = cand"
    for i t c using cand by (auto simp: voted_def s')
  have nodes: "net_nodes s' ! i = (if i = j then rf' else net_nodes s ! i)" if "i < n" for i
    using that n j(1) by (simp add: s')
  have clash: "c = cand" if "rvr_VoteGranted r" "voted s j (rv_Term args) c" for c
  proof -
    have "rf_currentTerm ?rf = rv_Term args"
      using voted_bound(1) [OF I j(1) that(2)] RequestVote_granted(4) [OF r that(1)] by simp
    then show ?thesis
      using voted_bound(2) [OF I j(1) that(2)] RequestVote_granted(5) [OF r that(1)] cand by simp
  qed
  have "requests_ok n s'"
    by (rule requests_ok_step [of n s]) (use I j in \<open>auto simp: elect_inv_def s'\<close>)
  moreover have "votes_bind n s'"
    by (rule votes_bind_step [OF I])
      (use nodes st(1,2) RequestVote_granted [OF r] cand in \<open>auto simp: v\<close>)
  moreover have "votes_unique s'"
    unfolding votes_unique_def v
    using I clash unfolding elect_inv_def votes_unique_def by blast
  moreover have "tally_ok n s'" by (rule tally_ok_step [OF I]) (simp add: v, simp add: s')
  moreover have "roles_ok n s'"
    by (rule roles_ok_step [OF I]) (simp add: s', use nodes st(3) in \<open>auto split: if_splits\<close>)
  ultimately show ?thesis by (simp add: elect_inv_def)
qed

section \<open>Counting a vote\<close>

lemma counted_votes:
  assumes I: "elect_inv n s" and old: "net_tally s c t = Some (v, fin)"
    and new: "v' = v \<or> v' = v + 1 \<and> voted s j t c \<and> j \<notin> set fin \<and> j \<noteq> c \<and> j < n"
  shows "\<exists>V \<subseteq> set (j # fin). c \<notin> V \<and> V \<subseteq> {..<n} \<and> v' = 1 + int (card V) \<and>
    (\<forall>k \<in> V. voted s k t c)"
proof -
  obtain V where V: "V \<subseteq> set fin" "c \<notin> V" "V \<subseteq> {..<n}" "v = 1 + int (card V)" "\<forall>k \<in> V. voted s k t c"
    using tallyD [OF I old] by blast
  from new show ?thesis
  proof
    assume "v' = v"
    with V show ?thesis by (intro exI [of _ V]) auto
  next
    assume n: "v' = v + 1 \<and> voted s j t c \<and> j \<notin> set fin \<and> j \<noteq> c \<and> j < n"
    have "finite V" using V(3) by (rule finite_subset) simp
    moreover have "j \<notin> V" using n V(1) by blast
    ultimately have "int (card (insert j V)) = 1 + int (card V)" by simp
    with V n show ?thesis by (intro exI [of _ "insert j V"]) auto
  qed
qed

lemma elect_count:
  assumes I: "elect_inv n s" and old: "net_tally s c t = Some (v, fin)"
    and new: "v' = v \<or> v' = v + 1 \<and> voted s j t c \<and> j \<notin> set fin \<and> j \<noteq> c \<and> j < n"
    and s': "s' = s\<lparr>net_tally := (net_tally s)(c := (net_tally s c)(t \<mapsto> (v', j # fin)))\<rparr>"
  shows "elect_inv n s'"
proof -
  have tally: "net_tally s' d u = (if d = c \<and> u = t then Some (v', j # fin) else net_tally s d u)" for d u
    by (simp add: s')
  have dm: "net_tally s' d u \<noteq> None \<longleftrightarrow> net_tally s d u \<noteq> None" for d u
    using old by (simp add: tally)
  have rest: "net_nodes s' = net_nodes s" "net_vreqs s' = net_vreqs s" "net_vreps s' = net_vreps s"
    by (simp_all add: s')
  have vs: "voted s' = voted s" by (intro ext) (simp add: voted_def dm rest del: not_None_eq)
  have "requests_ok n s'" using I unfolding elect_inv_def requests_ok_def rest dm by simp
  moreover have "votes_bind n s'" "votes_unique s'"
    using I unfolding elect_inv_def votes_bind_def votes_unique_def rest vs by simp_all
  moreover have "tally_ok n s'"
    by (rule tally_ok_step [OF I]) (use counted_votes [OF I old new] in \<open>auto simp: vs tally split: if_splits\<close>)
  moreover have "roles_ok n s'"
    by (rule roles_ok_step [OF I]) (use old new in \<open>auto simp: tally rest\<close>)
  ultimately show ?thesis by (simp add: elect_inv_def)
qed

text \<open>Winning: the role changes and nothing else the invariant reads.\<close>

lemma elect_won:
  assumes I: "elect_inv n s" and n: "length (net_nodes s) = n" "i < n"
    and tl: "net_tally s i (rf_currentTerm (net_nodes s ! i)) = Some (v, fin)" "v > int n div 2"
    and rf': "rf_currentTerm rf' = rf_currentTerm (net_nodes s ! i)"
      "rf_votedFor rf' = rf_votedFor (net_nodes s ! i)" "rf_state rf' = Leader"
  shows "elect_inv n (put_node i rf' s)"
proof -
  let ?s' = "put_node i rf' s"
  have vs: "voted ?s' = voted s" by (rule voted_cong) simp_all
  have nodes: "rf_currentTerm (net_nodes ?s' ! j) = rf_currentTerm (net_nodes s ! j)"
    "rf_votedFor (net_nodes ?s' ! j) = rf_votedFor (net_nodes s ! j)" if "j < n" for j
    using that n rf' by (cases "j = i"; simp)+
  have "requests_ok n ?s'" "votes_unique ?s'" "tally_ok n ?s'"
    using I by (simp_all add: elect_inv_def requests_ok_def votes_unique_def tally_ok_def vs)
  moreover have "votes_bind n ?s'"
    using I nodes unfolding elect_inv_def votes_bind_def vs by simp
  moreover have "roles_ok n ?s'"
    unfolding roles_ok_def Let_def
  proof (intro allI impI)
    fix j assume j: "j < n"
    show "(rf_state (net_nodes ?s' ! j) = Candidate \<longrightarrow> net_tally ?s' j (rf_currentTerm (net_nodes ?s' ! j)) \<noteq> None) \<and>
        (rf_state (net_nodes ?s' ! j) = Leader \<longrightarrow> n = 1 \<or>
           (\<exists>v fin. net_tally ?s' j (rf_currentTerm (net_nodes ?s' ! j)) = Some (v, fin) \<and> v > int n div 2))"
    proof (cases "j = i")
      case True
      with tl rf' n show ?thesis by simp
    next
      case False
      then have "net_nodes ?s' ! j = net_nodes s ! j" by simp
      with roles_okD [OF I j] show ?thesis by auto
    qed
  qed
  ultimately show ?thesis by (simp add: elect_inv_def)
qed

lemma elect_reply:
  assumes I: "elect_inv n s" and n: "length (net_nodes s) = n" "n \<noteq> 1"
    and me: "\<And>i. i < n \<Longrightarrow> rf_peers (net_nodes s ! i) = n"
    and act: "vote_reply_act io k s = Some s'"
  shows "elect_inv n s'"
proof -
  obtain j args r where k: "k < length (net_vreps s)" "net_vreps s ! k = (j, args, r)"
    using act by (cases "net_vreps s ! k") (auto simp: vote_reply_act_def split: if_splits)
  let ?c = "nat (rv_CandidateId args)" and ?t = "rv_Term args"
  obtain v fin where tl: "net_tally s ?c ?t = Some (v, fin)" "j \<notin> set fin"
    using act k by (auto simp: vote_reply_act_def Let_def split: option.splits if_splits)
  obtain rf' v' where h: "handleVoteReply io (net_nodes s ! ?c) args v (Some r) = (rf', v')" by fastforce
  let ?s1 = "s\<lparr>net_tally := (net_tally s)(?c := (net_tally s ?c)(?t \<mapsto> (v', j # fin)))\<rparr>"
  have c: "?c < n" and s': "s' = put_node ?c rf' ?s1"
    using act k tl h n(1) by (auto simp: vote_reply_act_def Let_def put_node_def split: if_splits)
  have mem: "(j, args, r) \<in> set (net_vreps s)" using k by (metis nth_mem)
  then have jn: "j < n" "args \<in> set (net_vreqs s)" "rv_CandidateId args \<noteq> int j"
    using I by (auto simp: elect_inv_def requests_ok_def)
  then have cand: "rv_CandidateId args = int ?c"
    using I unfolding elect_inv_def requests_ok_def by fastforce
  have vote: "voted s j ?t ?c" if "rvr_VoteGranted r"
    using mem that cand unfolding voted_def by blast
  show ?thesis
  proof (cases rule: handleVoteReply_cases [OF h])
    case 1
    have "elect_inv n ?s1" by (rule elect_count [OF I tl(1) _ refl]) (simp add: 1)
    moreover have "moved ?s1 ?c rf' s'" using c n 1 by (auto simp: moved_def s')
    ultimately show ?thesis using n by (auto intro: moved_elect)
  next
    case 2
    have "elect_inv n ?s1"
      by (rule elect_count [OF I tl(1) _ refl]) (use 2 vote jn cand tl(2) in auto)
    moreover have "s' = ?s1" using 2 c n by (simp add: s' put_node_def)
    ultimately show ?thesis by simp
  next
    case 3
    have "elect_inv n ?s1"
      by (rule elect_count [OF I tl(1) _ refl]) (use 3 vote jn cand tl(2) in auto)
    then show ?thesis
      unfolding s' by (rule elect_won [where v = v' and fin = "j # fin"]) (use 3 c n me in auto)
  qed
qed

lemma reply_nodes:
  assumes "vote_reply_act io k s = Some s'"
  shows "\<exists>c args votes r rf' votes'. c < length (net_nodes s) \<and> net_nodes s' = (net_nodes s)[c := rf'] \<and>
    net_areqs s' = net_areqs s \<and> handleVoteReply io (net_nodes s ! c) args votes (Some r) = (rf', votes')"
proof -
  obtain j args r where k: "net_vreps s ! k = (j, args, r)" by (cases "net_vreps s ! k")
  let ?c = "nat (rv_CandidateId args)"
  obtain votes fin where tl: "net_tally s ?c (rv_Term args) = Some (votes, fin)"
    using assms k by (auto simp: vote_reply_act_def Let_def split: option.splits if_splits)
  obtain rf' votes' where h: "handleVoteReply io (net_nodes s ! ?c) args votes (Some r) = (rf', votes')"
    by fastforce
  have "?c < length (net_nodes s)" "net_nodes s' = (net_nodes s)[?c := rf']" "net_areqs s' = net_areqs s"
    using assms k tl h by (auto simp: vote_reply_act_def Let_def split: if_splits)
  with h show ?thesis by blast
qed

section \<open>Reachable clusters\<close>

lemma good_net_update:
  assumes "good_net io pinv n s" "net_nodes s' = (net_nodes s)[i := rf']" "good_node io pinv n i rf'"
    and "\<forall>(j, a) \<in> set (net_areqs s'). (j, a) \<in> set (net_areqs s) \<or> append_ok a"
  shows "good_net io pinv n s'"
proof -
  have "good_node io pinv n k (net_nodes s' ! k)" if "k < n" for k
    using assms(1-3) that by (cases "k = i") (simp_all add: good_net_def)
  moreover have "append_ok a" if "(j, a) \<in> set (net_areqs s')" for j a
    using assms(1,4) that by (auto simp: good_net_def)
  ultimately show ?thesis using assms(1,2) by (auto simp: good_net_def)
qed

definition net_inv :: "'p RaftIO \<Rightarrow> ('p \<Rightarrow> bool) \<Rightarrow> nat \<Rightarrow> 'p net \<Rightarrow> bool" where
  "net_inv io pinv n s \<longleftrightarrow> good_net io pinv n s \<and> (n \<noteq> 1 \<longrightarrow> elect_inv n s)"

context raft_store
begin

lemma net_step_cases:
  assumes "good_net io pinv n s" "net_step io a s = Some s'"
  shows "(\<exists>i. elect_act io i s = Some s') \<or> (\<exists>j k. vote_act io j k s = Some s') \<or>
    (\<exists>k. vote_reply_act io k s = Some s') \<or> (\<exists>i rf'. moved s i rf' s' \<and> good_node io pinv n i rf')"
proof (cases a)
  case (LeadAlone i)
  with assms alone_move show ?thesis by (auto split: if_splits)
next
  case (AppendReply k)
  obtain j b r where k: "net_areps s ! k = (j, b, r)" by (cases "net_areps s ! k")
  have "may_panic (nat (ae_LeaderId b)) (\<lambda>rf. replicate_append_reply io rf j b (Some r)) s = Some s'"
    using assms(2) AppendReply k by (simp add: append_reply_act_def split: if_splits)
  from may_keep_move [OF assms(1) may_keep_ops(3) this] show ?thesis by blast
next
  case (SnapshotReply k)
  obtain j b r where k: "net_sreps s ! k = (j, b, r)" by (cases "net_sreps s ! k")
  have "may_panic (nat (is_LeaderID b)) (\<lambda>rf. replicate_snapshot_reply io rf j (is_Term b) (Some r)) s = Some s'"
    using assms(2) SnapshotReply k by (simp add: snapshot_reply_act_def split: if_splits)
  from may_keep_move [OF assms(1) may_keep_ops(4) this] show ?thesis by blast
qed (use assms in \<open>simp; blast intro: keeps_move [OF assms(1) keeps_ops(1)] keeps_move [OF assms(1) keeps_ops(2)]
    keeps_move [OF assms(1) keeps_ops(3)] keeps_move [OF assms(1) keeps_ops(4)]
    keeps_move [OF assms(1) keeps_ops(5)] keeps_move [OF assms(1) keeps_ops(6)]
    keeps_move [OF assms(1) keeps_ops(7)] keeps_move [OF assms(1) keeps_ops(8)]
    may_keep_move [OF assms(1) may_keep_ops(1)] may_keep_move [OF assms(1) may_keep_ops(2)]
    may_keep_move [OF assms(1) may_keep_ops(5)] replicate_move append_move snapshot_move apply_move
    restart_move\<close>)+

lemma net_invD:
  assumes "net_inv io pinv n s"
  shows "good_net io pinv n s" "length (net_nodes s) = n" "n \<noteq> 1 \<Longrightarrow> elect_inv n s"
    "i < n \<Longrightarrow> good_node io pinv n i (net_nodes s ! i)"
  using assms by (auto simp: net_inv_def good_net_def)

lemma net_inv_update:
  assumes "net_inv io pinv n s" "net_nodes s' = (net_nodes s)[i := rf']" "good_node io pinv n i rf'"
    and "net_areqs s' = net_areqs s" "n \<noteq> 1 \<Longrightarrow> elect_inv n s'"
  shows "net_inv io pinv n s'"
  unfolding net_inv_def
  using good_net_update [OF net_invD(1) [OF assms(1)] assms(2,3)] assms(4,5) by auto

lemma elect_act_inv:
  assumes inv: "net_inv io pinv n s" and act: "elect_act io i s = Some s'"
  shows "net_inv io pinv n s'"
proof -
  note n = net_invD(2) [OF inv] and node = net_invD(4) [OF inv]
  from act obtain rf' args where i: "i < n" "startElection io (net_nodes s ! i) = Inr (rf', args)"
    and s': "s' = (put_node i rf' s)\<lparr>net_vreqs := net_vreqs s @ [args],
      net_tally := (net_tally s)(i := (net_tally s i)(rv_Term args \<mapsto> (1, [])))\<rparr>"
    using n by (auto simp: elect_act_def split: if_splits sum.splits)
  have "good_node io pinv n i rf'"
    using node [OF i(1)] startElection_spec [OF i(2)] startElection_inv [OF _ i(2)]
      startElection_durable [OF _ i(2)] by (simp add: good_node_def)
  moreover have "elect_inv n s'" if "n \<noteq> 1"
    by (rule elect_elect [OF net_invD(3) [OF inv that] n i _ s'])
      (use node [OF i(1)] in \<open>simp add: good_node_def\<close>)
  ultimately show ?thesis using net_inv_update [OF inv, of s' i rf'] s' by simp
qed

lemma vote_act_inv:
  assumes inv: "net_inv io pinv n s" and act: "vote_act io j k s = Some s'"
  shows "net_inv io pinv n s'"
proof -
  note n = net_invD(2) [OF inv] and node = net_invD(4) [OF inv]
  let ?args = "net_vreqs s ! k"
  from act obtain rf' r where j: "j < n" "k < length (net_vreqs s)" "rv_CandidateId ?args \<noteq> int j"
    "RequestVote io (net_nodes s ! j) ?args = Inr (rf', r)"
    and s': "s' = (put_node j rf' s)\<lparr>net_vreps := net_vreps s @ [(j, ?args, r)]\<rparr>"
    using n by (auto simp: vote_act_def split: if_splits sum.splits)
  have "good_node io pinv n j rf'"
    using node [OF j(1)] RequestVote_state [OF j(4)] RequestVote_inv [OF _ j(4)]
      RequestVote_durable [OF _ j(4)] by (simp add: good_node_def)
  moreover have "elect_inv n s'" if "n \<noteq> 1"
    by (rule elect_vote [OF net_invD(3) [OF inv that] n j(1) _ j(3,4) s']) (use j(2) in simp)
  ultimately show ?thesis using net_inv_update [OF inv, of s' j rf'] s' by simp
qed

lemma vote_reply_act_inv:
  assumes inv: "net_inv io pinv n s" and act: "vote_reply_act io k s = Some s'"
  shows "net_inv io pinv n s'"
proof -
  note n = net_invD(2) [OF inv] and node = net_invD(4) [OF inv]
  from reply_nodes [OF act] obtain c args votes r rf' votes' where c: "c < n"
    and s': "net_nodes s' = (net_nodes s)[c := rf']" "net_areqs s' = net_areqs s"
    and h: "handleVoteReply io (net_nodes s ! c) args votes (Some r) = (rf', votes')"
    using n by blast
  have "rf_me rf' = rf_me (net_nodes s ! c)" "rf_peers rf' = rf_peers (net_nodes s ! c)"
    by (cases rule: handleVoteReply_cases [OF h]; simp add: vote_kept_def)+
  then have "good_node io pinv n c rf'"
    using node [OF c] handleVoteReply_inv [OF _ h] handleVoteReply_durable [OF _ h]
    by (simp add: good_node_def)
  moreover have "elect_inv n s'" if "n \<noteq> 1"
    by (rule elect_reply [OF net_invD(3) [OF inv that] n that _ act])
      (use node in \<open>simp add: good_node_def\<close>)
  ultimately show ?thesis by (intro net_inv_update [OF inv s'(1) _ s'(2)])
qed

lemma net_inv_step:
  assumes inv: "net_inv io pinv n s" and step: "net_step io a s = Some s'"
  shows "net_inv io pinv n s'"
  using net_step_cases [OF net_invD(1) [OF inv] step]
proof (elim disjE exE conjE)
  fix i rf' assume m: "moved s i rf' s'" "good_node io pinv n i rf'"
  have "good_net io pinv n s'"
    by (rule good_net_update [OF net_invD(1) [OF inv] _ m(2)]) (use m(1) in \<open>simp_all add: moved_def\<close>)
  moreover have "elect_inv n s'" if "n \<noteq> 1"
    by (rule moved_elect [OF net_invD(3) [OF inv that] m(1) net_invD(2) [OF inv] that])
  ultimately show ?thesis by (simp add: net_inv_def)
qed (rule elect_act_inv [OF inv] vote_act_inv [OF inv] vote_reply_act_inv [OF inv], assumption)+

lemma net_inv_run: "net_inv io pinv n s \<Longrightarrow> net_run io acts s = Some s' \<Longrightarrow> net_inv io pinv n s'"
  by (induction acts arbitrary: s) (auto split: option.splits intro: net_inv_step)

lemma Make_blank:
  assumes "blank io pinv p"
  shows "\<exists>rf. Make io n (int i) p = Inr rf \<and> good_node io pinv n i rf \<and> (n \<noteq> 1 \<longrightarrow> 0 < n \<longrightarrow> rf_state rf = Follower)"
  using assms
  by (auto simp: Make_def readPersist_def blank_def Let_def good_node_def durable_def raft_inv_def
      initLeaderProgressLocked_def)

lemma boot_nodes_good:
  assumes "\<forall>p \<in> set ps. blank io pinv p" "boot_nodes io n i ps = Some rfs"
  shows "length rfs = length ps \<and> (\<forall>k < length ps. good_node io pinv n (i + k) (rfs ! k) \<and>
    (n \<noteq> 1 \<longrightarrow> 0 < n \<longrightarrow> rf_state (rfs ! k) = Follower))"
  using assms
proof (induction ps arbitrary: i rfs)
  case (Cons p ps)
  from Make_blank [of p n i] Cons.prems(1) obtain rf where rf: "Make io n (int i) p = Inr rf"
    "good_node io pinv n i rf" "n \<noteq> 1 \<longrightarrow> 0 < n \<longrightarrow> rf_state rf = Follower" by auto
  with Cons.prems(2) obtain rfs' where rfs': "boot_nodes io n (Suc i) ps = Some rfs'" "rfs = rf # rfs'"
    by (auto split: option.splits)
  have IH: "length rfs' = length ps" "k < length ps \<Longrightarrow> good_node io pinv n (Suc i + k) (rfs' ! k) \<and>
      (n \<noteq> 1 \<longrightarrow> 0 < n \<longrightarrow> rf_state (rfs' ! k) = Follower)" for k
    using Cons.IH [OF _ rfs'(1)] Cons.prems(1) by auto
  show ?case
    unfolding rfs'(2)
  proof (intro conjI allI impI)
    fix k assume "k < length (p # ps)"
    then show "good_node io pinv n (i + k) ((rf # rfs') ! k)"
      using rf(2) IH(2) [of "k - 1"] by (cases k) auto
    assume "n \<noteq> 1" "0 < n"
    with \<open>k < length (p # ps)\<close> show "rf_state ((rf # rfs') ! k) = Follower"
      using rf(3) IH(2) [of "k - 1"] by (cases k) auto
  qed (simp add: IH(1))
qed simp

lemma net_inv_init:
  assumes "\<forall>p \<in> set ps. blank io pinv p" "net_init io ps = Some s"
  shows "net_inv io pinv (length ps) s"
proof -
  obtain rfs where rfs: "boot_nodes io (length ps) 0 ps = Some rfs" and s: "net_nodes s = rfs"
    "net_vreqs s = []" "net_vreps s = []" "net_tally s = (\<lambda>_ _. None)" "net_areqs s = []"
    using assms(2) by (auto simp: net_init_def split: option.splits)
  note b = boot_nodes_good [OF assms(1) rfs]
  have "good_net io pinv (length ps) s" using b s by (simp add: good_net_def)
  moreover have v: "\<not> voted s j t c" for j t c using s by (simp add: voted_def)
  have "elect_inv (length ps) s" if "length ps \<noteq> 1"
    using b s v that
    by (auto simp: elect_inv_def requests_ok_def votes_bind_def votes_unique_def tally_ok_def roles_ok_def Let_def)
  ultimately show ?thesis by (simp add: net_inv_def)
qed

lemma reachable_inv:
  "\<forall>p \<in> set ps. blank io pinv p \<Longrightarrow> reachable io ps s \<Longrightarrow> net_inv io pinv (length ps) s"
  by (auto simp: reachable_def intro: net_inv_run net_inv_init)

end

end
