(* ===== verification/RaftLead.thy ===== *)
theory RaftLead
  imports RaftSpec RaftElect
begin

text \<open>
  Two facts about every step of a cluster: a node that stays leader in its term only adds
  entries at the end of its log (a snapshot may drop a prefix), and nothing but a waiting
  reader or a restart clears a pending read.
\<close>

section \<open>One node\<close>

definition log_grows :: "'p Raft \<Rightarrow> 'p Raft \<Rightarrow> bool" where
  "log_grows rf rf' \<longleftrightarrow>
     rf_lastIncludeIndex rf \<le> rf_lastIncludeIndex rf' \<and> lastLogIndex rf \<le> lastLogIndex rf' \<and>
     (\<forall>k. rf_lastIncludeIndex rf' < k \<longrightarrow> k \<le> lastLogIndex rf \<longrightarrow> entry_at rf' k = entry_at rf k)"

definition leads_on :: "'p Raft \<Rightarrow> 'p Raft \<Rightarrow> bool" where
  "leads_on rf rf' \<longleftrightarrow>
     (rf_state rf = Leader \<longrightarrow> rf_state rf' = Leader \<longrightarrow> rf_currentTerm rf' = rf_currentTerm rf \<longrightarrow>
        log_grows rf rf')"

definition steady :: "'p Raft \<Rightarrow> 'p Raft \<Rightarrow> bool" where
  "steady rf rf' \<longleftrightarrow> (rf_pendingReadCh rf \<noteq> None \<longrightarrow> rf_pendingReadCh rf' \<noteq> None) \<and> leads_on rf rf'"

text \<open>Most sections do not touch the log.\<close>

definition same_log :: "'p Raft \<Rightarrow> 'p Raft \<Rightarrow> bool" where
  "same_log rf rf' \<longleftrightarrow> rf_log rf' = rf_log rf \<and> rf_lastIncludeIndex rf' = rf_lastIncludeIndex rf"

lemma same_log_grows: "same_log rf rf' \<Longrightarrow> log_grows rf rf'"
  by (simp add: same_log_def log_grows_def lastLogIndex_def entry_at_def)

lemma log_grows_refl [simp]: "log_grows rf rf"
  by (rule same_log_grows) (simp add: same_log_def)

lemma steadyI:
  "same_log rf rf' \<Longrightarrow> (rf_pendingReadCh rf \<noteq> None \<Longrightarrow> rf_pendingReadCh rf' \<noteq> None) \<Longrightarrow> steady rf rf'"
  by (auto simp: steady_def leads_on_def same_log_grows)

lemma steady_refl [simp]: "steady rf rf"
  by (rule steadyI) (simp_all add: same_log_def)

lemma RequestVote_steady: "RequestVote io rf args = Inr (rf', r) \<Longrightarrow> steady rf rf'"
  by (rule steadyI) (auto simp: RequestVote_def Let_def same_log_def split: if_splits)

lemma startElection_steady: "startElection io rf = Inr (rf', args) \<Longrightarrow> steady rf rf'"
  by (rule steadyI) (auto simp: startElection_def Let_def same_log_def split: if_splits)

lemma startElection_single_steady: "steady rf (startElection_single rf)"
  by (rule steadyI) (auto simp: startElection_single_def initLeaderProgressLocked_def same_log_def)

lemma handleVoteReply_steady: "handleVoteReply io rf args v call = (rf', v') \<Longrightarrow> steady rf rf'"
  by (rule steadyI)
    (auto simp: handleVoteReply_def Let_def initLeaderProgressLocked_def same_log_def
      split: if_splits option.splits)

lemma AppendEntries_steady: "steady rf (fst (AppendEntries io rf args))"
proof (cases rule: AppendEntries_cases [of args rf io])
  case refused
  then show ?thesis by (auto intro!: steadyI simp: same_log_def)
next
  case accepted
  then show ?thesis by (simp add: steady_def leads_on_def)
qed simp

lemma commit_steady: "updateCommiIndex rf = Inr rf' \<Longrightarrow> steady rf rf'"
  unfolding updateCommiIndex_def by (drule commit_loop_frame) (auto intro!: steadyI simp: same_log_def)

lemma Start_steady: "steady rf (fst (Start io rf c))"
proof (cases "rf_state rf = Leader")
  case True
  have log: "rf_log (fst (Start io rf c)) =
      rf_log rf @ [\<lparr>e_Term = rf_currentTerm rf, e_Command = c, e_Index = lastLogIndex rf + 1\<rparr>]"
    and inc: "rf_lastIncludeIndex (fst (Start io rf c)) = rf_lastIncludeIndex rf"
    and pend: "rf_pendingReadCh (fst (Start io rf c)) = rf_pendingReadCh rf"
    using True by (simp_all add: Start_def Let_def)
  have "log_grows rf (fst (Start io rf c))"
    by (auto simp: log_grows_def log inc lastLogIndex_def entry_at_def nth_append)
  with pend show ?thesis by (simp add: steady_def leads_on_def)
qed (simp add: Start_def)

lemma logUpdate_steady:
  "steady rf (fst (logUpdate_check rf))"
  "logUpdate_single rf = Inr rf' \<Longrightarrow> steady rf rf'"
  "logUpdate_self rf i = Inr rf' \<Longrightarrow> steady rf rf'"
proof -
  show "steady rf (fst (logUpdate_check rf))"
    by (rule steadyI) (simp_all add: logUpdate_check_def Let_def same_log_def)
  show "logUpdate_single rf = Inr rf' \<Longrightarrow> steady rf rf'"
    by (auto simp: logUpdate_single_def split: if_splits intro: commit_steady)
  show "logUpdate_self rf i = Inr rf' \<Longrightarrow> steady rf rf'"
    by (rule steadyI) (auto simp: logUpdate_self_def Let_def same_log_def split: if_splits)
qed

lemma replicate_prepare_steady:
  assumes "replicate_prepare rf j = Inr (rf', q)"
  shows "steady rf rf'"
proof (cases "rf_state rf = Leader")
  case True
  with assms obtain rf1 where rf1: "updateCommiIndex rf = Inr rf1"
      "rf' = rf1 \<or> rf' = rf1\<lparr>rf_nextIndex := (rf_nextIndex rf1)[j := rf_lastIncludeIndex rf1 + 1]\<rparr>"
    by (auto simp: replicate_prepare_def Let_def split: if_splits sum.splits)
  from rf1(1) obtain M where "rf1 = rf\<lparr>rf_commitIndex := M\<rparr>"
    unfolding updateCommiIndex_def by (blast dest: commit_loop_frame)
  with rf1(2) show ?thesis by (auto intro!: steadyI simp: same_log_def)
qed (use assms in \<open>auto simp: replicate_prepare_def same_log_def intro!: steadyI\<close>)

lemma read_quorum_pending: "rf_pendingReadCh (read_quorum rf) = None \<longleftrightarrow> rf_pendingReadCh rf = None"
  by (auto simp: read_quorum_def Let_def split: option.splits)

lemma reply_steady:
  "replicate_snapshot_reply io rf j t scall = Inr rf' \<Longrightarrow> steady rf rf'"
  "replicate_append_reply io rf j args call = Inr rf' \<Longrightarrow> steady rf rf'"
proof -
  show "replicate_snapshot_reply io rf j t scall = Inr rf' \<Longrightarrow> steady rf rf'"
    by (rule steadyI) (auto simp: replicate_snapshot_reply_def Let_def same_log_def split: if_splits option.splits)
  assume h: "replicate_append_reply io rf j args call = Inr rf'"
  then have "same_log rf rf'"
    by (auto simp: replicate_append_reply_def Let_def same_log_def split: if_splits option.splits)
  moreover have "(rf_pendingReadCh rf' = None) = (rf_pendingReadCh rf = None)"
    using h by (auto simp only: replicate_append_reply_def Let_def split: if_splits option.splits)
      (simp_all add: read_quorum_pending)
  ultimately show "steady rf rf'" by (intro steadyI) simp_all
qed

lemma Snapshot_steady:
  assumes "raft_inv rf" "Snapshot io rf x d = Inr rf'"
  shows "steady rf rf'"
proof (cases "x \<le> rf_lastIncludeIndex rf")
  case False
  let ?t = "e_Term (rf_log rf ! nat (x - rf_lastIncludeIndex rf))"
  let ?rf1 = "take_snapshot rf x ?t d"
  from False assms(2) obtain rf2 where rf2: "rf2 = ?rf1 \<or> raise_progress ?rf1 [0..<rf_peers ?rf1] = Inr rf2"
    "rf' = persist io rf2"
    by (auto simp: Snapshot_def Let_def split: if_splits sum.splits)
  from rf2(1) have same: "same_log ?rf1 rf2" "rf_pendingReadCh rf2 = rf_pendingReadCh ?rf1"
    by (auto simp: same_log_def dest!: raise_progress_only)
  have "log_grows rf ?rf1"
    using take_snapshot_entries [OF assms(1), where x = x and t = ?t and d = d] False
    by (simp add: log_grows_def) (simp add: take_snapshot_def)
  with same rf2(2) have "log_grows rf rf'"
    by (simp add: log_grows_def same_log_def lastLogIndex_def entry_at_def)
  then show ?thesis using same(2) rf2(2) by (simp add: steady_def leads_on_def take_snapshot_def)
qed (use assms in \<open>simp add: Snapshot_def\<close>)

lemma InstallSnapshot_steady: "steady rf (fst (InstallSnapshot io rf args))"
  by (simp add: InstallSnapshot_def Let_def take_snapshot_def steady_def leads_on_def)

lemma applier_step_steady: "applier_step rf = (rf', ms) \<Longrightarrow> steady rf rf'"
  by (auto simp: applier_step_def same_log_def split: if_splits dest!: apply_entries_frame intro!: steadyI)

lemma other_steady:
  "steady rf (fst (ReadIndex_begin rf))" "steady rf (fst (ticker_step rf))" "steady rf (Kill rf)"
  "steady rf (rf\<lparr>rf_electionTimer := tm\<rparr>)"
proof -
  show "steady rf (fst (ReadIndex_begin rf))"
    by (rule steadyI) (simp_all add: ReadIndex_begin_def Let_def same_log_def)
  show "steady rf (fst (ticker_step rf))"
    by (rule steadyI) (auto simp: ticker_step_def same_log_def split: State.splits option.splits)
qed (simp_all add: Kill_def same_log_def steadyI)

lemma reader_leads_on:
  "leads_on rf (fst (ReadIndex_confirmed rf q))" "leads_on rf (fst (ReadIndex_timeout rf))"
  by (auto simp: ReadIndex_confirmed_def ReadIndex_timeout_def Let_def leads_on_def same_log_def
      split: prod.splits intro!: same_log_grows)

section \<open>All nodes\<close>

definition reader_action :: "nat \<Rightarrow> action \<Rightarrow> bool" where
  "reader_action i a \<longleftrightarrow> (\<exists>x t. a = ReadConfirmed i x t) \<or> a = ReadTimeout i \<or> a = Restart i"

lemma put_all:
  "i < length (net_nodes s) \<Longrightarrow> R (net_nodes s ! i) rf' \<Longrightarrow> (\<And>rf. R rf rf) \<Longrightarrow>
     net_nodes s' = (net_nodes s)[i := rf'] \<Longrightarrow> k < length (net_nodes s) \<Longrightarrow>
     R (net_nodes s ! k) (net_nodes s' ! k)"
  by (cases "k = i") simp_all

lemma quiet_all:
  assumes "quiet i f s = Some s'" "\<And>rf. R rf (f rf)" "\<And>rf. R rf rf" "k < length (net_nodes s)"
  shows "R (net_nodes s ! k) (net_nodes s' ! k)"
proof -
  have "i < length (net_nodes s)" "s' = put_node i (f (net_nodes s ! i)) s"
    using quiet_Some [OF assms(1)] by auto
  then show ?thesis by (cases "k = i") (simp_all add: assms(2,3))
qed

lemma panic_all:
  assumes "may_panic i f s = Some s'" "\<And>rf'. f (net_nodes s ! i) = Inr rf' \<Longrightarrow> R (net_nodes s ! i) rf'"
    "\<And>rf. R rf rf" "k < length (net_nodes s)"
  shows "R (net_nodes s ! k) (net_nodes s' ! k)"
proof -
  obtain rf' where "i < length (net_nodes s)" "f (net_nodes s ! i) = Inr rf'" "s' = put_node i rf' s"
    using may_panic_Some [OF assms(1)] by auto
  then show ?thesis by (cases "k = i") (simp_all add: assms(2,3))
qed

text \<open>The sections with messages change one node by their handler.\<close>

definition one_steady :: "'p net \<Rightarrow> 'p net \<Rightarrow> bool" where
  "one_steady s s' \<longleftrightarrow> (\<exists>i rf'. i < length (net_nodes s) \<and> net_nodes s' = (net_nodes s)[i := rf'] \<and>
     steady (net_nodes s ! i) rf')"

lemma one_steadyI:
  "i < length (net_nodes s) \<Longrightarrow> net_nodes s' = (net_nodes s)[i := rf'] \<Longrightarrow> steady (net_nodes s ! i) rf' \<Longrightarrow>
     one_steady s s'"
  by (auto simp: one_steady_def)

lemma act_nodes:
  "elect_act io i s = Some s' \<Longrightarrow> one_steady s s'"
  "vote_act io j m s = Some s' \<Longrightarrow> one_steady s s'"
  "vote_reply_act io m s = Some s' \<Longrightarrow> one_steady s s'"
  "replicate_act i j s = Some s' \<Longrightarrow> one_steady s s'"
  "append_act io m s = Some s' \<Longrightarrow> one_steady s s'"
  "snapshot_act io m s = Some s' \<Longrightarrow> one_steady s s'"
  "apply_act i s = Some s' \<Longrightarrow> one_steady s s'"
proof -
  show "elect_act io i s = Some s' \<Longrightarrow> one_steady s s'"
    by (auto simp: elect_act_def split: if_splits sum.splits intro: startElection_steady intro!: one_steadyI)
  show "vote_act io j m s = Some s' \<Longrightarrow> one_steady s s'"
    by (auto simp: vote_act_def split: if_splits sum.splits intro: RequestVote_steady intro!: one_steadyI)
  show "vote_reply_act io m s = Some s' \<Longrightarrow> one_steady s s'"
    using reply_nodes handleVoteReply_steady one_steadyI by blast
  show "replicate_act i j s = Some s' \<Longrightarrow> one_steady s s'"
    by (auto simp: replicate_act_def split: if_splits sum.splits send_request.splits
        intro: replicate_prepare_steady intro!: one_steadyI)
  show "append_act io m s = Some s' \<Longrightarrow> one_steady s s'"
    using AppendEntries_steady [of "net_nodes s ! fst (net_areqs s ! m)" io "snd (net_areqs s ! m)"]
    by (auto simp: append_act_def split: if_splits prod.splits intro!: one_steadyI)
  show "snapshot_act io m s = Some s' \<Longrightarrow> one_steady s s'"
    using InstallSnapshot_steady [of "net_nodes s ! fst (net_sreqs s ! m)" io "snd (net_sreqs s ! m)"]
    by (auto simp: snapshot_act_def split: if_splits prod.splits intro!: one_steadyI)
  show "apply_act i s = Some s' \<Longrightarrow> one_steady s s'"
    by (auto simp: apply_act_def split: if_splits prod.splits intro: applier_step_steady intro!: one_steadyI)
qed

lemma reply_acts_steady:
  "append_reply_act io m s = Some s' \<Longrightarrow> i < length (net_nodes s) \<Longrightarrow>
     steady (net_nodes s ! i) (net_nodes s' ! i)"
  "snapshot_reply_act io m s = Some s' \<Longrightarrow> i < length (net_nodes s) \<Longrightarrow>
     steady (net_nodes s ! i) (net_nodes s' ! i)"
proof -
  assume l: "i < length (net_nodes s)"
  show "steady (net_nodes s ! i) (net_nodes s' ! i)" if "append_reply_act io m s = Some s'"
    by (cases "net_areps s ! m", rule panic_all [where R = steady, OF _ reply_steady(2)])
      (use that l in \<open>simp_all add: append_reply_act_def split: if_splits\<close>)
  show "steady (net_nodes s ! i) (net_nodes s' ! i)" if "snapshot_reply_act io m s = Some s'"
    by (cases "net_sreps s ! m", rule panic_all [where R = steady, OF _ reply_steady(1)])
      (use that l in \<open>simp_all add: snapshot_reply_act_def split: if_splits\<close>)
qed

text \<open>Every step of a good cluster, and the runs in which node \<open>i\<close> has no waiting reader.\<close>

context raft_store
begin

lemma net_step_steady:
  assumes "good_net io pinv n s" "net_step io a s = Some s'" "i < n" "\<not> reader_action i a"
  shows "steady (net_nodes s ! i) (net_nodes s' ! i)"
proof -
  have l: "i < length (net_nodes s)" using assms(1,3) by (simp add: good_net_def)
  have act: "steady (net_nodes s ! i) (net_nodes s' ! i)"
    if "one_steady s s'"
    using that unfolding one_steady_def by (elim exE conjE) (rule put_all [where R = steady], auto simp: l)
  have other: "steady (net_nodes s ! i) (net_nodes s' ! i)"
    if "may_panic k f s = Some s'" "k \<noteq> i" for k f
    using may_panic_Some [OF that(1)] that(2) by auto
  show ?thesis
  proof (cases a)
    case (AppendReply m)
    with assms(2) l show ?thesis by (intro reply_acts_steady(1)) simp_all
  next
    case (SnapshotReply m)
    with assms(2) l show ?thesis by (intro reply_acts_steady(2)) simp_all
  next
    case (Compact k x d)
    then have c: "may_panic k (\<lambda>rf. Snapshot io rf x d) s = Some s'" using assms(2) by simp
    have "raft_inv (net_nodes s ! k)"
      using may_panic_Some [OF c] assms(1) by (auto simp: good_net_def good_node_def)
    with c l show ?thesis by (intro panic_all [where R = steady, OF c Snapshot_steady]) auto
  next
    case (Restart k)
    then have "k \<noteq> i" using assms(4) by (auto simp: reader_action_def)
    from Restart assms(2) obtain s1 where "may_panic k (\<lambda>rf. Make io (length (net_nodes s)) (int k) (rf_persister rf)) s = Some s1"
      "net_nodes s' = net_nodes s1" by (auto simp: restart_act_def)
    with may_panic_Some [of k _ s s1] \<open>k \<noteq> i\<close> show ?thesis by fastforce
  next
    case (ReadConfirmed k x t)
    then have "k \<noteq> i" using assms(4) by (auto simp: reader_action_def)
    then show ?thesis using ReadConfirmed assms(2) by (intro other [of k]) (auto simp: quiet_def)
  next
    case (ReadTimeout k)
    then have "k \<noteq> i" using assms(4) by (auto simp: reader_action_def)
    then show ?thesis using ReadTimeout assms(2) by (intro other [of k]) (auto simp: quiet_def)
  next
    case (LeadAlone k)
    with assms(2) have "quiet k startElection_single s = Some s'" by (simp split: if_splits)
    then show ?thesis by (rule quiet_all) (simp_all add: startElection_single_steady l)
  next
    case (TimerFires k)
    with assms(2) show ?thesis by (auto intro: quiet_all [where R = steady] other_steady l)
  qed (use assms(2) in \<open>auto intro: act act_nodes quiet_all [where R = steady] panic_all [where R = steady]
      Start_steady logUpdate_steady other_steady l\<close>)
qed

lemma net_run_pending:
  assumes "net_inv io pinv n s" "net_run io acts s = Some s'" "i < n" "\<forall>a \<in> set acts. \<not> reader_action i a"
    and "rf_pendingReadCh (net_nodes s ! i) \<noteq> None"
  shows "rf_pendingReadCh (net_nodes s' ! i) \<noteq> None"
  using assms
proof (induction acts arbitrary: s)
  case (Cons a acts)
  then obtain s1 where s1: "net_step io a s = Some s1" "net_run io acts s1 = Some s'"
    by (auto split: option.splits)
  have "good_net io pinv n s" using Cons.prems(1) by (simp add: net_inv_def)
  from net_step_steady [OF this s1(1) Cons.prems(3)] Cons.prems(4,5)
  have "rf_pendingReadCh (net_nodes s1 ! i) \<noteq> None" by (simp add: steady_def)
  with Cons.IH [OF net_inv_step [OF Cons.prems(1) s1(1)] s1(2) Cons.prems(3)] Cons.prems(4) show ?case by simp
qed simp

lemma net_step_leads_on:
  assumes "good_net io pinv n s" "net_step io a s = Some s'" "i < n" "n \<noteq> 1"
  shows "leads_on (net_nodes s ! i) (net_nodes s' ! i)"
proof (cases "reader_action i a")
  case False
  from net_step_steady [OF assms(1-3) this] show ?thesis by (simp add: steady_def)
next
  case True
  have l: "i < length (net_nodes s)" using assms(1,3) by (simp add: good_net_def)
  have r: "leads_on rf rf" for rf :: "'p Raft" by (simp add: leads_on_def same_log_grows same_log_def)
  from True consider x t where "a = ReadConfirmed i x t" | "a = ReadTimeout i" | "a = Restart i"
    by (auto simp: reader_action_def)
  then show ?thesis
  proof cases
    case 1
    with assms(2) show ?thesis by (auto intro: quiet_all [where R = leads_on] reader_leads_on r l)
  next
    case 2
    with assms(2) show ?thesis by (auto intro: quiet_all [where R = leads_on] reader_leads_on r l)
  next
    case 3
    from restart_move [OF assms(1), of i s'] assms(2) 3
    obtain s1 rf' where s1: "net_nodes s' = (net_nodes s)[i := rf']"
      and m: "Make io (length (net_nodes s)) (int i) (rf_persister (net_nodes s ! i)) = Inr rf'"
      by (auto simp: restart_act_def dest!: may_panic_Some)
    have g: "good_node io pinv n i (net_nodes s ! i)" "length (net_nodes s) = n"
      using assms(1,3) by (simp_all add: good_net_def)
    have "rf_state rf' = Follower"
      using Make_durable [of "net_nodes s ! i" n "int i"] g m assms(3,4) by (auto simp: good_node_def raft_inv_def)
    then show ?thesis using s1 l by (simp add: leads_on_def)
  qed
qed

end

end
