(* ===== verification/RaftProps.thy ===== *)
theory RaftProps
  imports RaftLead
begin

text \<open>
  The properties of the raft nodes and of clusters of them, and runs of concrete clusters
  on the in-memory persister.
\<close>

section \<open>Concrete clusters\<close>

definition demo_run :: "nat \<Rightarrow> action list \<Rightarrow> MemoryPersister net option" where
  "demo_run n acts = Option.bind (net_init memory_io (replicate n MakePersister)) (net_run memory_io acts)"

lemma demo_blank: "\<forall>p \<in> set (replicate n MakePersister). blank memory_io (\<lambda>_. True) p"
  by (simp add: blank_def memory_io_def MakePersister_def MemoryPersister_ReadRaftState_def
      MemoryPersister_ReadSnapshot_def)

lemma demo_reachable:
  assumes "map_option f (demo_run n acts) = Some v"
  obtains s where "demo_run n acts = Some s" "reachable memory_io (replicate n MakePersister) s" "f s = v"
proof -
  from assms obtain s where s: "demo_run n acts = Some s" "f s = v" by auto
  then have "reachable memory_io (replicate n MakePersister) s"
    by (auto simp: demo_run_def reachable_def bind_eq_Some_conv)
  with s that show thesis by blast
qed

lemmas demo_store = memraft.raft_store_axioms

definition elect_run :: "action list" where
  "elect_run = [Elect 0, DeliverVote 1 0, VoteReply 0]"

definition roles :: "'p net \<Rightarrow> (State \<times> int) list" where
  "roles s = map (\<lambda>rf. (rf_state rf, rf_currentTerm rf)) (net_nodes s)"

lemma elect_roles: "map_option roles (demo_run 3 elect_run) = Some [(Leader, 1), (Follower, 1), (Follower, 0)]"
  by code_simp

section \<open>Safety of clusters\<close>

text \<open>
  C1: election safety. In every state a cluster can reach, through lost, delayed, reordered
  and repeated messages and through restarts, two nodes that lead in the same term are the
  same node.
\<close>
theorem election_safety:
  assumes "raft_store io pinv" and "\<forall>p \<in> set ps. blank io pinv p" and "reachable io ps s"
    and "i < length ps" and "j < length ps"
    and "rf_state (net_nodes s ! i) = Leader" and "rf_state (net_nodes s ! j) = Leader"
    and "rf_currentTerm (net_nodes s ! i) = rf_currentTerm (net_nodes s ! j)"
  shows "i = j"
proof (cases "length ps = 1")
  case False
  then have "elect_inv (length ps) s"
    using raft_store.reachable_inv [OF assms(1-3)] by (simp add: net_inv_def)
  then show ?thesis by (rule one_leader_per_term) (use assms(4-8) in simp_all)
qed (use assms(4,5) in simp)

theorem election_safety_witness:
  "\<exists>s. reachable memory_io (replicate 3 MakePersister) s \<and> rf_state (net_nodes s ! 0) = Leader \<and>
     \<not> (rf_state (net_nodes s ! 1) = Leader \<and>
        rf_currentTerm (net_nodes s ! 0) = rf_currentTerm (net_nodes s ! 1))"
proof -
  obtain s where s: "reachable memory_io (replicate 3 MakePersister) s"
    "roles s = [(Leader, 1), (Follower, 1), (Follower, 0)]"
    by (rule demo_reachable [OF elect_roles])
  then have "length (net_nodes s) = 3" "rf_state (net_nodes s ! 0) = Leader"
    by (auto simp: roles_def map_eq_Cons_conv)
  moreover have "(0 :: nat) = 1" if "rf_state (net_nodes s ! 1) = Leader"
      "rf_currentTerm (net_nodes s ! 0) = rf_currentTerm (net_nodes s ! 1)"
    by (rule election_safety [OF demo_store demo_blank s(1)]) (use that calculation in simp_all)
  ultimately show ?thesis using s(1) by (intro exI [of _ s]) auto
qed

text \<open>
  C6: whatever a node of a reachable cluster knows of its term, its vote, its log and its
  snapshot survives a crash: a new process started on its persister does not panic and
  begins with exactly these.
\<close>
theorem restart_finds_state:
  assumes "raft_store io pinv" and "\<forall>p \<in> set ps. blank io pinv p" and "reachable io ps s"
    and "i < length ps"
  shows "\<exists>rf'. Make io (length ps) (int i) (rf_persister (net_nodes s ! i)) = Inr rf' \<and>
    rf_currentTerm rf' = rf_currentTerm (net_nodes s ! i) \<and>
    rf_votedFor rf' = rf_votedFor (net_nodes s ! i) \<and> rf_log rf' = rf_log (net_nodes s ! i) \<and>
    rf_lastIncludeIndex rf' = rf_lastIncludeIndex (net_nodes s ! i) \<and>
    rf_lastIncludeTerm rf' = rf_lastIncludeTerm (net_nodes s ! i) \<and>
    rf_snapshot rf' = rf_snapshot (net_nodes s ! i)"
proof -
  have "good_node io pinv (length ps) i (net_nodes s ! i)"
    using raft_store.reachable_inv [OF assms(1-3)] assms(4) by (simp add: net_inv_def good_net_def)
  then have "durable io pinv (net_nodes s ! i)" "rf_log (net_nodes s ! i) \<noteq> []"
    by (simp_all add: good_node_def raft_inv_def)
  from raft_store.Make_durable [OF assms(1) this, of "length ps" "int i"]
  show ?thesis unfolding same_hard_def by blast
qed

theorem restart_finds_state_witness:
  "\<exists>s rf'. reachable memory_io (replicate 3 MakePersister) s \<and>
     Make memory_io 3 1 (rf_persister (net_nodes s ! 1)) = Inr rf' \<and>
     rf_currentTerm rf' = 1 \<and> rf_votedFor rf' = 0"
proof -
  let ?f = "\<lambda>s. (rf_currentTerm (net_nodes s ! 1), rf_votedFor (net_nodes s ! 1))"
  have "map_option ?f (demo_run 3 elect_run) = Some (1, 0)" by code_simp
  then obtain s where "reachable memory_io (replicate 3 MakePersister) s"
    "rf_currentTerm (net_nodes s ! 1) = 1" "rf_votedFor (net_nodes s ! 1) = 0"
    by (rule demo_reachable) simp
  with restart_finds_state [OF demo_store demo_blank this(1), of 1] show ?thesis by auto
qed

text \<open>
  C10: in every reachable cluster each node's log is indexed without gaps from its snapshot,
  its commit and applied indices are not below the snapshot, and none of its handlers can
  panic: not on any request or reply of a peer, and not on taking a snapshot at an index
  its log still has.
\<close>
theorem raft_nodes_well_formed:
  assumes "raft_store io pinv" and "\<forall>p \<in> set ps. blank io pinv p" and "reachable io ps s"
    and "i < length ps"
  shows "let rf = net_nodes s ! i in
    (\<forall>k. rf_lastIncludeIndex rf \<le> k \<longrightarrow> k \<le> lastLogIndex rf \<longrightarrow> e_Index (entry_at rf k) = k) \<and>
    rf_lastIncludeIndex rf \<le> rf_commitIndex rf \<and> rf_lastIncludeIndex rf \<le> rf_lastApplied rf \<and>
    (\<forall>args. \<exists>x. RequestVote io rf args = Inr x) \<and> (\<exists>x. startElection io rf = Inr x) \<and>
    (\<forall>j < length ps. (\<exists>x. replicate_prepare rf j = Inr x) \<and>
       (\<forall>a call. \<exists>x. replicate_append_reply io rf j a call = Inr x) \<and>
       (\<forall>t call. \<exists>x. replicate_snapshot_reply io rf j t call = Inr x)) \<and>
    (\<forall>x d. x \<le> lastLogIndex rf \<longrightarrow> (\<exists>rf'. Snapshot io rf x d = Inr rf'))"
proof -
  let ?rf = "net_nodes s ! i"
  have inv: "raft_inv ?rf" and p: "rf_peers ?rf = length ps"
    using raft_store.reachable_inv [OF assms(1-3)] assms(4)
    by (simp_all add: net_inv_def good_net_def good_node_def)
  then have "rf_lastIncludeIndex ?rf \<le> rf_commitIndex ?rf" "rf_lastIncludeIndex ?rf \<le> rf_lastApplied ?rf"
    by (simp_all add: raft_inv_def)
  then show ?thesis
    by (simp add: Let_def p entry_at_index [OF inv] RequestVote_ok [OF inv] startElection_ok [OF inv]
        replicate_prepare_ok [OF inv] replies_ok [OF inv] Snapshot_ok [OF inv]
        del: split_paired_Ex)
qed

theorem raft_nodes_well_formed_witness:
  "\<exists>s x. reachable memory_io (replicate 3 MakePersister) s \<and>
     rf_state (net_nodes s ! 0) = Leader \<and> replicate_prepare (net_nodes s ! 0) 1 = Inr x"
proof -
  obtain s where s: "reachable memory_io (replicate 3 MakePersister) s"
    "roles s = [(Leader, 1), (Follower, 1), (Follower, 0)]"
    by (rule demo_reachable [OF elect_roles])
  then have "rf_state (net_nodes s ! 0) = Leader" by (auto simp: roles_def map_eq_Cons_conv)
  with s(1) raft_nodes_well_formed [OF demo_store demo_blank s(1), of 0] show ?thesis
    by (auto simp: Let_def)
qed

text \<open>
  C9: a leader only appends. In every step of a cluster of several nodes, a node that stays
  leader in the same term keeps every entry of its log above its snapshot index, at the
  same index, and its last index does not decrease.
\<close>
theorem leader_append_only:
  assumes "raft_store io pinv" and "\<forall>p \<in> set ps. blank io pinv p" and "reachable io ps s"
    and "net_step io a s = Some s'" and "i < length ps" and "length ps \<noteq> 1"
    and "rf_state (net_nodes s ! i) = Leader" and "rf_state (net_nodes s' ! i) = Leader"
    and "rf_currentTerm (net_nodes s' ! i) = rf_currentTerm (net_nodes s ! i)"
  shows "lastLogIndex (net_nodes s ! i) \<le> lastLogIndex (net_nodes s' ! i) \<and>
    (\<forall>k. rf_lastIncludeIndex (net_nodes s' ! i) < k \<longrightarrow> k \<le> lastLogIndex (net_nodes s ! i) \<longrightarrow>
       entry_at (net_nodes s' ! i) k = entry_at (net_nodes s ! i) k)"
proof -
  have "good_net io pinv (length ps) s"
    using raft_store.reachable_inv [OF assms(1-3)] by (simp add: net_inv_def)
  from raft_store.net_step_leads_on [OF assms(1) this assms(4-6)] assms(7-9)
  show ?thesis by (simp add: leads_on_def log_grows_def)
qed

theorem leader_append_only_witness:
  "\<exists>s s'. reachable memory_io (replicate 3 MakePersister) s \<and> net_step memory_io (Propose 0 [1]) s = Some s' \<and>
     lastLogIndex (net_nodes s ! 0) \<le> lastLogIndex (net_nodes s' ! 0)"
proof -
  obtain s where s: "reachable memory_io (replicate 3 MakePersister) s"
    "roles s = [(Leader, 1), (Follower, 1), (Follower, 0)]"
    by (rule demo_reachable [OF elect_roles])
  then have l: "length (net_nodes s) = 3" "rf_state (net_nodes s ! 0) = Leader"
    by (auto simp: roles_def map_eq_Cons_conv)
  let ?s' = "put_node 0 (fst (Start memory_io (net_nodes s ! 0) [1])) s"
  have st: "net_step memory_io (Propose 0 [1]) s = Some ?s'" using l by (simp add: quiet_def may_panic_def)
  have "lastLogIndex (net_nodes s ! 0) \<le> lastLogIndex (net_nodes ?s' ! 0)"
    using leader_append_only [OF demo_store demo_blank s(1) st, of 0] l by (simp add: Start_def Let_def)
  with s(1) st show ?thesis by blast
qed

section \<open>What the handlers compute\<close>

lemma conflict_loop_spec:
  "conflict_loop log t n \<le> n \<and> (\<forall>k. conflict_loop log t n \<le> k \<and> k < n \<longrightarrow> e_Term (log ! k) = t) \<and>
     (0 < conflict_loop log t n \<longrightarrow> e_Term (log ! (conflict_loop log t n - 1)) \<noteq> t)"
  by (induction n) (auto simp: less_Suc_eq)

text \<open>
  C21: \<^verbatim>\<open>AppendEntries\<close> accepts exactly when the term is not stale and the node has the
  previous entry; it then holds the previous log up to that entry followed by the new
  entries, and commits up to the leader's commit index as far as its log goes. Otherwise
  log and commit index stay.
\<close>
theorem append_entries_spec:
  assumes "raft_inv rf" and "append_ok args"
  shows "let rf' = fst (AppendEntries io rf args); r = snd (AppendEntries io rf args);
             prev = ae_PrevLogIndex args; es = ae_Entries args in
    (aer_Success r \<longleftrightarrow> rf_currentTerm rf \<le> ae_Term args \<and> rf_lastIncludeIndex rf \<le> prev \<and>
       prev \<le> lastLogIndex rf \<and> e_Term (entry_at rf prev) = ae_PrevLogTerm args) \<and>
    (\<not> aer_Success r \<longrightarrow> rf_log rf' = rf_log rf \<and> rf_commitIndex rf' = rf_commitIndex rf) \<and>
    (aer_Success r \<longrightarrow> es = [] \<longrightarrow> rf_log rf' = rf_log rf) \<and>
    (aer_Success r \<longrightarrow> es \<noteq> [] \<longrightarrow>
       lastLogIndex rf' = prev + int (length es) \<and>
       (\<forall>k. rf_lastIncludeIndex rf \<le> k \<longrightarrow> k \<le> prev \<longrightarrow> entry_at rf' k = entry_at rf k) \<and>
       (\<forall>i < length es. entry_at rf' (prev + 1 + int i) = es ! i)) \<and>
    (aer_Success r \<longrightarrow> rf_commitIndex rf' =
       (if ae_LeaderCommit args > rf_commitIndex rf then min (ae_LeaderCommit args) (lastLogIndex rf')
        else rf_commitIndex rf))"
proof (cases rule: AppendEntries_cases [of args rf io])
  case stale
  then show ?thesis by (auto simp: Let_def)
next
  case refused
  then show ?thesis by (auto simp: Let_def entry_at_def)
next
  case accepted
  let ?rf1 = "append_adopt_term io rf args"
  have inv: "raft_inv ?rf1" by (rule adopt_inv [OF assms(1)])
  have same: "lastLogIndex ?rf1 = lastLogIndex rf" "entry_at ?rf1 k = entry_at rf k" for k
    by (simp_all add: lastLogIndex_def entry_at_def)
  have pers: "lastLogIndex (persist io x) = lastLogIndex x" "entry_at (persist io x) k = entry_at x k" for x :: "'a Raft" and k
    by (simp_all add: lastLogIndex_def entry_at_def)
  have ix: "rf_lastIncludeIndex ?rf1 \<le> ae_PrevLogIndex args" "ae_PrevLogIndex args \<le> lastLogIndex ?rf1"
    using accepted(4,5) same by simp_all
  note es = accept_entries [OF inv assms(2) _ ix, unfolded same]
  have commit: "rf_commitIndex (append_accept ?rf1 args) =
      (if ae_LeaderCommit args > rf_commitIndex rf
       then min (ae_LeaderCommit args) (lastLogIndex (append_accept ?rf1 args)) else rf_commitIndex rf)"
    by (simp add: accept_commit lastLogIndex_def)
  have "ae_Entries args = [] \<Longrightarrow> rf_log (append_accept ?rf1 args) = rf_log rf" by (simp add: accept_log)
  with accepted commit es show ?thesis by (auto simp: Let_def entry_at_def [of rf "ae_PrevLogIndex args"] pers)
qed

definition demo_node :: "MemoryPersister Raft" where
  "demo_node = (case Make memory_io 3 1 MakePersister of Inr rf \<Rightarrow> rf)"

definition demo_append :: AppendEntriesArgs where
  "demo_append = \<lparr>ae_Term = 1, ae_LeaderId = 0, ae_PrevLogIndex = 0, ae_PrevLogTerm = 0,
     ae_Entries = [\<lparr>e_Term = 1, e_Command = [7], e_Index = 1\<rparr>], ae_LeaderCommit = 1\<rparr>"

lemma demo_node_inv: "raft_inv demo_node"
proof -
  obtain rf where "Make memory_io 3 (int 1) MakePersister = Inr rf"
    "good_node memory_io (\<lambda>_. True) 3 1 rf"
    using memraft.Make_blank [of MakePersister 3 1] demo_blank [of 1] by auto
  then show ?thesis by (simp add: demo_node_def good_node_def)
qed

theorem append_entries_spec_witness:
  "aer_Success (snd (AppendEntries memory_io demo_node demo_append)) \<and>
   lastLogIndex (fst (AppendEntries memory_io demo_node demo_append)) = 1 \<and>
   rf_commitIndex (fst (AppendEntries memory_io demo_node demo_append)) = 1"
proof -
  have ok: "append_ok demo_append" by (simp add: append_ok_def demo_append_def)
  have "aer_Success (snd (AppendEntries memory_io demo_node demo_append))" "rf_commitIndex demo_node = 0"
    by code_simp+
  with append_entries_spec [OF demo_node_inv ok, of memory_io] show ?thesis
    by (simp add: Let_def demo_append_def)
qed

text \<open>
  The hint of a refused request. When the previous entry has another term, the conflict
  index is the first index of that term's run of entries that reaches the previous index;
  when the log is too short it is the index after the last entry.
\<close>
theorem conflict_hint_spec:
  assumes "raft_inv rf" and "rf_currentTerm rf \<le> ae_Term args"
    and "rf_lastIncludeIndex rf \<le> ae_PrevLogIndex args"
    and "ae_PrevLogIndex args \<le> lastLogIndex rf \<longrightarrow> e_Term (entry_at rf (ae_PrevLogIndex args)) \<noteq> ae_PrevLogTerm args"
  shows "let r = snd (AppendEntries io rf args); c = aer_ConflictIndex r; t = aer_ConflictTerm r in
    \<not> aer_Success r \<and>
    (lastLogIndex rf < ae_PrevLogIndex args \<longrightarrow> t = -1 \<and> c = lastLogIndex rf + 1) \<and>
    (ae_PrevLogIndex args \<le> lastLogIndex rf \<longrightarrow>
       rf_lastIncludeIndex rf \<le> c \<and> c \<le> ae_PrevLogIndex args \<and>
       (\<forall>k. c \<le> k \<longrightarrow> k \<le> ae_PrevLogIndex args \<longrightarrow> e_Term (entry_at rf k) = t) \<and>
       (rf_lastIncludeIndex rf < c \<longrightarrow> e_Term (entry_at rf (c - 1)) \<noteq> t))"
proof (cases "lastLogIndex rf < ae_PrevLogIndex args")
  case True
  with assms show ?thesis by (auto simp: AppendEntries_def Let_def lastLogIndex_def)
next
  case False
  let ?n = "nat (ae_PrevLogIndex args - rf_lastIncludeIndex rf)"
  let ?t = "e_Term (rf_log rf ! ?n)"
  let ?c = "conflict_loop (rf_log rf) ?t ?n"
  have n: "int ?n = ae_PrevLogIndex args - rf_lastIncludeIndex rf" using assms(3) by simp
  have r: "\<not> aer_Success (snd (AppendEntries io rf args))"
    "aer_ConflictTerm (snd (AppendEntries io rf args)) = ?t"
    "aer_ConflictIndex (snd (AppendEntries io rf args)) = rf_lastIncludeIndex rf + int ?c"
    using assms False by (auto simp: AppendEntries_def Let_def lastLogIndex_def entry_at_def)
  note c = conflict_loop_spec [of "rf_log rf" ?t ?n]
  have "e_Term (entry_at rf k) = ?t" if "rf_lastIncludeIndex rf + int ?c \<le> k" "k \<le> ae_PrevLogIndex args" for k
  proof (cases "nat (k - rf_lastIncludeIndex rf) = ?n")
    case False
    then have "?c \<le> nat (k - rf_lastIncludeIndex rf)" "nat (k - rf_lastIncludeIndex rf) < ?n" using that n by linarith+
    with c show ?thesis by (simp add: entry_at_def)
  qed (simp add: entry_at_def)
  moreover have "e_Term (entry_at rf (rf_lastIncludeIndex rf + int ?c - 1)) \<noteq> ?t" if "0 < ?c"
  proof -
    have "nat (int ?c - 1) = ?c - 1" by simp
    with c that show ?thesis by (simp add: entry_at_def)
  qed
  moreover have "rf_lastIncludeIndex rf + int ?c \<le> ae_PrevLogIndex args" using c n by linarith
  ultimately show ?thesis using r False by (simp add: Let_def)
qed

theorem conflict_hint_spec_witness:
  "let r = snd (AppendEntries memory_io demo_node (demo_append\<lparr>ae_PrevLogIndex := 5\<rparr>)) in
     aer_ConflictTerm r = -1 \<and> aer_ConflictIndex r = 1"
proof -
  have "rf_currentTerm demo_node \<le> 1" "rf_lastIncludeIndex demo_node = 0" "lastLogIndex demo_node = 0"
    by code_simp+
  with conflict_hint_spec [OF demo_node_inv, of "demo_append\<lparr>ae_PrevLogIndex := 5\<rparr>" memory_io] show ?thesis
    by (simp add: Let_def demo_append_def)
qed

text \<open>
  C25: the commit rule. On a leader \<^verbatim>\<open>updateCommiIndex\<close> never panics and moves the commit
  index to the greatest index above it whose entry is of the leader's term and is held by a
  majority of the nodes, the leader included; if there is none it stays.
\<close>
theorem commit_rule:
  assumes "raft_inv rf" and "rf_state rf = Leader"
  shows "\<exists>M. updateCommiIndex rf = Inr (rf\<lparr>rf_commitIndex := M\<rparr>) \<and>
    (M = rf_commitIndex rf \<or> rf_commitIndex rf < M \<and> committable rf M) \<and>
    (\<forall>K. M < K \<longrightarrow> \<not> committable rf K)"
  using updateCommiIndex_max [OF assms] by blast

definition replicate_run :: "action list" where
  "replicate_run = elect_run @ [Propose 0 [1], Propose 0 [2], Replicate 0 1, DeliverAppend 0, AppendReply 0]"

definition demo_leader :: "MemoryPersister Raft" where
  "demo_leader = (case demo_run 3 replicate_run of Some s \<Rightarrow> net_nodes s ! 0)"

lemma demo_leader_inv: "raft_inv demo_leader"
proof -
  have "map_option (\<lambda>s. length (net_nodes s)) (demo_run 3 replicate_run) = Some 3" by code_simp
  then obtain s where s: "demo_run 3 replicate_run = Some s" "reachable memory_io (replicate 3 MakePersister) s"
    by (rule demo_reachable)
  from memraft.reachable_inv [OF demo_blank s(2)] have "raft_inv (net_nodes s ! 0)"
    by (simp add: net_inv_def good_net_def good_node_def)
  then show ?thesis by (simp add: demo_leader_def s(1))
qed

theorem commit_rule_witness:
  "\<exists>M. updateCommiIndex demo_leader = Inr (demo_leader\<lparr>rf_commitIndex := M\<rparr>) \<and> M = 2"
proof -
  have l: "rf_state demo_leader = Leader" by code_simp
  from commit_rule [OF demo_leader_inv l] obtain M where
    M: "updateCommiIndex demo_leader = Inr (demo_leader\<lparr>rf_commitIndex := M\<rparr>)" by blast
  have "(case updateCommiIndex demo_leader of Inr rf \<Rightarrow> rf_commitIndex rf | Inl _ \<Rightarrow> 0) = 2" by code_simp
  with M show ?thesis by simp
qed

text \<open>
  one round of the applier sends exactly the committed commands that were not sent yet,
  in the order of their indices and each once, as far as the log reaches, and records the
  last of them as applied.
\<close>
theorem applier_spec:
  assumes "raft_inv rf"
  shows "applier_step rf =
    (rf\<lparr>rf_lastApplied := max (rf_lastApplied rf) (min (rf_commitIndex rf) (lastLogIndex rf))\<rparr>,
     map (command_msg rf) [rf_lastApplied rf + 1..min (rf_commitIndex rf) (lastLogIndex rf)])"
  by (rule applier_step_run [OF assms])

theorem applier_spec_witness:
  "map am_CommandIndex (snd (applier_step (fst (AppendEntries memory_io demo_node demo_append)))) = [1]"
proof -
  let ?rf = "fst (AppendEntries memory_io demo_node demo_append)"
  have "raft_inv ?rf" by (rule AppendEntries_inv [OF demo_node_inv]) (simp add: append_ok_def demo_append_def)
  from applier_spec [OF this]
  have "map am_CommandIndex (snd (applier_step ?rf)) =
      [rf_lastApplied ?rf + 1..min (rf_commitIndex ?rf) (lastLogIndex ?rf)]"
    by (simp add: command_msg_def comp_def)
  moreover have "rf_lastApplied ?rf = 0" "min (rf_commitIndex ?rf) (lastLogIndex ?rf) = 1" by code_simp+
  ultimately show ?thesis by simp
qed

end
