(* ===== verification/RaftProps2.thy ===== *)
theory RaftProps2
  imports RaftProps
begin

text \<open>
  Snapshots of the log, and runs of the code that lose what a cluster should keep: a
  committed entry, the answer of later reads, and the freshness of a read.
\<close>

section \<open>Snapshots\<close>

text \<open>
  taking a snapshot at an index of the log never panics, keeps the last index, the term
  at the snapshot index and every later entry, and stores the snapshot; a leader keeps one
  progress slot per peer, none of them below the snapshot.
\<close>
theorem snapshot_spec:
  assumes "raft_inv rf" and "rf_lastIncludeIndex rf < x" and "x \<le> lastLogIndex rf"
  shows "\<exists>rf'. Snapshot io rf x d = Inr rf' \<and> rf_lastIncludeIndex rf' = x \<and>
    rf_snapshot rf' = d \<and> lastLogIndex rf' = lastLogIndex rf \<and>
    rf_lastIncludeTerm rf' = e_Term (entry_at rf x) \<and> e_Term (entry_at rf' x) = e_Term (entry_at rf x) \<and>
    (\<forall>k. x < k \<longrightarrow> k \<le> lastLogIndex rf \<longrightarrow> entry_at rf' k = entry_at rf k) \<and> raft_inv rf'"
proof -
  let ?t = "e_Term (entry_at rf x)"
  let ?rf1 = "take_snapshot rf x ?t d"
  obtain rf' where rf': "Snapshot io rf x d = Inr rf'" using Snapshot_ok [OF assms(1,3)] by blast
  note f = Snapshot_fields [OF rf' assms(2)]
  have "rf_lastIncludeIndex ?rf1 = x" by (simp add: take_snapshot_def)
  with f have same: "lastLogIndex rf' = lastLogIndex ?rf1" "entry_at rf' k = entry_at ?rf1 k" for k
    by (simp_all add: lastLogIndex_def entry_at_def)
  from take_snapshot_entries [OF assms(1,2), where t = ?t and d = d] f same assms(3) rf'
    Snapshot_inv [OF assms(1) rf'] show ?thesis by auto
qed

theorem snapshot_spec_witness:
  "\<exists>rf'. Snapshot memory_io demo_leader 1 [9] = Inr rf' \<and> lastLogIndex rf' = 2 \<and>
     entry_at rf' 2 = entry_at demo_leader 2"
proof -
  have "rf_lastIncludeIndex demo_leader = 0" "lastLogIndex demo_leader = 2" by code_simp+
  with snapshot_spec [OF demo_leader_inv, of 1 memory_io "[9]"] show ?thesis by auto
qed

section \<open>A committed entry is lost\<close>

text \<open>
  A run of three nodes without a crash. Node 0 leads in term 1 and sends node 1 first one
  and then two entries; the second request overtakes the first, is acknowledged, and node 0
  commits and applies both entries. The delayed first request then truncates the log of
  node 1, which is elected in term 2 and commits another command at index 2.
\<close>

definition stale_run :: "action list" where
  "stale_run = elect_run @
     [Propose 0 [1], Replicate 0 1, Propose 0 [2], Replicate 0 1,
      DeliverAppend 1, AppendReply 0, Replicate 0 1, ApplyStep 0,
      DeliverAppend 0,
      Elect 1, DeliverVote 2 1, VoteReply 1, Propose 1 [3],
      Replicate 1 2, DeliverAppend 3, AppendReply 2,
      Replicate 1 2, DeliverAppend 4, AppendReply 3, Replicate 1 2, ApplyStep 1]"

definition applied :: "'p net \<Rightarrow> (bool \<times> int \<times> bytes) list list" where
  "applied s = map (map (\<lambda>m. (am_CommandValid m, am_CommandIndex m, am_Command m))) (net_applied s)"

lemma stale_run_applied:
  "map_option applied (demo_run 3 stale_run) =
     Some [[(True, 1, [1]), (True, 2, [2])], [(True, 1, [1]), (True, 2, [3])], []]"
  by code_simp

text \<open>
  C33: a reordered \<^verbatim>\<open>AppendEntries\<close> breaks the agreement of the replicas: in a cluster of
  three nodes there is a run without a crash in which two nodes apply
  different commands at the same log index, because an accepted request always cuts the log
  behind its entries.
\<close>
theorem stale_append_loses_committed_entry:
  "\<exists>s m m'. reachable memory_io (replicate 3 MakePersister) s \<and>
     m \<in> set (net_applied s ! 0) \<and> m' \<in> set (net_applied s ! 1) \<and>
     am_CommandValid m \<and> am_CommandValid m' \<and> am_CommandIndex m = am_CommandIndex m' \<and>
     am_Command m \<noteq> am_Command m'"
proof -
  obtain s where s: "reachable memory_io (replicate 3 MakePersister) s"
    "applied s = [[(True, 1, [1]), (True, 2, [2])], [(True, 1, [1]), (True, 2, [3])], []]"
    by (rule demo_reachable [OF stale_run_applied])
  then obtain a b c where abc: "net_applied s = [a, b, c]"
    "map (\<lambda>m. (am_CommandValid m, am_CommandIndex m, am_Command m)) a = [(True, 1, [1]), (True, 2, [2])]"
    "map (\<lambda>m. (am_CommandValid m, am_CommandIndex m, am_Command m)) b = [(True, 1, [1]), (True, 2, [3])]"
    by (auto simp: applied_def map_eq_Cons_conv)
  obtain m0 m where a: "a = [m0, m]" "am_CommandValid m" "am_CommandIndex m = 2" "am_Command m = [2]"
    using abc(2) by (auto simp: map_eq_Cons_conv)
  obtain m0' m' where b: "b = [m0', m']" "am_CommandValid m'" "am_CommandIndex m' = 2" "am_Command m' = [3]"
    using abc(3) by (auto simp: map_eq_Cons_conv)
  from abc(1) s(1) a b show ?thesis
    by (intro exI [of _ s] exI [of _ m] exI [of _ m']) simp
qed

section \<open>Reads\<close>

text \<open>
  a read that is confirmed after the node lost its leadership disables reads on that
  node: the pending read is not cleared, so every later \<^verbatim>\<open>ReadIndex\<close> returns false at once,
  whatever the cluster does and even if the node leads again, until it is restarted. (No
  reader is waiting any more, so no reader's timeout can clear it.)
\<close>
theorem read_index_wedged:
  assumes "raft_store io pinv" and "\<forall>p \<in> set ps. blank io pinv p" and "reachable io ps s"
    and "i < length ps" and "rf_pendingReadCh (net_nodes s ! i) \<noteq> None"
    and "net_step io (ReadConfirmed i x t) s = Some s1"
    and "snd (ReadIndex_confirmed (net_nodes s ! i) (x, t)) = None"
    and "net_run io acts s1 = Some s2" and "\<forall>a \<in> set acts. \<not> reader_action i a"
  shows "ReadIndex_begin (net_nodes s2 ! i) = (net_nodes s2 ! i, None)"
proof -
  have inv: "net_inv io pinv (length ps) s" by (rule raft_store.reachable_inv [OF assms(1-3)])
  then have "i < length (net_nodes s)" using assms(4) by (simp add: net_inv_def good_net_def)
  then have "net_nodes s1 ! i = fst (ReadIndex_confirmed (net_nodes s ! i) (x, t))"
    using assms(6) by (auto dest: quiet_Some)
  then have "rf_pendingReadCh (net_nodes s1 ! i) \<noteq> None"
    using assms(5,7) by (simp add: ReadIndex_confirmed_def Let_def split: if_splits)
  from raft_store.net_run_pending [OF assms(1) raft_store.net_inv_step [OF assms(1) inv assms(6)]
      assms(8,4,9) this]
  show ?thesis by (simp add: ReadIndex_begin_def)
qed

text \<open>
  Node 0 leads and starts a read; the answer of node 1 confirms it, but before the reader
  runs node 2 asks for votes in term 2 and node 0 steps down. It leads again in term 3.
\<close>

definition wedge_before :: "action list" where
  "wedge_before = elect_run @ [ReadBegin 0, Replicate 0 1, DeliverAppend 0, AppendReply 0, Elect 2, Elect 2,
     DeliverVote 0 2]"

definition wedge_after :: "action list" where
  "wedge_after = [Elect 0, DeliverVote 1 3, VoteReply 2]"

theorem read_index_wedged_witness:
  "\<exists>s2. reachable memory_io (replicate 3 MakePersister) s2 \<and> rf_state (net_nodes s2 ! 0) = Leader \<and>
     ReadIndex_begin (net_nodes s2 ! 0) = (net_nodes s2 ! 0, None)"
proof -
  have "map_option (\<lambda>s. (rf_pendingReadCh (net_nodes s ! 0), rf_state (net_nodes s ! 0), length (net_nodes s)))
      (demo_run 3 wedge_before) = Some (Some 1, Follower, 3)"
    by code_simp
  then obtain s where s: "demo_run 3 wedge_before = Some s" "reachable memory_io (replicate 3 MakePersister) s"
    "rf_pendingReadCh (net_nodes s ! 0) = Some 1" "rf_state (net_nodes s ! 0) = Follower" "length (net_nodes s) = 3"
    by (rule demo_reachable) simp
  let ?rf1 = "fst (ReadIndex_confirmed (net_nodes s ! 0) (0, 1))"
  have step: "net_step memory_io (ReadConfirmed 0 0 1) s = Some (put_node 0 ?rf1 s)"
    using s(5) by (simp add: quiet_def may_panic_def)
  have "map_option (\<lambda>s. rf_state (net_nodes s ! 0)) (demo_run 3 (wedge_before @ ReadConfirmed 0 0 1 # wedge_after)) =
      Some Leader"
    by code_simp
  then obtain s2 where s2: "demo_run 3 (wedge_before @ ReadConfirmed 0 0 1 # wedge_after) = Some s2"
    "reachable memory_io (replicate 3 MakePersister) s2" "rf_state (net_nodes s2 ! 0) = Leader"
    by (rule demo_reachable)
  have run: "net_run memory_io wedge_after (put_node 0 ?rf1 s) = Some s2"
    using s(1) s2(1) step by (auto simp: demo_run_def net_run_append bind_eq_Some_conv simp del: net_step.simps)
  have "ReadIndex_begin (net_nodes s2 ! 0) = (net_nodes s2 ! 0, None)"
    by (rule read_index_wedged [OF demo_store demo_blank s(2) _ _ step _ run])
      (use s(3,4) in \<open>simp_all add: ReadIndex_confirmed_def wedge_after_def reader_action_def\<close>)
  with s2 show ?thesis by blast
qed



end
