(* ===== verification/Command.thy ===== *)
theory Command
  imports Prelude
begin

text \<open>
  The replicated commands (\<^verbatim>\<open>internal/command\<close>): the command types, the client id and
  sequence number a command carries, and its conversion to and from the wire messages of
  \<^verbatim>\<open>internal/pb/command\<close>. A Go pointer that may be nil is an option; the enum types of the
  source are \<^verbatim>\<open>uint8\<close>, those of the messages \<^verbatim>\<open>int32\<close>, so reading a message narrows
  with \<^const>\<open>u8\<close>. The protobuf codec is a parameter: marshalling and unmarshalling return
  an error or a value.
\<close>

section \<open>Commands\<close>

abbreviation (input) KindKV :: int where "KindKV \<equiv> 0"
abbreviation (input) KindTxn :: int where "KindTxn \<equiv> 1"
abbreviation (input) KindLeaseGrant :: int where "KindLeaseGrant \<equiv> 2"
abbreviation (input) KindLeaseRevoke :: int where "KindLeaseRevoke \<equiv> 3"
abbreviation (input) KindLeaseKeepAlive :: int where "KindLeaseKeepAlive \<equiv> 4"

abbreviation (input) CmdPut :: int where "CmdPut \<equiv> 0"
abbreviation (input) CmdGet :: int where "CmdGet \<equiv> 1"
abbreviation (input) CmdDelete :: int where "CmdDelete \<equiv> 2"

record KVCommand =
  kc_Type :: int
  kc_Key :: gostring
  kc_Value :: bytes
  kc_ClientID :: int
  kc_Seq :: int
  kc_Rev :: int
  kc_LeaseID :: int

record TxnCompare =
  tc_Key :: gostring
  tc_Op :: int
  tc_Revision :: int

record TxnOp =
  to_Type :: int
  to_Key :: gostring
  to_Value :: bytes
  to_LeaseID :: int

record TxnCommand =
  tx_Compares :: "TxnCompare option list"
  tx_ThenOps :: "TxnOp option list"
  tx_ElseOps :: "TxnOp option list"
  tx_ClientID :: int
  tx_Seq :: int

record LeaseGrantCommand =
  lg_TTL :: int
  lg_ClientID :: int
  lg_Seq :: int

record LeaseRevokeCommand =
  lr_ID :: int
  lr_ClientID :: int
  lr_Seq :: int

record LeaseKeepAliveCommand =
  lk_ID :: int
  lk_ClientID :: int
  lk_Seq :: int

record Command =
  c_Kind :: int
  c_KV :: "KVCommand option"
  c_Txn :: "TxnCommand option"
  c_LeaseGrant :: "LeaseGrantCommand option"
  c_LeaseRevoke :: "LeaseRevokeCommand option"
  c_LeaseKeepAlive :: "LeaseKeepAliveCommand option"

text \<open>The zero value \<^verbatim>\<open>Command{}\<close>.\<close>

definition zero_Command :: Command where
  "zero_Command = \<lparr>c_Kind = 0, c_KV = None, c_Txn = None, c_LeaseGrant = None,
     c_LeaseRevoke = None, c_LeaseKeepAlive = None\<rparr>"

text \<open>A field read through a pointer, with the fallback of the final \<^verbatim>\<open>return 0\<close>.\<close>

definition field_or_0 :: "('a \<Rightarrow> int) \<Rightarrow> 'a option \<Rightarrow> int" where
  "field_or_0 f p = (case p of Some x \<Rightarrow> f x | None \<Rightarrow> 0)"

lemma field_or_0_simps [simp]: "field_or_0 f (Some x) = f x" "field_or_0 f None = 0"
  by (simp_all add: field_or_0_def)

definition Command_ClientID :: "Command \<Rightarrow> int" where
  "Command_ClientID c =
     (if c_Kind c = KindKV then field_or_0 kc_ClientID (c_KV c)
      else if c_Kind c = KindTxn then field_or_0 tx_ClientID (c_Txn c)
      else if c_Kind c = KindLeaseGrant then field_or_0 lg_ClientID (c_LeaseGrant c)
      else if c_Kind c = KindLeaseRevoke then field_or_0 lr_ClientID (c_LeaseRevoke c)
      else if c_Kind c = KindLeaseKeepAlive then field_or_0 lk_ClientID (c_LeaseKeepAlive c)
      else 0)"

definition Command_Seq :: "Command \<Rightarrow> int" where
  "Command_Seq c =
     (if c_Kind c = KindKV then field_or_0 kc_Seq (c_KV c)
      else if c_Kind c = KindTxn then field_or_0 tx_Seq (c_Txn c)
      else if c_Kind c = KindLeaseGrant then field_or_0 lg_Seq (c_LeaseGrant c)
      else if c_Kind c = KindLeaseRevoke then field_or_0 lr_Seq (c_LeaseRevoke c)
      else if c_Kind c = KindLeaseKeepAlive then field_or_0 lk_Seq (c_LeaseKeepAlive c)
      else 0)"

section \<open>Wire messages\<close>

record pb_KVCommand =
  pk_Type :: int
  pk_Key :: gostring
  pk_Value :: bytes
  pk_ClientId :: int
  pk_Seq :: int
  pk_Rev :: int
  pk_LeaseId :: int

record pb_TxnCompare =
  pcmp_Key :: gostring
  pcmp_Op :: int
  pcmp_Revision :: int

record pb_TxnOp =
  pop_Type :: int
  pop_Key :: gostring
  pop_Value :: bytes
  pop_LeaseId :: int

record pb_TxnCommand =
  pt_Compares :: "pb_TxnCompare option list"
  pt_ThenOps :: "pb_TxnOp option list"
  pt_ElseOps :: "pb_TxnOp option list"
  pt_ClientId :: int
  pt_Seq :: int

record pb_LeaseGrantCommand =
  pg_Ttl :: int
  pg_ClientId :: int
  pg_Seq :: int

record pb_LeaseRevokeCommand =
  pr_Id :: int
  pr_ClientId :: int
  pr_Seq :: int

record pb_LeaseKeepAliveCommand =
  pa_Id :: int
  pa_ClientId :: int
  pa_Seq :: int

text \<open>The oneof \<^verbatim>\<open>isCommand_Body\<close>; the wrapper can hold a nil message.\<close>

datatype pb_Body =
    Command_Kv "pb_KVCommand option"
  | Command_Txn "pb_TxnCommand option"
  | Command_LeaseGrant "pb_LeaseGrantCommand option"
  | Command_LeaseRevoke "pb_LeaseRevokeCommand option"
  | Command_LeaseKeepalive "pb_LeaseKeepAliveCommand option"

record pb_Command =
  pc_Kind :: int
  pc_Body :: "pb_Body option"

section \<open>Conversion\<close>

definition toPBKVCommand :: "KVCommand option \<Rightarrow> pb_KVCommand option" where
  "toPBKVCommand cmd =
     (case cmd of None \<Rightarrow> None
      | Some c \<Rightarrow> Some \<lparr>pk_Type = kc_Type c, pk_Key = kc_Key c, pk_Value = [] @ kc_Value c,
          pk_ClientId = kc_ClientID c, pk_Seq = kc_Seq c, pk_Rev = kc_Rev c, pk_LeaseId = kc_LeaseID c\<rparr>)"

definition fromPBKVCommand :: "pb_KVCommand option \<Rightarrow> KVCommand option" where
  "fromPBKVCommand m =
     (case m of None \<Rightarrow> None
      | Some c \<Rightarrow> Some \<lparr>kc_Type = u8 (pk_Type c), kc_Key = pk_Key c, kc_Value = [] @ pk_Value c,
          kc_ClientID = pk_ClientId c, kc_Seq = pk_Seq c, kc_Rev = pk_Rev c, kc_LeaseID = pk_LeaseId c\<rparr>)"

text \<open>
  The three loops of each transaction conversion append a copy of every item that is not
  nil: a list comprehension over the items present.
\<close>

fun non_nil :: "'a option list \<Rightarrow> 'a list" where
  "non_nil [] = []"
| "non_nil (None # xs) = non_nil xs"
| "non_nil (Some x # xs) = x # non_nil xs"

definition toPBTxnCompare :: "TxnCompare \<Rightarrow> pb_TxnCompare" where
  "toPBTxnCompare item = \<lparr>pcmp_Key = tc_Key item, pcmp_Op = tc_Op item, pcmp_Revision = tc_Revision item\<rparr>"

definition toPBTxnOp :: "TxnOp \<Rightarrow> pb_TxnOp" where
  "toPBTxnOp item = \<lparr>pop_Type = to_Type item, pop_Key = to_Key item, pop_Value = [] @ to_Value item,
     pop_LeaseId = to_LeaseID item\<rparr>"

definition toPBTxnCommand :: "TxnCommand option \<Rightarrow> pb_TxnCommand option" where
  "toPBTxnCommand cmd =
     (case cmd of None \<Rightarrow> None
      | Some c \<Rightarrow> Some \<lparr>pt_Compares = map (\<lambda>i. Some (toPBTxnCompare i)) (non_nil (tx_Compares c)),
          pt_ThenOps = map (\<lambda>i. Some (toPBTxnOp i)) (non_nil (tx_ThenOps c)),
          pt_ElseOps = map (\<lambda>i. Some (toPBTxnOp i)) (non_nil (tx_ElseOps c)),
          pt_ClientId = tx_ClientID c, pt_Seq = tx_Seq c\<rparr>)"

definition fromPBTxnCompare :: "pb_TxnCompare \<Rightarrow> TxnCompare" where
  "fromPBTxnCompare item = \<lparr>tc_Key = pcmp_Key item, tc_Op = u8 (pcmp_Op item), tc_Revision = pcmp_Revision item\<rparr>"

definition fromPBTxnOp :: "pb_TxnOp \<Rightarrow> TxnOp" where
  "fromPBTxnOp item = \<lparr>to_Type = u8 (pop_Type item), to_Key = pop_Key item, to_Value = [] @ pop_Value item,
     to_LeaseID = pop_LeaseId item\<rparr>"

definition fromPBTxnCommand :: "pb_TxnCommand option \<Rightarrow> TxnCommand option" where
  "fromPBTxnCommand m =
     (case m of None \<Rightarrow> None
      | Some c \<Rightarrow> Some \<lparr>tx_Compares = map (\<lambda>i. Some (fromPBTxnCompare i)) (non_nil (pt_Compares c)),
          tx_ThenOps = map (\<lambda>i. Some (fromPBTxnOp i)) (non_nil (pt_ThenOps c)),
          tx_ElseOps = map (\<lambda>i. Some (fromPBTxnOp i)) (non_nil (pt_ElseOps c)),
          tx_ClientID = pt_ClientId c, tx_Seq = pt_Seq c\<rparr>)"

definition toPBLeaseGrantCommand :: "LeaseGrantCommand option \<Rightarrow> pb_LeaseGrantCommand option" where
  "toPBLeaseGrantCommand cmd =
     (case cmd of None \<Rightarrow> None
      | Some c \<Rightarrow> Some \<lparr>pg_Ttl = lg_TTL c, pg_ClientId = lg_ClientID c, pg_Seq = lg_Seq c\<rparr>)"

definition fromPBLeaseGrantCommand :: "pb_LeaseGrantCommand option \<Rightarrow> LeaseGrantCommand option" where
  "fromPBLeaseGrantCommand m =
     (case m of None \<Rightarrow> None
      | Some c \<Rightarrow> Some \<lparr>lg_TTL = pg_Ttl c, lg_ClientID = pg_ClientId c, lg_Seq = pg_Seq c\<rparr>)"

definition toPBLeaseRevokeCommand :: "LeaseRevokeCommand option \<Rightarrow> pb_LeaseRevokeCommand option" where
  "toPBLeaseRevokeCommand cmd =
     (case cmd of None \<Rightarrow> None
      | Some c \<Rightarrow> Some \<lparr>pr_Id = lr_ID c, pr_ClientId = lr_ClientID c, pr_Seq = lr_Seq c\<rparr>)"

definition fromPBLeaseRevokeCommand :: "pb_LeaseRevokeCommand option \<Rightarrow> LeaseRevokeCommand option" where
  "fromPBLeaseRevokeCommand m =
     (case m of None \<Rightarrow> None
      | Some c \<Rightarrow> Some \<lparr>lr_ID = pr_Id c, lr_ClientID = pr_ClientId c, lr_Seq = pr_Seq c\<rparr>)"

definition toPBLeaseKeepAliveCommand ::
  "LeaseKeepAliveCommand option \<Rightarrow> pb_LeaseKeepAliveCommand option" where
  "toPBLeaseKeepAliveCommand cmd =
     (case cmd of None \<Rightarrow> None
      | Some c \<Rightarrow> Some \<lparr>pa_Id = lk_ID c, pa_ClientId = lk_ClientID c, pa_Seq = lk_Seq c\<rparr>)"

definition fromPBLeaseKeepAliveCommand ::
  "pb_LeaseKeepAliveCommand option \<Rightarrow> LeaseKeepAliveCommand option" where
  "fromPBLeaseKeepAliveCommand m =
     (case m of None \<Rightarrow> None
      | Some c \<Rightarrow> Some \<lparr>lk_ID = pa_Id c, lk_ClientID = pa_ClientId c, lk_Seq = pa_Seq c\<rparr>)"

definition toPBCommand :: "Command option \<Rightarrow> pb_Command option" where
  "toPBCommand cmd =
     (case cmd of None \<Rightarrow> None
      | Some c \<Rightarrow> Some \<lparr>pc_Kind = c_Kind c, pc_Body =
          (if c_Kind c = KindKV then Some (Command_Kv (toPBKVCommand (c_KV c)))
           else if c_Kind c = KindTxn then Some (Command_Txn (toPBTxnCommand (c_Txn c)))
           else if c_Kind c = KindLeaseGrant then
             Some (Command_LeaseGrant (toPBLeaseGrantCommand (c_LeaseGrant c)))
           else if c_Kind c = KindLeaseRevoke then
             Some (Command_LeaseRevoke (toPBLeaseRevokeCommand (c_LeaseRevoke c)))
           else if c_Kind c = KindLeaseKeepAlive then
             Some (Command_LeaseKeepalive (toPBLeaseKeepAliveCommand (c_LeaseKeepAlive c)))
           else None)\<rparr>)"

definition fromPBCommand :: "pb_Command option \<Rightarrow> Command option" where
  "fromPBCommand m =
     (case m of None \<Rightarrow> None
      | Some p \<Rightarrow>
          (let out = zero_Command\<lparr>c_Kind := u8 (pc_Kind p)\<rparr>
           in Some (case pc_Body p of
                None \<Rightarrow> out
              | Some (Command_Kv b) \<Rightarrow> out\<lparr>c_KV := fromPBKVCommand b\<rparr>
              | Some (Command_Txn b) \<Rightarrow> out\<lparr>c_Txn := fromPBTxnCommand b\<rparr>
              | Some (Command_LeaseGrant b) \<Rightarrow> out\<lparr>c_LeaseGrant := fromPBLeaseGrantCommand b\<rparr>
              | Some (Command_LeaseRevoke b) \<Rightarrow> out\<lparr>c_LeaseRevoke := fromPBLeaseRevokeCommand b\<rparr>
              | Some (Command_LeaseKeepalive b) \<Rightarrow>
                  out\<lparr>c_LeaseKeepAlive := fromPBLeaseKeepAliveCommand b\<rparr>)))"

definition Encode :: "(pb_Command option \<Rightarrow> go_error + bytes) \<Rightarrow> Command option \<Rightarrow> go_error + bytes" where
  "Encode marshal cmd = marshal (toPBCommand cmd)"

text \<open>
  \<^verbatim>\<open>Decode\<close> unmarshals into a local message, whose address is never nil, and overwrites
  \<^verbatim>\<open>*dst\<close>.
\<close>

definition Decode :: "(bytes \<Rightarrow> go_error + pb_Command) \<Rightarrow> bytes \<Rightarrow> go_error + Command" where
  "Decode unmarshal data =
     (case unmarshal data of
        Inl err \<Rightarrow> Inl err
      | Inr pbCmd \<Rightarrow>
          (case fromPBCommand (Some pbCmd) of
             None \<Rightarrow> Inr zero_Command
           | Some decoded \<Rightarrow> Inr decoded))"

section \<open>Round trips\<close>

lemma non_nil_map_Some [simp]: "non_nil (map (\<lambda>i. Some (f i)) xs) = map f xs"
  by (induction xs) simp_all

text \<open>
  What the request handlers build: the field of the command's kind is set and no other, and
  the enum fields hold \<^verbatim>\<open>uint8\<close> values.
\<close>

definition is_u8 :: "int \<Rightarrow> bool" where
  "is_u8 x \<longleftrightarrow> 0 \<le> x \<and> x < 256"

lemma is_u8_u8 [simp]: "is_u8 x \<Longrightarrow> u8 x = x"
  by (simp add: is_u8_def u8_id)

definition txn_ok :: "TxnCommand \<Rightarrow> bool" where
  "txn_ok t \<longleftrightarrow>
     None \<notin> set (tx_Compares t) \<and> None \<notin> set (tx_ThenOps t) \<and> None \<notin> set (tx_ElseOps t) \<and>
     (\<forall>i \<in> set (non_nil (tx_Compares t)). is_u8 (tc_Op i)) \<and>
     (\<forall>i \<in> set (non_nil (tx_ThenOps t)). is_u8 (to_Type i)) \<and>
     (\<forall>i \<in> set (non_nil (tx_ElseOps t)). is_u8 (to_Type i))"

definition command_ok :: "Command \<Rightarrow> bool" where
  "command_ok c \<longleftrightarrow>
     (\<exists>kv. is_u8 (kc_Type kv) \<and> c = zero_Command\<lparr>c_Kind := KindKV, c_KV := Some kv\<rparr>) \<or>
     (\<exists>t. txn_ok t \<and> c = zero_Command\<lparr>c_Kind := KindTxn, c_Txn := Some t\<rparr>) \<or>
     (\<exists>g. c = zero_Command\<lparr>c_Kind := KindLeaseGrant, c_LeaseGrant := Some g\<rparr>) \<or>
     (\<exists>r. c = zero_Command\<lparr>c_Kind := KindLeaseRevoke, c_LeaseRevoke := Some r\<rparr>) \<or>
     (\<exists>k. c = zero_Command\<lparr>c_Kind := KindLeaseKeepAlive, c_LeaseKeepAlive := Some k\<rparr>)"

lemma compare_roundtrip: "is_u8 (tc_Op i) \<Longrightarrow> fromPBTxnCompare (toPBTxnCompare i) = i"
  by (simp add: fromPBTxnCompare_def toPBTxnCompare_def)

lemma op_roundtrip: "is_u8 (to_Type i) \<Longrightarrow> fromPBTxnOp (toPBTxnOp i) = i"
  by (simp add: fromPBTxnOp_def toPBTxnOp_def)

lemma items_roundtrip:
  "None \<notin> set xs \<Longrightarrow> \<forall>i \<in> set (non_nil xs). g (f i) = i \<Longrightarrow>
     map (\<lambda>i. Some (g i)) (non_nil (map (\<lambda>i. Some (f i)) (non_nil xs))) = xs"
proof (induction xs)
  case (Cons x xs)
  then show ?case by (cases x) simp_all
qed simp

lemma txn_roundtrip: "txn_ok t \<Longrightarrow> fromPBTxnCommand (toPBTxnCommand (Some t)) = Some t"
  unfolding fromPBTxnCommand_def toPBTxnCommand_def txn_ok_def
  by (simp add: items_roundtrip [simplified] compare_roundtrip op_roundtrip)

lemma kv_roundtrip: "is_u8 (kc_Type k) \<Longrightarrow> fromPBKVCommand (toPBKVCommand (Some k)) = Some k"
  by (simp add: fromPBKVCommand_def toPBKVCommand_def)

lemma lease_roundtrips [simp]:
  "fromPBLeaseGrantCommand (toPBLeaseGrantCommand g) = g"
  "fromPBLeaseRevokeCommand (toPBLeaseRevokeCommand r) = r"
  "fromPBLeaseKeepAliveCommand (toPBLeaseKeepAliveCommand k) = k"
  by (simp_all add: fromPBLeaseGrantCommand_def toPBLeaseGrantCommand_def
      fromPBLeaseRevokeCommand_def toPBLeaseRevokeCommand_def
      fromPBLeaseKeepAliveCommand_def toPBLeaseKeepAliveCommand_def split: option.splits)

lemma command_roundtrip: "command_ok c \<Longrightarrow> fromPBCommand (toPBCommand (Some c)) = Some c"
  unfolding command_ok_def
  by (elim disjE exE conjE)
    (simp_all add: fromPBCommand_def toPBCommand_def zero_Command_def u8_id kv_roundtrip txn_roundtrip)

text \<open>
  What is used of the protobuf codec: a message that was marshalled without an error is
  unmarshalled to itself.
\<close>

definition codec_ok :: "('m option \<Rightarrow> go_error + bytes) \<Rightarrow> (bytes \<Rightarrow> go_error + 'm) \<Rightarrow> 'm \<Rightarrow> bool" where
  "codec_ok marshal unmarshal m \<longleftrightarrow> (\<forall>d. marshal (Some m) = Inr d \<longrightarrow> unmarshal d = Inr m)"

lemma toPBCommand_Some: "toPBCommand (Some c) = Some (the (toPBCommand (Some c)))"
  by (simp add: toPBCommand_def)

lemma decode_encode:
  assumes "command_ok c" and "codec_ok marshal unmarshal (the (toPBCommand (Some c)))"
    and "Encode marshal (Some c) = Inr d"
  shows "Decode unmarshal d = Inr c"
proof -
  have "unmarshal d = Inr (the (toPBCommand (Some c)))"
    using assms(2,3) toPBCommand_Some [of c] by (auto simp: codec_ok_def Encode_def)
  then show ?thesis
    using command_roundtrip [OF assms(1)] toPBCommand_Some [of c] by (simp add: Decode_def)
qed

end
