(* ===== verification/KVApi.thy ===== *)
theory KVApi
  imports Command
begin

text \<open>
  The client interface: the request and response types of \<^verbatim>\<open>internal/api/kv/model\<close>, the
  messages of \<^verbatim>\<open>internal/api/kv/pb\<close> that carry them (declared in \<^verbatim>\<open>kv.proto\<close>), and the
  conversions at the two ends of a connection, \<^verbatim>\<open>internal/client/convert_kv.go\<close> and
  \<^verbatim>\<open>internal/server/kvserver/convert_kv.go\<close>.

  The lemmas say that what one end sends is what the other end reads. A pointer that may be
  nil is an option; the \<^verbatim>\<open>fill...FromPB\<close> functions write through a pointer and are modelled as
  returning the struct it points to afterwards.
\<close>

section \<open>Requests and responses\<close>

record PutRequest =
  pq_Key :: gostring
  pq_Value :: bytes
  pq_LeaseID :: int
  pq_ClientID :: int
  pq_Seq :: int

record PutResponse =
  pp_Revision :: int
  pp_Err :: gostring

record GetRequest =
  gq_Key :: gostring
  gq_Revision :: int
  gq_ClientID :: int
  gq_Seq :: int

record GetResponse =
  gp_Value :: bytes
  gp_Revision :: int
  gp_Found :: bool
  gp_Err :: gostring

record DeleteRequest =
  dq_Key :: gostring
  dq_LeaseID :: int
  dq_ClientID :: int
  dq_Seq :: int

record DeleteResponse =
  dp_Revision :: int
  dp_Deleted :: bool
  dp_Err :: gostring

record kv_Compare =
  kcmp_Key :: gostring
  kcmp_Op :: int
  kcmp_Revision :: int

record kv_Op =
  kop_Type :: int
  kop_Key :: gostring
  kop_Value :: bytes
  kop_LeaseID :: int

record kv_KeyValue =
  kkv_Key :: gostring
  kkv_Value :: bytes
  kkv_Revision :: int

record TxnRequest =
  tq_Compares :: "kv_Compare option list"
  tq_ThenOps :: "kv_Op option list"
  tq_ElseOps :: "kv_Op option list"
  tq_ClientID :: int
  tq_Seq :: int

record TxnResponse =
  tp_Succeeded :: bool
  tp_Results :: "kv_KeyValue option list"
  tp_Err :: gostring

record TxnResult =
  tr_Succeeded :: bool
  tr_Results :: "kv_KeyValue option list"

record kv_Event =
  kev_Type :: int
  kev_Key :: gostring
  kev_Value :: bytes
  kev_Rev :: int

record WatchRequest =
  wq_Key :: gostring
  wq_Prefix :: bool
  wq_Revision :: int
  wq_ClientID :: int
  wq_Seq :: int

record WatchResponse =
  wp_Events :: "kv_Event option list"
  wp_Revision :: int
  wp_Err :: gostring

record LeaseGrantRequest =
  lgq_TTL :: int
  lgq_ClientID :: int
  lgq_Seq :: int

record LeaseGrantResponse =
  lgp_ID :: int
  lgp_TTL :: int
  lgp_Err :: gostring

record LeaseRevokeRequest =
  lrq_ID :: int
  lrq_ClientID :: int
  lrq_Seq :: int

record LeaseRevokeResponse =
  lrp_Err :: gostring

record LeaseKeepAliveRequest =
  lkq_ID :: int
  lkq_ClientID :: int
  lkq_Seq :: int

record LeaseKeepAliveResponse =
  lkp_ID :: int
  lkp_TTL :: int
  lkp_Err :: gostring

record RangeRequest =
  rq_Key :: gostring
  rq_Prefix :: bool
  rq_Revision :: int
  rq_ClientID :: int
  rq_Seq :: int

record RangeResponse =
  rp_KVs :: "kv_KeyValue option list"
  rp_Revision :: int
  rp_Err :: gostring

text \<open>The zero values \<^verbatim>\<open>&kv.PutResponse{}\<close> and so on, which a client passes to be filled.\<close>

definition zero_PutResponse :: PutResponse where
  "zero_PutResponse = \<lparr>pp_Revision = 0, pp_Err = []\<rparr>"

definition zero_GetResponse :: GetResponse where
  "zero_GetResponse = \<lparr>gp_Value = [], gp_Revision = 0, gp_Found = False, gp_Err = []\<rparr>"

definition zero_DeleteResponse :: DeleteResponse where
  "zero_DeleteResponse = \<lparr>dp_Revision = 0, dp_Deleted = False, dp_Err = []\<rparr>"

definition zero_RangeResponse :: RangeResponse where
  "zero_RangeResponse = \<lparr>rp_KVs = [], rp_Revision = 0, rp_Err = []\<rparr>"

definition zero_WatchResponse :: WatchResponse where
  "zero_WatchResponse = \<lparr>wp_Events = [], wp_Revision = 0, wp_Err = []\<rparr>"

definition TxnResult_Get :: "TxnResult \<Rightarrow> int \<Rightarrow> bytes" where
  "TxnResult_Get r i =
     (if i < 0 \<or> i \<ge> int (length (tr_Results r)) then []
      else case tr_Results r ! nat i of None \<Rightarrow> [] | Some kv \<Rightarrow> kkv_Value kv)"

section \<open>Messages\<close>

record pb_PutRequest =
  bpq_Key :: gostring
  bpq_Value :: bytes
  bpq_ClientId :: int
  bpq_Seq :: int
  bpq_LeaseId :: int

record pb_PutResponse =
  bpp_Err :: gostring
  bpp_Revision :: int

record pb_GetRequest =
  bgq_Key :: gostring
  bgq_ClientId :: int
  bgq_Seq :: int
  bgq_Revision :: int

record pb_GetResponse =
  bgp_Value :: bytes
  bgp_Err :: gostring
  bgp_Revision :: int
  bgp_Found :: bool

record pb_DeleteRequest =
  bdq_Key :: gostring
  bdq_ClientId :: int
  bdq_Seq :: int
  bdq_LeaseId :: int

record pb_DeleteResponse =
  bdp_Deleted :: bool
  bdp_Revision :: int
  bdp_Err :: gostring

record pb_Compare =
  bcmp_Key :: gostring
  bcmp_Op :: int
  bcmp_Rev :: int

record pb_Op =
  bop_Type :: int
  bop_Key :: gostring
  bop_Value :: bytes
  bop_LeaseId :: int

record pb_TxnRequest =
  btq_Compares :: "pb_Compare option list"
  btq_ThenOps :: "pb_Op option list"
  btq_ElseOps :: "pb_Op option list"
  btq_ClientId :: int
  btq_Seq :: int

record pb_KeyValue =
  bkv_Key :: gostring
  bkv_Value :: bytes
  bkv_Revision :: int

record pb_TxnResponse =
  btp_Succeeded :: bool
  btp_Results :: "pb_KeyValue option list"
  btp_Err :: gostring

record pb_WatchRequest =
  bwq_Key :: gostring
  bwq_Revision :: int
  bwq_ClientId :: int
  bwq_Prefix :: bool
  bwq_Seq :: int

record pb_Event =
  bev_Key :: gostring
  bev_Value :: bytes
  bev_Type :: gostring
  bev_Revision :: int

record pb_WatchResponse =
  bwp_Events :: "pb_Event option list"
  bwp_Revision :: int
  bwp_Err :: gostring

record pb_LeaseGrantRequest =
  blgq_Ttl :: int
  blgq_ClientId :: int
  blgq_Seq :: int

record pb_LeaseGrantResponse =
  blgp_Id :: int
  blgp_Ttl :: int
  blgp_Err :: gostring

record pb_LeaseRevokeRequest =
  blrq_Id :: int
  blrq_ClientId :: int
  blrq_Seq :: int

record pb_LeaseRevokeResponse =
  blrp_Err :: gostring

record pb_LeaseKeepAliveRequest =
  blkq_Id :: int
  blkq_ClientId :: int
  blkq_Seq :: int

record pb_LeaseKeepAliveResponse =
  blkp_Id :: int
  blkp_Ttl :: int
  blkp_Err :: gostring

record pb_RangeRequest =
  brq_Key :: gostring
  brq_Revision :: int
  brq_ClientId :: int
  brq_Prefix :: bool
  brq_Seq :: int

record pb_RangeResponse =
  brp_Kvs :: "pb_KeyValue option list"
  brp_Revision :: int
  brp_Err :: gostring

section \<open>The server's end\<close>

text \<open>\<^verbatim>\<open>internal/server/kvserver/convert_kv.go\<close>.\<close>

definition fromPBPutRequest :: "pb_PutRequest option \<Rightarrow> PutRequest option" where
  "fromPBPutRequest req = map_option (\<lambda>r. \<lparr>pq_Key = bpq_Key r, pq_Value = bpq_Value r,
     pq_LeaseID = bpq_LeaseId r, pq_ClientID = bpq_ClientId r, pq_Seq = bpq_Seq r\<rparr>) req"

definition toPBPutResponse :: "PutResponse option \<Rightarrow> pb_PutResponse" where
  "toPBPutResponse resp =
     (case resp of None \<Rightarrow> \<lparr>bpp_Err = [], bpp_Revision = 0\<rparr>
      | Some r \<Rightarrow> \<lparr>bpp_Err = pp_Err r, bpp_Revision = pp_Revision r\<rparr>)"

definition fromPBGetRequest :: "pb_GetRequest option \<Rightarrow> GetRequest option" where
  "fromPBGetRequest req = map_option (\<lambda>r. \<lparr>gq_Key = bgq_Key r, gq_Revision = bgq_Revision r,
     gq_ClientID = bgq_ClientId r, gq_Seq = bgq_Seq r\<rparr>) req"

definition toPBGetResponse :: "GetResponse option \<Rightarrow> pb_GetResponse" where
  "toPBGetResponse resp =
     (case resp of
        None \<Rightarrow> \<lparr>bgp_Value = [], bgp_Err = [], bgp_Revision = 0, bgp_Found = False\<rparr>
      | Some r \<Rightarrow> \<lparr>bgp_Value = gp_Value r, bgp_Err = gp_Err r, bgp_Revision = gp_Revision r,
          bgp_Found = gp_Found r\<rparr>)"

definition fromPBDeleteRequest :: "pb_DeleteRequest option \<Rightarrow> DeleteRequest option" where
  "fromPBDeleteRequest req = map_option (\<lambda>r. \<lparr>dq_Key = bdq_Key r, dq_LeaseID = bdq_LeaseId r,
     dq_ClientID = bdq_ClientId r, dq_Seq = bdq_Seq r\<rparr>) req"

definition toPBDeleteResponse :: "DeleteResponse option \<Rightarrow> pb_DeleteResponse" where
  "toPBDeleteResponse resp =
     (case resp of None \<Rightarrow> \<lparr>bdp_Deleted = False, bdp_Revision = 0, bdp_Err = []\<rparr>
      | Some r \<Rightarrow> \<lparr>bdp_Deleted = dp_Deleted r, bdp_Revision = dp_Revision r, bdp_Err = dp_Err r\<rparr>)"

definition toPBEvent :: "kv_Event option \<Rightarrow> pb_Event option" where
  "toPBEvent ev = map_option (\<lambda>e.
     (let t = (if kev_Type e = 2 then str ''DELETE'' else str ''PUT'')
      in \<lparr>bev_Key = kev_Key e, bev_Value = kev_Value e, bev_Type = t, bev_Revision = kev_Rev e\<rparr>)) ev"

text \<open>The enum constants of \<^verbatim>\<open>kv\<close> and of \<^verbatim>\<open>pb\<close> have the same numbers.\<close>

definition fromPBCompareOp :: "int \<Rightarrow> int" where
  "fromPBCompareOp op = (if op = 0 then 0 else if op = 1 then 1 else 2)"

definition fromPBOpType :: "int \<Rightarrow> int" where
  "fromPBOpType op = (if op = 1 then 1 else if op = 0 then 0 else 2)"

definition toPBKeyValue :: "kv_KeyValue option \<Rightarrow> pb_KeyValue option" where
  "toPBKeyValue item = map_option (\<lambda>i. \<lparr>bkv_Key = kkv_Key i, bkv_Value = kkv_Value i,
     bkv_Revision = kkv_Revision i\<rparr>) item"

definition toPBKeyValues :: "kv_KeyValue option list \<Rightarrow> pb_KeyValue option list" where
  "toPBKeyValues items =
     (if length items = 0 then [] else map (\<lambda>i. toPBKeyValue (Some i)) (non_nil items))"

text \<open>The bodies of the three loops of \<^verbatim>\<open>fromPBTxnRequest\<close>.\<close>

definition fromPBCompare :: "pb_Compare \<Rightarrow> kv_Compare" where
  "fromPBCompare item = \<lparr>kcmp_Key = bcmp_Key item, kcmp_Op = fromPBCompareOp (bcmp_Op item),
     kcmp_Revision = bcmp_Rev item\<rparr>"

definition fromPBOp :: "pb_Op \<Rightarrow> kv_Op" where
  "fromPBOp item = \<lparr>kop_Type = fromPBOpType (bop_Type item), kop_Key = bop_Key item,
     kop_Value = bop_Value item, kop_LeaseID = bop_LeaseId item\<rparr>"

definition fromPBTxnRequest :: "pb_TxnRequest option \<Rightarrow> TxnRequest option" where
  "fromPBTxnRequest req = map_option (\<lambda>r.
     \<lparr>tq_Compares = map (\<lambda>i. Some (fromPBCompare i)) (non_nil (btq_Compares r)),
      tq_ThenOps = map (\<lambda>i. Some (fromPBOp i)) (non_nil (btq_ThenOps r)),
      tq_ElseOps = map (\<lambda>i. Some (fromPBOp i)) (non_nil (btq_ElseOps r)),
      tq_ClientID = btq_ClientId r, tq_Seq = btq_Seq r\<rparr>) req"

definition toPBTxnResponse :: "TxnResponse option \<Rightarrow> pb_TxnResponse" where
  "toPBTxnResponse resp =
     (case resp of None \<Rightarrow> \<lparr>btp_Succeeded = False, btp_Results = [], btp_Err = []\<rparr>
      | Some r \<Rightarrow> \<lparr>btp_Succeeded = tp_Succeeded r, btp_Results = toPBKeyValues (tp_Results r),
          btp_Err = tp_Err r\<rparr>)"

definition fromPBLeaseGrantRequest :: "pb_LeaseGrantRequest option \<Rightarrow> LeaseGrantRequest option" where
  "fromPBLeaseGrantRequest req = map_option (\<lambda>r. \<lparr>lgq_TTL = blgq_Ttl r, lgq_ClientID = blgq_ClientId r,
     lgq_Seq = blgq_Seq r\<rparr>) req"

definition toPBLeaseGrantResponse :: "LeaseGrantResponse option \<Rightarrow> pb_LeaseGrantResponse" where
  "toPBLeaseGrantResponse resp =
     (case resp of None \<Rightarrow> \<lparr>blgp_Id = 0, blgp_Ttl = 0, blgp_Err = []\<rparr>
      | Some r \<Rightarrow> \<lparr>blgp_Id = lgp_ID r, blgp_Ttl = lgp_TTL r, blgp_Err = lgp_Err r\<rparr>)"

definition fromPBLeaseRevokeRequest :: "pb_LeaseRevokeRequest option \<Rightarrow> LeaseRevokeRequest option" where
  "fromPBLeaseRevokeRequest req = map_option (\<lambda>r. \<lparr>lrq_ID = blrq_Id r, lrq_ClientID = blrq_ClientId r,
     lrq_Seq = blrq_Seq r\<rparr>) req"

definition toPBLeaseRevokeResponse :: "LeaseRevokeResponse option \<Rightarrow> pb_LeaseRevokeResponse" where
  "toPBLeaseRevokeResponse resp =
     (case resp of None \<Rightarrow> \<lparr>blrp_Err = []\<rparr> | Some r \<Rightarrow> \<lparr>blrp_Err = lrp_Err r\<rparr>)"

definition fromPBLeaseKeepAliveRequest ::
  "pb_LeaseKeepAliveRequest option \<Rightarrow> LeaseKeepAliveRequest option" where
  "fromPBLeaseKeepAliveRequest req = map_option (\<lambda>r. \<lparr>lkq_ID = blkq_Id r,
     lkq_ClientID = blkq_ClientId r, lkq_Seq = blkq_Seq r\<rparr>) req"

definition toPBLeaseKeepAliveResponse :: "LeaseKeepAliveResponse option \<Rightarrow> pb_LeaseKeepAliveResponse" where
  "toPBLeaseKeepAliveResponse resp =
     (case resp of None \<Rightarrow> \<lparr>blkp_Id = 0, blkp_Ttl = 0, blkp_Err = []\<rparr>
      | Some r \<Rightarrow> \<lparr>blkp_Id = lkp_ID r, blkp_Ttl = lkp_TTL r, blkp_Err = lkp_Err r\<rparr>)"

definition fromPBRangeRequest :: "pb_RangeRequest option \<Rightarrow> RangeRequest option" where
  "fromPBRangeRequest req = map_option (\<lambda>r. \<lparr>rq_Key = brq_Key r, rq_Prefix = brq_Prefix r,
     rq_Revision = brq_Revision r, rq_ClientID = brq_ClientId r, rq_Seq = brq_Seq r\<rparr>) req"

definition toPBRangeResponse :: "RangeResponse option \<Rightarrow> pb_RangeResponse" where
  "toPBRangeResponse resp =
     (case resp of None \<Rightarrow> \<lparr>brp_Kvs = [], brp_Revision = 0, brp_Err = []\<rparr>
      | Some r \<Rightarrow> \<lparr>brp_Kvs = toPBKeyValues (rp_KVs r), brp_Revision = rp_Revision r,
          brp_Err = rp_Err r\<rparr>)"

section \<open>The client's end\<close>

text \<open>\<^verbatim>\<open>internal/client/convert_kv.go\<close>.\<close>

definition toPBPutRequest :: "PutRequest option \<Rightarrow> pb_PutRequest option" where
  "toPBPutRequest req = map_option (\<lambda>r. \<lparr>bpq_Key = pq_Key r, bpq_Value = pq_Value r,
     bpq_ClientId = pq_ClientID r, bpq_Seq = pq_Seq r, bpq_LeaseId = pq_LeaseID r\<rparr>) req"

definition fillPutResponseFromPB :: "PutResponse \<Rightarrow> pb_PutResponse option \<Rightarrow> PutResponse" where
  "fillPutResponseFromPB dst src =
     (case src of None \<Rightarrow> dst
      | Some r \<Rightarrow> dst\<lparr>pp_Err := bpp_Err r, pp_Revision := bpp_Revision r\<rparr>)"

definition toPBGetRequest :: "GetRequest option \<Rightarrow> pb_GetRequest option" where
  "toPBGetRequest req = map_option (\<lambda>r. \<lparr>bgq_Key = gq_Key r, bgq_ClientId = gq_ClientID r,
     bgq_Seq = gq_Seq r, bgq_Revision = gq_Revision r\<rparr>) req"

definition fillGetResponseFromPB :: "GetResponse \<Rightarrow> pb_GetResponse option \<Rightarrow> GetResponse" where
  "fillGetResponseFromPB dst src =
     (case src of None \<Rightarrow> dst
      | Some r \<Rightarrow> dst\<lparr>gp_Value := bgp_Value r, gp_Err := bgp_Err r, gp_Revision := bgp_Revision r,
          gp_Found := bgp_Found r\<rparr>)"

definition toPBDeleteRequest :: "DeleteRequest option \<Rightarrow> pb_DeleteRequest option" where
  "toPBDeleteRequest req = map_option (\<lambda>r. \<lparr>bdq_Key = dq_Key r, bdq_ClientId = dq_ClientID r,
     bdq_Seq = dq_Seq r, bdq_LeaseId = dq_LeaseID r\<rparr>) req"

definition fillDeleteResponseFromPB :: "DeleteResponse \<Rightarrow> pb_DeleteResponse option \<Rightarrow> DeleteResponse" where
  "fillDeleteResponseFromPB dst src =
     (case src of None \<Rightarrow> dst
      | Some r \<Rightarrow> dst\<lparr>dp_Deleted := bdp_Deleted r, dp_Revision := bdp_Revision r, dp_Err := bdp_Err r\<rparr>)"

definition toPBWatchRequest :: "WatchRequest option \<Rightarrow> pb_WatchRequest option" where
  "toPBWatchRequest req = map_option (\<lambda>r. \<lparr>bwq_Key = wq_Key r, bwq_Revision = wq_Revision r,
     bwq_ClientId = wq_ClientID r, bwq_Prefix = wq_Prefix r, bwq_Seq = wq_Seq r\<rparr>) req"

definition fromPBEvent :: "pb_Event option \<Rightarrow> kv_Event option" where
  "fromPBEvent event = map_option (\<lambda>e.
     (let opType = (if bev_Type e = str ''DELETE'' then 2 else 1)
      in \<lparr>kev_Type = opType, kev_Key = bev_Key e, kev_Value = bev_Value e, kev_Rev = bev_Revision e\<rparr>)) event"

definition fromPBEvents :: "pb_Event option list \<Rightarrow> kv_Event option list" where
  "fromPBEvents events =
     (if length events = 0 then [] else map (\<lambda>e. fromPBEvent (Some e)) (non_nil events))"

definition fillWatchResponseFromPB :: "WatchResponse \<Rightarrow> pb_WatchResponse option \<Rightarrow> WatchResponse" where
  "fillWatchResponseFromPB dst src =
     (case src of None \<Rightarrow> dst
      | Some r \<Rightarrow> dst\<lparr>wp_Err := bwp_Err r, wp_Revision := bwp_Revision r,
          wp_Events := fromPBEvents (bwp_Events r)\<rparr>)"

definition toPBRangeRequest :: "RangeRequest option \<Rightarrow> pb_RangeRequest option" where
  "toPBRangeRequest req = map_option (\<lambda>r. \<lparr>brq_Key = rq_Key r, brq_Revision = rq_Revision r,
     brq_ClientId = rq_ClientID r, brq_Prefix = rq_Prefix r, brq_Seq = rq_Seq r\<rparr>) req"

definition fromPBKeyValues :: "pb_KeyValue option list \<Rightarrow> kv_KeyValue option list" where
  "fromPBKeyValues items =
     (if length items = 0 then []
      else map (\<lambda>i. Some \<lparr>kkv_Key = bkv_Key i, kkv_Value = bkv_Value i, kkv_Revision = bkv_Revision i\<rparr>)
             (non_nil items))"

definition fillRangeResponseFromPB :: "RangeResponse \<Rightarrow> pb_RangeResponse option \<Rightarrow> RangeResponse" where
  "fillRangeResponseFromPB dst src =
     (case src of None \<Rightarrow> dst
      | Some r \<Rightarrow> dst\<lparr>rp_KVs := fromPBKeyValues (brp_Kvs r), rp_Revision := brp_Revision r,
          rp_Err := brp_Err r\<rparr>)"

section \<open>Both ends together\<close>

lemma map_Some_non_nil: "None \<notin> set xs \<Longrightarrow> map Some (non_nil xs) = xs"
  by (induction xs rule: non_nil.induct) simp_all

lemma request_ends [simp]:
  "fromPBPutRequest (toPBPutRequest q) = q"
  "fromPBGetRequest (toPBGetRequest g) = g"
  "fromPBDeleteRequest (toPBDeleteRequest d) = d"
  "fromPBRangeRequest (toPBRangeRequest r) = r"
  by (cases q; cases g; cases d; cases r;
      simp add: fromPBPutRequest_def toPBPutRequest_def fromPBGetRequest_def toPBGetRequest_def
      fromPBDeleteRequest_def toPBDeleteRequest_def fromPBRangeRequest_def toPBRangeRequest_def)+

lemma keyvalue_ends: "fromPBKeyValues (toPBKeyValues items) = map Some (non_nil items)"
proof (cases "non_nil items")
  case Nil
  then show ?thesis by (simp add: fromPBKeyValues_def toPBKeyValues_def)
next
  case (Cons i rest)
  then have "length items \<noteq> 0" by auto
  then show ?thesis
    by (simp add: fromPBKeyValues_def toPBKeyValues_def toPBKeyValue_def Cons o_def)
qed

lemma response_ends:
  "fillPutResponseFromPB zero_PutResponse (Some (toPBPutResponse (Some p))) = p"
  "fillGetResponseFromPB zero_GetResponse (Some (toPBGetResponse (Some g))) = g"
  "fillDeleteResponseFromPB zero_DeleteResponse (Some (toPBDeleteResponse (Some d))) = d"
  "None \<notin> set (rp_KVs r) \<Longrightarrow>
     fillRangeResponseFromPB zero_RangeResponse (Some (toPBRangeResponse (Some r))) = r"
  by (simp_all add: fillPutResponseFromPB_def toPBPutResponse_def fillGetResponseFromPB_def
      toPBGetResponse_def fillDeleteResponseFromPB_def toPBDeleteResponse_def
      fillRangeResponseFromPB_def toPBRangeResponse_def keyvalue_ends map_Some_non_nil)

lemma event_ends:
  assumes "kev_Type e = 1 \<or> kev_Type e = 2"
  shows "fromPBEvent (toPBEvent (Some e)) = Some e"
  using assms by (auto simp: fromPBEvent_def toPBEvent_def Let_def str_def)

end
