(* ===== verification/MvccTypes.thy ===== *)
theory MvccTypes
  imports Prelude
begin

text \<open>
  The data of \<^verbatim>\<open>internal/storage/mvcc\<close>: revisions with their order
  (\<^verbatim>\<open>revision.go\<close>), the versions, events, leases and transactions of
  \<^verbatim>\<open>type.go\<close>, and the \<^verbatim>\<open>Backend\<close> interface of \<^verbatim>\<open>backend.go\<close> as a record
  of the methods a store calls, with the deep copies that file defines.
\<close>

section \<open>Revisions\<close>

datatype Revision = Revision (Main: int) (Sub: int)

definition Revision_Less :: "Revision \<Rightarrow> Revision \<Rightarrow> bool" where
  "Revision_Less r p = (if Main r \<noteq> Main p then Main r < Main p else Sub r < Sub p)"

text \<open>The order of \<^verbatim>\<open>Less\<close> is a linear order, so the library's sorting applies to it.\<close>

instantiation Revision :: linorder
begin

definition less_Revision :: "Revision \<Rightarrow> Revision \<Rightarrow> bool" where
  "less_Revision r p \<longleftrightarrow> Revision_Less r p"

definition less_eq_Revision :: "Revision \<Rightarrow> Revision \<Rightarrow> bool" where
  "less_eq_Revision r p \<longleftrightarrow> Revision_Less r p \<or> r = p"

instance
proof
  fix r p q :: Revision
  show "r < p \<longleftrightarrow> r \<le> p \<and> \<not> p \<le> r"
    by (auto simp: less_Revision_def less_eq_Revision_def Revision_Less_def split: if_splits)
  show "r \<le> r"
    by (simp add: less_eq_Revision_def)
  show "r \<le> p \<Longrightarrow> p \<le> q \<Longrightarrow> r \<le> q"
    by (auto simp: less_eq_Revision_def Revision_Less_def split: if_splits)
  show "r \<le> p \<Longrightarrow> p \<le> r \<Longrightarrow> r = p"
    by (auto simp: less_eq_Revision_def Revision_Less_def split: if_splits)
  show "r \<le> p \<or> p \<le> r"
    by (cases r; cases p) (auto simp: less_eq_Revision_def Revision_Less_def)
qed

end

lemma Revision_le_iff:
  "r \<le> p \<longleftrightarrow> Main r < Main p \<or> Main r = Main p \<and> Sub r \<le> Sub p"
  by (cases r; cases p) (auto simp: less_eq_Revision_def Revision_Less_def)

section \<open>Versions, events, leases, transactions\<close>

text \<open>
  \<^verbatim>\<open>EventType\<close> is a \<^verbatim>\<open>uint8\<close>, \<^verbatim>\<open>CompareOp\<close> and \<^verbatim>\<open>OpType\<close> are \<^verbatim>\<open>int\<close>:
  values outside the constants exist and are kept.
\<close>

abbreviation (input) EventPut :: int where "EventPut \<equiv> 0"
abbreviation (input) EventDelete :: int where "EventDelete \<equiv> 1"

abbreviation (input) CompareEqual :: int where "CompareEqual \<equiv> 0"
abbreviation (input) CompareGreater :: int where "CompareGreater \<equiv> 1"
abbreviation (input) CompareLess :: int where "CompareLess \<equiv> 2"

abbreviation (input) OpGet :: int where "OpGet \<equiv> 0"
abbreviation (input) OpPut :: int where "OpPut \<equiv> 1"
abbreviation (input) OpDelete :: int where "OpDelete \<equiv> 2"

record Event =
  ev_Type :: int
  ev_Key :: gostring
  ev_Value :: bytes
  ev_Rev :: Revision

record ValueRevision =
  vr_Rev :: Revision
  vr_Value :: bytes
  vr_Deleted :: bool

record KeyValue =
  kv_Key :: gostring
  kv_Value :: bytes
  kv_Rev :: Revision

record Compare =
  cmp_Key :: gostring
  cmp_Op :: int
  cmp_Rev :: int

record Operation =
  op_Type :: int
  op_Key :: gostring
  op_Value :: bytes
  op_LeaseID :: int

record Txn =
  txn_Compares :: "Compare list"
  txn_ThenOps :: "Operation list"
  txn_ElseOps :: "Operation list"

text \<open>An instant is its nanoseconds since the Unix epoch; \<^verbatim>\<open>time.Now()\<close> is an argument.\<close>

record Lease =
  le_ID :: int
  le_TTL :: int
  le_ExpireAt :: int
  le_Keys :: "gostring set"

record LeaseManager =
  lm_leases :: "int \<rightharpoonup> Lease"
  lm_nextLeaseID :: int

abbreviation vmain :: "ValueRevision \<Rightarrow> int" where
  "vmain v \<equiv> Main (vr_Rev v)"

abbreviation emain :: "Event \<Rightarrow> int" where
  "emain e \<equiv> Main (ev_Rev e)"

section \<open>The backend interface\<close>

record BackendState =
  bs_Data :: "gostring \<rightharpoonup> ValueRevision list"
  bs_Events :: "Event list"
  bs_CurrentRev :: int
  bs_CompactRev :: int

text \<open>
  The method table of the Go interface: a reader takes the receiver, a writer also
  returns the receiver after the call. \<^verbatim>\<open>GetRevisions\<close> is \<^const>\<open>None\<close> for the
  pair \<^verbatim>\<open>(nil, false)\<close>.
\<close>

record 'b Backend =
  be_CurrentRev :: "'b \<Rightarrow> int"
  be_SetCurrentRev :: "'b \<Rightarrow> int \<Rightarrow> 'b"
  be_CompactRev :: "'b \<Rightarrow> int"
  be_SetCompactRev :: "'b \<Rightarrow> int \<Rightarrow> 'b"
  be_GetRevisions :: "'b \<Rightarrow> gostring \<Rightarrow> ValueRevision list option"
  be_SetRevisions :: "'b \<Rightarrow> gostring \<Rightarrow> ValueRevision list \<Rightarrow> 'b"
  be_RangeKeys :: "'b \<Rightarrow> gostring \<Rightarrow> gostring \<Rightarrow> gostring list"
  be_Events :: "'b \<Rightarrow> Event list"
  be_SetEvents :: "'b \<Rightarrow> Event list \<Rightarrow> 'b"
  be_AppendEvent :: "'b \<Rightarrow> Event \<Rightarrow> 'b"
  be_SnapshotState :: "'b \<Rightarrow> BackendState"
  be_ReplaceState :: "'b \<Rightarrow> BackendState \<Rightarrow> 'b"

definition cloneValueRevisions :: "ValueRevision list \<Rightarrow> ValueRevision list" where
  "cloneValueRevisions src =
     map (\<lambda>version. \<lparr>vr_Rev = vr_Rev version, vr_Value = [] @ vr_Value version,
                     vr_Deleted = vr_Deleted version\<rparr>) src"

definition cloneEvent :: "Event \<Rightarrow> Event" where
  "cloneEvent src =
     \<lparr>ev_Type = ev_Type src, ev_Key = ev_Key src, ev_Value = [] @ ev_Value src,
      ev_Rev = ev_Rev src\<rparr>"

definition cloneEvents :: "Event list \<Rightarrow> Event list" where
  "cloneEvents src = map cloneEvent src"

definition cloneData ::
  "(gostring \<rightharpoonup> ValueRevision list) \<Rightarrow> (gostring \<rightharpoonup> ValueRevision list)" where
  "cloneData src = (\<lambda>key. map_option cloneValueRevisions (src key))"

lemma cloneValueRevisions_id [clone_simps, simp]: "cloneValueRevisions src = src"
  by (induction src) (simp_all add: cloneValueRevisions_def)

lemma cloneEvent_id [clone_simps, simp]: "cloneEvent src = src"
  by (simp add: cloneEvent_def)

lemma cloneEvents_id [clone_simps, simp]: "cloneEvents src = src"
  by (induction src) (simp_all add: cloneEvents_def)

lemma cloneData_id [clone_simps, simp]: "cloneData src = src"
  by (rule ext) (simp add: cloneData_def option.map_ident_strong)

text \<open>What every backend keeps: finitely many keys, and no key without a version.\<close>

definition state_ok :: "BackendState \<Rightarrow> bool" where
  "state_ok st \<longleftrightarrow> finite (dom (bs_Data st)) \<and> [] \<notin> ran (bs_Data st)"

text \<open>
  The contract a store relies on: the methods act on an abstract \<^typ>\<open>BackendState\<close>
  as on a plain record, and the range query returns exactly the keys in the half-open
  interval, in order (an empty end key means no upper bound).
\<close>

locale mvcc_backend =
  fixes be :: "'b Backend"
    and invar :: "'b \<Rightarrow> bool"
    and st :: "'b \<Rightarrow> BackendState"
  assumes CurrentRev [simp]: "invar b \<Longrightarrow> be_CurrentRev be b = bs_CurrentRev (st b)"
    and CompactRev [simp]: "invar b \<Longrightarrow> be_CompactRev be b = bs_CompactRev (st b)"
    and GetRevisions [simp]: "invar b \<Longrightarrow> be_GetRevisions be b k = bs_Data (st b) k"
    and Events [simp]: "invar b \<Longrightarrow> be_Events be b = bs_Events (st b)"
    and SnapshotState [simp]: "invar b \<Longrightarrow> be_SnapshotState be b = st b"
    and RangeKeys [simp]: "invar b \<Longrightarrow> be_RangeKeys be b s e =
      sorted_list_of_set {k \<in> dom (bs_Data (st b)). s \<le> k \<and> (e = [] \<or> k < e)}"
    and SetCurrentRev [simp]: "invar b \<Longrightarrow>
      invar (be_SetCurrentRev be b r) \<and> st (be_SetCurrentRev be b r) = (st b)\<lparr>bs_CurrentRev := r\<rparr>"
    and SetCompactRev [simp]: "invar b \<Longrightarrow>
      invar (be_SetCompactRev be b r) \<and> st (be_SetCompactRev be b r) = (st b)\<lparr>bs_CompactRev := r\<rparr>"
    and SetRevisions [simp]: "invar b \<Longrightarrow>
      invar (be_SetRevisions be b k vs) \<and>
      st (be_SetRevisions be b k vs) =
        (st b)\<lparr>bs_Data := (bs_Data (st b))(k := if vs = [] then None else Some vs)\<rparr>"
    and SetEvents [simp]: "invar b \<Longrightarrow>
      invar (be_SetEvents be b es) \<and> st (be_SetEvents be b es) = (st b)\<lparr>bs_Events := es\<rparr>"
    and AppendEvent [simp]: "invar b \<Longrightarrow>
      invar (be_AppendEvent be b ev) \<and>
      st (be_AppendEvent be b ev) = (st b)\<lparr>bs_Events := bs_Events (st b) @ [ev]\<rparr>"
    and ReplaceState [simp]: "invar b \<Longrightarrow> state_ok s' \<Longrightarrow>
      invar (be_ReplaceState be b s') \<and> st (be_ReplaceState be b s') = s'"
    and state_ok [simp]: "invar b \<Longrightarrow> state_ok (st b)"

end
