(* ===== verification/MvccIndex.thy ===== *)
theory MvccIndex
  imports MvccTypes
begin

text \<open>
  \<^verbatim>\<open>internal/storage/mvcc/index.go\<close>: the binary searches over the sorted key list and
  over one key's versions, each proved equal to the linear definition of what it looks for.
\<close>

section \<open>Searching the ordered key list\<close>

definition orderedKeyRangeStart :: "gostring list \<Rightarrow> gostring \<Rightarrow> nat" where
  "orderedKeyRangeStart keys target = sort_Search (length keys) (\<lambda>i. keys ! i \<ge> target)"

definition orderedKeyRangeEnd :: "gostring list \<Rightarrow> nat \<Rightarrow> gostring \<Rightarrow> nat" where
  "orderedKeyRangeEnd keys start endKey =
     (if endKey = [] then length keys
      else start + sort_Search (length keys - start) (\<lambda>i. keys ! (start + i) \<ge> endKey))"

lemma orderedKeyRangeStart_eq:
  "sorted keys \<Longrightarrow> orderedKeyRangeStart keys t = length (filter (\<lambda>k. k < t) keys)"
  unfolding orderedKeyRangeStart_def by (rule sort_Search_ge)

lemma orderedKeyRangeEnd_eq:
  assumes "sorted keys" and "start \<le> length keys" and "endKey \<noteq> []"
  shows "orderedKeyRangeEnd keys start endKey =
    start + length (filter (\<lambda>k. k < endKey) (drop start keys))"
proof -
  have "sort_Search (length (drop start keys)) (\<lambda>i. endKey \<le> drop start keys ! i) =
      length (filter (\<lambda>k. k < endKey) (drop start keys))"
    using assms(1) by (intro sort_Search_ge sorted_wrt_drop)
  with assms(2,3) show ?thesis by (simp add: orderedKeyRangeEnd_def)
qed

text \<open>The slice between the two positions is the keys of the half-open interval.\<close>

lemma key_slice_eq:
  assumes "sorted keys"
  shows "(let start = orderedKeyRangeStart keys s in
      take (orderedKeyRangeEnd keys start e - start) (drop start keys)) =
    filter (\<lambda>k. s \<le> k \<and> (e = [] \<or> k < e)) keys"
proof -
  let ?n = "length (filter (\<lambda>k. k < s) keys)"
  have d: "drop ?n keys = filter (\<lambda>k. s \<le> k) keys"
    using sorted_filter_less_take(2) [OF assms] by simp
  have n: "?n \<le> length keys" by simp
  show ?thesis
  proof (cases "e = []")
    case True
    then show ?thesis
      by (simp add: orderedKeyRangeStart_eq assms orderedKeyRangeEnd_def d)
  next
    case False
    have "sorted (filter (\<lambda>k. s \<le> k) keys)" using assms by (rule sorted_wrt_filter)
    from sorted_filter_less_take(1) [OF this, of e]
    have "take (length (filter (\<lambda>k. k < e) (drop ?n keys))) (drop ?n keys) =
        filter (\<lambda>k. k < e) (filter (\<lambda>k. s \<le> k) keys)"
      unfolding d by simp
    with False show ?thesis
      by (simp add: orderedKeyRangeStart_eq assms orderedKeyRangeEnd_eq [OF assms n] Let_def
          conj_commute)
  qed
qed

section \<open>The version visible at a revision\<close>

text \<open>The loop \<^verbatim>\<open>for left <= right\<close> of \<^verbatim>\<open>latestVisibleRevision\<close>.\<close>

function visible_loop :: "ValueRevision list \<Rightarrow> int \<Rightarrow> int \<Rightarrow> int \<Rightarrow> int \<Rightarrow> int" where
  "visible_loop versions rv left right pos =
     (if left \<le> right then
        (let mid = (left + right) div 2
         in if vmain (versions ! nat mid) \<le> rv
            then visible_loop versions rv (mid + 1) right mid
            else visible_loop versions rv left (mid - 1) pos)
      else pos)"
  by pat_completeness auto
termination
  by (relation "measure (\<lambda>(versions, rv, left, right, pos). nat (right - left + 1))") auto

declare visible_loop.simps [simp del]

definition latestVisibleRevision :: "ValueRevision list \<Rightarrow> int \<Rightarrow> ValueRevision option" where
  "latestVisibleRevision versions rv =
     (let pos = visible_loop versions rv 0 (int (length versions) - 1) (-1)
      in if pos = -1 then None
         else if vr_Deleted (versions ! nat pos) then None
         else Some (versions ! nat pos))"

definition firstRevisionAfter :: "ValueRevision list \<Rightarrow> int \<Rightarrow> int" where
  "firstRevisionAfter versions rv =
     (let idx = sort_Search (length versions) (\<lambda>i. vmain (versions ! i) > rv)
      in if idx = length versions then -1 else int idx)"

text \<open>Versions of a key are written in strictly increasing main revision.\<close>

definition versions_sorted :: "ValueRevision list \<Rightarrow> bool" where
  "versions_sorted vs \<longleftrightarrow> sorted_wrt (<) (map vmain vs)"

text \<open>
  Reference: the last version whose main revision is at most \<open>rv\<close>, unless it is a
  tombstone. \<open>upto\<close> is the prefix of versions that exist at \<open>rv\<close>.
\<close>

abbreviation upto_rev :: "ValueRevision list \<Rightarrow> int \<Rightarrow> ValueRevision list" where
  "upto_rev vs rv \<equiv> filter (\<lambda>v. vmain v \<le> rv) vs"

definition visible_at :: "ValueRevision list \<Rightarrow> int \<Rightarrow> ValueRevision option" where
  "visible_at vs rv =
     (if upto_rev vs rv = [] \<or> vr_Deleted (last (upto_rev vs rv)) then None
      else Some (last (upto_rev vs rv)))"

lemma versions_sorted_Nil [simp]: "versions_sorted []"
  by (simp add: versions_sorted_def)

lemma versions_sorted_snoc:
  "versions_sorted (vs @ [v]) \<longleftrightarrow> versions_sorted vs \<and> (\<forall>u \<in> set vs. vmain u < vmain v)"
  by (auto simp: versions_sorted_def sorted_wrt_append)

lemma versions_sorted_drop: "versions_sorted vs \<Longrightarrow> versions_sorted (drop n vs)"
  by (simp add: versions_sorted_def drop_map [symmetric] sorted_wrt_drop)

lemma versions_sorted_nth:
  "versions_sorted vs \<Longrightarrow> i \<le> j \<Longrightarrow> j < length vs \<Longrightarrow> vmain (vs ! i) \<le> vmain (vs ! j)"
  unfolding versions_sorted_def
  by (cases "i = j") (auto dest: sorted_wrt_nth_less [of _ _ i j])

lemma upto_rev_prefix:
  assumes "versions_sorted vs"
  shows "upto_rev vs rv = take (length (upto_rev vs rv)) vs"
    and "\<And>i. i < length (upto_rev vs rv) \<Longrightarrow> vmain (vs ! i) \<le> rv"
    and "\<And>i. length (upto_rev vs rv) \<le> i \<Longrightarrow> i < length vs \<Longrightarrow> rv < vmain (vs ! i)"
proof -
  have split: "vs = upto_rev vs rv @ filter (\<lambda>v. rv < vmain v) vs"
    using assms
  proof (induction vs)
    case (Cons v vs)
    show ?case
    proof (cases "vmain v \<le> rv")
      case True
      with Cons show ?thesis by (simp add: versions_sorted_def)
    next
      case False
      with Cons.prems have "\<forall>u \<in> set vs. rv < vmain u"
        by (auto simp: versions_sorted_def)
      then have "upto_rev vs rv = []" "filter (\<lambda>v. rv < vmain v) vs = vs"
        by (auto simp: filter_empty_conv filter_id_conv)
      with False show ?thesis by simp
    qed
  qed simp
  then show "upto_rev vs rv = take (length (upto_rev vs rv)) vs"
    by (metis append_eq_conv_conj)
  show "vmain (vs ! i) \<le> rv" if "i < length (upto_rev vs rv)" for i
  proof -
    have "vs ! i = upto_rev vs rv ! i" using that split by (metis nth_append)
    with nth_mem [OF that] show ?thesis by auto
  qed
  show "rv < vmain (vs ! i)" if "length (upto_rev vs rv) \<le> i" "i < length vs" for i
  proof -
    let ?g = "filter (\<lambda>v. rv < vmain v) vs" and ?j = "i - length (upto_rev vs rv)"
    have "vs ! i = ?g ! ?j" using that(1) split by (metis nth_append not_less)
    moreover have "?j < length ?g"
      using that arg_cong [OF split, of length] unfolding length_append by linarith
    ultimately have "vs ! i \<in> set ?g" by (metis nth_mem)
    then show ?thesis by simp
  qed
qed

text \<open>
  The loop returns the position of the last version at or before \<open>rv\<close>: below
  \<open>left\<close> everything is at most \<open>rv\<close>, above \<open>right\<close> everything is later, and
  \<open>pos\<close> is \<open>left - 1\<close>.
\<close>

lemma visible_loop_eq:
  assumes "versions_sorted vs" and "n = int (length (upto_rev vs rv))"
    and "0 \<le> left" "right < int (length vs)" "left \<le> n" "n \<le> right + 1" "pos = left - 1"
  shows "visible_loop vs rv left right pos = n - 1"
  using assms
proof (induction vs rv left right pos rule: visible_loop.induct)
  case (1 vs rv left right pos)
  note low = upto_rev_prefix(2) [OF "1.prems"(1), where rv = rv]
  note high = upto_rev_prefix(3) [OF "1.prems"(1), where rv = rv]
  define mid where "mid = (left + right) div 2"
  show ?case
  proof (cases "left \<le> right")
    case False
    with "1.prems" have "left = n" by simp
    with False "1.prems" show ?thesis by (subst visible_loop.simps) simp
  next
    case True
    then have mid: "left \<le> mid" "mid \<le> right" by (auto simp: mid_def)
    show ?thesis
    proof (cases "vmain (vs ! nat mid) \<le> rv")
      case le: True
      have "rv < vmain (vs ! nat mid)" if "n \<le> mid"
        using high [of "nat mid"] that mid "1.prems" by (simp add: le_nat_iff nat_less_iff)
      with le have "mid + 1 \<le> n" by force
      then have "visible_loop vs rv (mid + 1) right mid = n - 1"
        using "1.IH"(1) [OF True mid_def le] "1.prems" mid by simp
      with True le show ?thesis by (simp add: visible_loop.simps [of vs] mid_def)
    next
      case gt: False
      have "vmain (vs ! nat mid) \<le> rv" if "mid < n"
        using low [of "nat mid"] that mid "1.prems" by (simp add: nat_less_iff)
      with gt have "n \<le> mid" by force
      then have "visible_loop vs rv left (mid - 1) pos = n - 1"
        using "1.IH"(2) [OF True mid_def gt] "1.prems" mid by simp
      with True gt show ?thesis by (simp add: visible_loop.simps [of vs] mid_def)
    qed
  qed
qed

lemma visible_loop_start:
  "versions_sorted vs \<Longrightarrow>
    visible_loop vs rv 0 (int (length vs) - 1) (-1) = int (length (upto_rev vs rv)) - 1"
  by (rule visible_loop_eq) (auto simp: length_filter_le)

lemma nth_upto_last:
  assumes "versions_sorted vs" and "upto_rev vs rv \<noteq> []"
  shows "vs ! nat (int (length (upto_rev vs rv)) - 1) = last (upto_rev vs rv)"
proof -
  let ?u = "upto_rev vs rv"
  have "nat (int (length ?u) - 1) = length ?u - 1" by simp
  moreover have "length ?u - 1 < length ?u" using assms(2) by simp
  ultimately show ?thesis
    using upto_rev_prefix(1) [OF assms(1), of rv] assms(2) by (metis last_conv_nth nth_take)
qed

lemma latestVisibleRevision_eq:
  assumes "versions_sorted vs"
  shows "latestVisibleRevision vs rv = visible_at vs rv"
proof (cases "upto_rev vs rv = []")
  case True
  then have "int (length (upto_rev vs rv)) - 1 = -1" by simp
  with True assms show ?thesis
    by (simp only: latestVisibleRevision_def visible_loop_start Let_def visible_at_def) simp
next
  case False
  then have "int (length (upto_rev vs rv)) - 1 \<noteq> -1" by simp
  with False assms show ?thesis
    by (simp add: latestVisibleRevision_def visible_loop_start visible_at_def)
      (simp add: nth_upto_last [OF assms False])
qed

lemma firstRevisionAfter_eq:
  assumes "versions_sorted vs"
  shows "firstRevisionAfter vs rv =
    (if upto_rev vs rv = vs then -1 else int (length (upto_rev vs rv)))"
proof -
  have "sort_Search (length vs) (\<lambda>i. rv < vmain (vs ! i)) = length (upto_rev vs rv)"
  proof (rule sort_Search_eqI)
    show "upward (\<lambda>i. rv < vmain (vs ! i)) 0 (length vs)"
      unfolding upward_def using versions_sorted_nth [OF assms] by (meson less_le_trans)
    show "boundary (\<lambda>i. rv < vmain (vs ! i)) 0 (length vs) (length (upto_rev vs rv))"
      using upto_rev_prefix(2,3) [OF assms, where rv = rv]
      by (auto simp: boundary_def not_less length_filter_le)
  qed
  moreover have "length (upto_rev vs rv) = length vs \<longleftrightarrow> upto_rev vs rv = vs"
    by (metis filter_id_conv length_filter_less nat_neq_iff)
  ultimately show ?thesis by (simp add: firstRevisionAfter_def)
qed

end
