(* ===== verification/MemoryBackend.thy ===== *)
theory MemoryBackend
  imports MvccIndex
begin

text \<open>
  \<^verbatim>\<open>internal/storage/mvcc/memory_backend.go\<close>: the in-memory backend with its derived
  index of sorted keys. The invariant says that the index is exactly the sorted key set;
  every operation keeps it, and the backend meets the interface contract
  \<^verbatim>\<open>mvcc_backend\<close>.
\<close>

record MemoryBackend =
  mb_data :: "gostring \<rightharpoonup> ValueRevision list"
  mb_sortedKeys :: "gostring list"
  mb_events :: "Event list"
  mb_currentRev :: int
  mb_compactRev :: int

definition NewMemoryBackend :: MemoryBackend where
  "NewMemoryBackend =
     \<lparr>mb_data = Map.empty, mb_sortedKeys = [], mb_events = [], mb_currentRev = 0,
      mb_compactRev = 0\<rparr>"

definition MemoryBackend_CurrentRev :: "MemoryBackend \<Rightarrow> int" where
  "MemoryBackend_CurrentRev b = mb_currentRev b"

definition MemoryBackend_SetCurrentRev :: "MemoryBackend \<Rightarrow> int \<Rightarrow> MemoryBackend" where
  "MemoryBackend_SetCurrentRev b r = b\<lparr>mb_currentRev := r\<rparr>"

definition MemoryBackend_CompactRev :: "MemoryBackend \<Rightarrow> int" where
  "MemoryBackend_CompactRev b = mb_compactRev b"

definition MemoryBackend_SetCompactRev :: "MemoryBackend \<Rightarrow> int \<Rightarrow> MemoryBackend" where
  "MemoryBackend_SetCompactRev b r = b\<lparr>mb_compactRev := r\<rparr>"

definition MemoryBackend_GetRevisions :: "MemoryBackend \<Rightarrow> gostring \<Rightarrow> ValueRevision list option" where
  "MemoryBackend_GetRevisions b key =
     (case mb_data b key of
        None \<Rightarrow> None
      | Some revisions \<Rightarrow> Some (cloneValueRevisions revisions))"

text \<open>
  \<^verbatim>\<open>append(keys, "")\<close> makes room at the end, the overlapping \<^verbatim>\<open>copy\<close> shifts the tail
  one place to the right, and the slot at \<^verbatim>\<open>pos\<close> is overwritten.
\<close>

definition insertKeyIntoIndex :: "gostring list \<Rightarrow> gostring \<Rightarrow> gostring list" where
  "insertKeyIntoIndex keys key =
     (let pos = orderedKeyRangeStart keys key
      in if pos < length keys \<and> keys ! pos = key then keys
         else (let grown = keys @ [[]];
                   shifted = take (pos + 1) grown @ take (length grown - (pos + 1)) (drop pos grown)
               in shifted[pos := key]))"

definition deleteKeyFromIndex :: "gostring list \<Rightarrow> gostring \<Rightarrow> gostring list" where
  "deleteKeyFromIndex keys key =
     (let pos = orderedKeyRangeStart keys key
      in if pos \<ge> length keys \<or> keys ! pos \<noteq> key then keys
         else take pos keys @ drop (pos + 1) keys)"

definition MemoryBackend_SetRevisions ::
  "MemoryBackend \<Rightarrow> gostring \<Rightarrow> ValueRevision list \<Rightarrow> MemoryBackend" where
  "MemoryBackend_SetRevisions b key revisions =
     (let cloned = cloneValueRevisions revisions
      in if length cloned = 0
         then b\<lparr>mb_data := (mb_data b)(key := None),
                mb_sortedKeys := deleteKeyFromIndex (mb_sortedKeys b) key\<rparr>
         else (let b1 = (if mb_data b key = None
                         then b\<lparr>mb_sortedKeys := insertKeyIntoIndex (mb_sortedKeys b) key\<rparr>
                         else b)
               in b1\<lparr>mb_data := (mb_data b1)(key \<mapsto> cloned)\<rparr>))"

definition MemoryBackend_RangeKeys ::
  "MemoryBackend \<Rightarrow> gostring \<Rightarrow> gostring \<Rightarrow> gostring list" where
  "MemoryBackend_RangeKeys b startKey endKey =
     (let start = orderedKeyRangeStart (mb_sortedKeys b) startKey
      in let fin = orderedKeyRangeEnd (mb_sortedKeys b) start endKey
         in take (fin - start) (drop start (mb_sortedKeys b)))"

definition MemoryBackend_Events :: "MemoryBackend \<Rightarrow> Event list" where
  "MemoryBackend_Events b = cloneEvents (mb_events b)"

definition MemoryBackend_SetEvents :: "MemoryBackend \<Rightarrow> Event list \<Rightarrow> MemoryBackend" where
  "MemoryBackend_SetEvents b events = b\<lparr>mb_events := cloneEvents events\<rparr>"

definition MemoryBackend_AppendEvent :: "MemoryBackend \<Rightarrow> Event \<Rightarrow> MemoryBackend" where
  "MemoryBackend_AppendEvent b event = b\<lparr>mb_events := mb_events b @ [cloneEvent event]\<rparr>"

definition MemoryBackend_SnapshotState :: "MemoryBackend \<Rightarrow> BackendState" where
  "MemoryBackend_SnapshotState b =
     \<lparr>bs_Data = cloneData (mb_data b), bs_Events = cloneEvents (mb_events b),
      bs_CurrentRev = mb_currentRev b, bs_CompactRev = mb_compactRev b\<rparr>"

text \<open>\<^verbatim>\<open>rebuildKeyIndex\<close> collects the keys of the map and sorts them.\<close>

definition rebuildKeyIndex :: "MemoryBackend \<Rightarrow> MemoryBackend" where
  "rebuildKeyIndex b = b\<lparr>mb_sortedKeys := sorted_list_of_set (dom (mb_data b))\<rparr>"

definition MemoryBackend_ReplaceState :: "MemoryBackend \<Rightarrow> BackendState \<Rightarrow> MemoryBackend" where
  "MemoryBackend_ReplaceState b state =
     (let b1 = rebuildKeyIndex (b\<lparr>mb_data := cloneData (bs_Data state)\<rparr>)
      in b1\<lparr>mb_events := cloneEvents (bs_Events state),
            mb_currentRev := bs_CurrentRev state,
            mb_compactRev := bs_CompactRev state\<rparr>)"

text \<open>The method table through which \<^verbatim>\<open>KVStore\<close> calls this backend.\<close>

definition memory_backend :: "MemoryBackend Backend" where
  "memory_backend =
     \<lparr>be_CurrentRev = MemoryBackend_CurrentRev,
      be_SetCurrentRev = MemoryBackend_SetCurrentRev,
      be_CompactRev = MemoryBackend_CompactRev,
      be_SetCompactRev = MemoryBackend_SetCompactRev,
      be_GetRevisions = MemoryBackend_GetRevisions,
      be_SetRevisions = MemoryBackend_SetRevisions,
      be_RangeKeys = MemoryBackend_RangeKeys,
      be_Events = MemoryBackend_Events,
      be_SetEvents = MemoryBackend_SetEvents,
      be_AppendEvent = MemoryBackend_AppendEvent,
      be_SnapshotState = MemoryBackend_SnapshotState,
      be_ReplaceState = MemoryBackend_ReplaceState\<rparr>"

lemmas memory_backend_defs =
  memory_backend_def MemoryBackend_CurrentRev_def MemoryBackend_SetCurrentRev_def
  MemoryBackend_CompactRev_def MemoryBackend_SetCompactRev_def MemoryBackend_GetRevisions_def
  MemoryBackend_SetRevisions_def MemoryBackend_RangeKeys_def MemoryBackend_Events_def
  MemoryBackend_SetEvents_def MemoryBackend_AppendEvent_def MemoryBackend_SnapshotState_def
  MemoryBackend_ReplaceState_def rebuildKeyIndex_def

section \<open>Invariant\<close>

definition mem_inv :: "MemoryBackend \<Rightarrow> bool" where
  "mem_inv b \<longleftrightarrow>
     finite (dom (mb_data b)) \<and> [] \<notin> ran (mb_data b) \<and>
     mb_sortedKeys b = sorted_list_of_set (dom (mb_data b))"

text \<open>
  On a sorted index, the position of a key splits the keys below it from the rest, so
  insertion and deletion agree with the library's on sorted lists.
\<close>

lemma sorted_split_at:
  fixes keys :: "'a::linorder list"
  assumes "sorted keys"
  shows "take (length (filter (\<lambda>k. k < x) keys)) keys = filter (\<lambda>k. k < x) keys"
    and "drop (length (filter (\<lambda>k. k < x) keys)) keys = filter (\<lambda>k. x \<le> k) keys"
  using sorted_filter_less_take [OF assms, of x] by simp_all

lemma insertKeyIntoIndex_eq:
  assumes "sorted keys" and "key \<notin> set keys"
  shows "insertKeyIntoIndex keys key =
    filter (\<lambda>k. k < key) keys @ key # filter (\<lambda>k. key \<le> k) keys"
proof -
  define pos where "pos = length (filter (\<lambda>k. k < key) keys)"
  have le: "pos \<le> length keys" by (simp add: pos_def)
  have miss: "\<not> (pos < length keys \<and> keys ! pos = key)" using assms(2) by (metis nth_mem)
  have "orderedKeyRangeStart keys key = pos"
    using orderedKeyRangeStart_eq [OF assms(1)] by (simp add: pos_def)
  with miss have "insertKeyIntoIndex keys key =
      (take (pos + 1) (keys @ [[]]) @ take (length keys - pos) (drop pos (keys @ [[]])))[pos := key]"
    by (auto simp: insertKeyIntoIndex_def Let_def)
  also have "\<dots> = take pos keys @ key # drop pos keys"
    using le by (cases "pos = length keys")
      (simp_all add: take_Suc_conv_app_nth list_update_append)
  finally show ?thesis by (simp add: sorted_split_at assms(1) pos_def)
qed

lemma insertKeyIntoIndex_sorted:
  assumes "finite K" and "key \<notin> K"
  shows "insertKeyIntoIndex (sorted_list_of_set K) key = sorted_list_of_set (insert key K)"
proof -
  let ?keys = "sorted_list_of_set K"
  let ?new = "filter (\<lambda>k. k < key) ?keys @ key # filter (\<lambda>k. key \<le> k) ?keys"
  have "sorted ?new" "distinct ?new" "set ?new = insert key K"
    using assms by (auto simp: sorted_append sorted_wrt_filter)
  then have "?new = sorted_list_of_set (insert key K)"
    by (rule sorted_list_of_set_eqI)
  then show ?thesis using assms by (simp add: insertKeyIntoIndex_eq)
qed

lemma deleteKeyFromIndex_sorted:
  assumes "finite K"
  shows "deleteKeyFromIndex (sorted_list_of_set K) key = sorted_list_of_set (K - {key})"
proof -
  let ?keys = "sorted_list_of_set K" and ?pos = "length (filter (\<lambda>k. k < key) (sorted_list_of_set K))"
  have pos: "orderedKeyRangeStart ?keys key = ?pos" by (simp add: orderedKeyRangeStart_eq)
  have hit: "key \<in> K \<longleftrightarrow> ?pos < length ?keys \<and> ?keys ! ?pos = key"
  proof
    assume "key \<in> K"
    then have "key \<in> set (drop ?pos ?keys)" using assms by (simp add: sorted_split_at)
    then obtain x xs where d: "drop ?pos ?keys = x # xs" by (cases "drop ?pos ?keys") auto
    have "sorted (x # xs)" using d by (metis sorted_sorted_list_of_set sorted_wrt_drop)
    moreover have "key \<le> x" using d by (metis (mono_tags) sorted_split_at(2) filter_eq_ConsD sorted_sorted_list_of_set)
    ultimately have "x = key" using \<open>key \<in> set (drop ?pos ?keys)\<close> d by auto
    moreover have "?pos < length ?keys" using d by (metis drop_eq_Nil2 list.distinct(1) not_le)
    ultimately show "?pos < length ?keys \<and> ?keys ! ?pos = key"
      using d by (metis hd_drop_conv_nth list.sel(1))
  next
    assume "?pos < length ?keys \<and> ?keys ! ?pos = key"
    then show "key \<in> K" using assms by (metis nth_mem set_sorted_list_of_set)
  qed
  show ?thesis
  proof (cases "key \<in> K")
    case False
    with hit pos show ?thesis by (auto simp: deleteKeyFromIndex_def)
  next
    case True
    obtain xs ys where keys: "?keys = xs @ key # ys" and "length xs = ?pos"
      using hit True by (metis id_take_nth_drop length_take min.absorb2 less_imp_le_nat)
    then have new: "take ?pos ?keys @ drop (?pos + 1) ?keys = xs @ ys" by simp
    have "sorted (xs @ key # ys)" "distinct (xs @ key # ys)" "set (xs @ key # ys) = K"
      using assms by (simp_all add: keys [symmetric])
    then have "xs @ ys = sorted_list_of_set (K - {key})"
      by (intro sorted_list_of_set_eqI) (auto simp: sorted_append)
    with hit True pos new show ?thesis by (simp add: deleteKeyFromIndex_def)
  qed
qed

lemma mem_inv_new [inv_intros]: "mem_inv NewMemoryBackend"
  by (simp add: mem_inv_def NewMemoryBackend_def)

lemma MemoryBackend_RangeKeys_eq:
  assumes "mem_inv b"
  shows "MemoryBackend_RangeKeys b s e =
    sorted_list_of_set {k \<in> dom (mb_data b). s \<le> k \<and> (e = [] \<or> k < e)}"
proof -
  let ?keys = "sorted_list_of_set (dom (mb_data b))" and ?P = "\<lambda>k. s \<le> k \<and> (e = [] \<or> k < e)"
  have fin: "finite (dom (mb_data b))" using assms by (simp add: mem_inv_def)
  have "MemoryBackend_RangeKeys b s e = filter ?P ?keys"
    using assms key_slice_eq [of ?keys s e] by (simp add: MemoryBackend_RangeKeys_def mem_inv_def)
  moreover have "sorted (filter ?P ?keys)" "distinct (filter ?P ?keys)"
    "set (filter ?P ?keys) = {k \<in> dom (mb_data b). ?P k}"
    using fin by (auto simp: sorted_wrt_filter)
  ultimately show ?thesis by (simp only: sorted_list_of_set_eqI)
qed

lemma mem_inv_SetRevisions [inv_intros]:
  assumes "mem_inv b"
  shows "mem_inv (MemoryBackend_SetRevisions b k vs)"
proof -
  have fin: "finite (dom (mb_data b))" and ne: "[] \<notin> ran (mb_data b)"
    and idx: "mb_sortedKeys b = sorted_list_of_set (dom (mb_data b))"
    using assms by (simp_all add: mem_inv_def)
  show ?thesis
  proof (cases "vs = []")
    case True
    have "[] \<notin> ran ((mb_data b)(k := None))" using ne by (auto simp: ran_def split: if_splits)
    with True fin show ?thesis
      by (simp add: MemoryBackend_SetRevisions_def mem_inv_def idx deleteKeyFromIndex_sorted)
  next
    case False
    have "[] \<notin> ran ((mb_data b)(k \<mapsto> vs))" using ne False by (auto simp: ran_def split: if_splits)
    moreover have "mb_data b k = None \<Longrightarrow> k \<notin> dom (mb_data b)" by auto
    ultimately show ?thesis
      using False fin
      by (auto simp: MemoryBackend_SetRevisions_def mem_inv_def idx insertKeyIntoIndex_sorted
          insert_absorb domIff)
  qed
qed

section \<open>The contract\<close>

text \<open>The abstract state is what \<^verbatim>\<open>SnapshotState\<close> returns.\<close>

interpretation mem: mvcc_backend memory_backend mem_inv MemoryBackend_SnapshotState
proof unfold_locales
  fix b :: MemoryBackend and s e k vs
  assume inv: "mem_inv b"
  show "be_RangeKeys memory_backend b s e =
      sorted_list_of_set
        {k \<in> dom (bs_Data (MemoryBackend_SnapshotState b)). s \<le> k \<and> (e = [] \<or> k < e)}"
    using MemoryBackend_RangeKeys_eq [OF inv]
    by (simp add: memory_backend_def MemoryBackend_SnapshotState_def)
  show "mem_inv (be_SetRevisions memory_backend b k vs) \<and>
      MemoryBackend_SnapshotState (be_SetRevisions memory_backend b k vs) =
        (MemoryBackend_SnapshotState b)\<lparr>bs_Data :=
          (bs_Data (MemoryBackend_SnapshotState b))(k := if vs = [] then None else Some vs)\<rparr>"
    using mem_inv_SetRevisions [OF inv, of k vs]
    by (auto simp: memory_backend_def MemoryBackend_SetRevisions_def
        MemoryBackend_SnapshotState_def Let_def)
qed (auto simp: memory_backend_defs mem_inv_def state_ok_def split: option.splits)

end
