(* ===== verification/Lease.thy ===== *)
theory Lease
  imports MemoryBackend
begin

text \<open>
  The state of a \<^verbatim>\<open>KVStore\<close> (\<^verbatim>\<open>type.go\<close>) and the part of \<^verbatim>\<open>lease.go\<close> that only
  touches the lease tables: granting, looking up, binding, detaching and renewing. The
  table of leases and the map from keys to leases are two views of one relation; the
  invariant \<open>lease_ok\<close> says so and every operation keeps it.

  A \<^verbatim>\<open>*Lease\<close> is only ever reached through \<^verbatim>\<open>leases[id]\<close>, so a write through the
  pointer is a write to that entry. A \<^verbatim>\<open>*Watcher\<close> can outlive its registration in a
  local copy of a list, so watchers live in a heap indexed by their identifier and the
  registration tables hold references.
\<close>

section \<open>The store\<close>

record Watcher =
  w_ID :: int
  w_Key :: gostring
  w_Prefix :: bool
  w_StartRev :: int
  w_Ch :: "Event list"
  w_closed :: bool
  w_lastSentRev :: int

type_synonym watcher_ref = int

record 'b KVStore =
  s_backend :: 'b
  s_watchers :: "gostring \<rightharpoonup> watcher_ref list"
  s_watchersByID :: "int \<rightharpoonup> watcher_ref"
  s_nextWatcherID :: int
  s_prefixWatchers :: "gostring \<rightharpoonup> watcher_ref list"
  s_heap :: "watcher_ref \<rightharpoonup> Watcher"
  s_leaseMgr :: LeaseManager
  s_keyLease :: "gostring \<rightharpoonup> int"
  s_eventCh :: "Event list"
  s_closed :: bool

definition NewLeaseManager :: LeaseManager where
  "NewLeaseManager = \<lparr>lm_leases = Map.empty, lm_nextLeaseID = 0\<rparr>"

definition NewKVStoreWithBackend :: "'b \<Rightarrow> 'b KVStore" where
  "NewKVStoreWithBackend backend =
     \<lparr>s_backend = backend, s_watchers = Map.empty, s_watchersByID = Map.empty,
      s_nextWatcherID = 0, s_prefixWatchers = Map.empty, s_heap = Map.empty,
      s_leaseMgr = NewLeaseManager, s_keyLease = Map.empty, s_eventCh = [],
      s_closed = False\<rparr>"

abbreviation leases_of :: "'b KVStore \<Rightarrow> int \<rightharpoonup> Lease" where
  "leases_of s \<equiv> lm_leases (s_leaseMgr s)"

abbreviation set_leases :: "'b KVStore \<Rightarrow> (int \<rightharpoonup> Lease) \<Rightarrow> 'b KVStore" where
  "set_leases s ls \<equiv> s\<lparr>s_leaseMgr := (s_leaseMgr s)\<lparr>lm_leases := ls\<rparr>\<rparr>"

section \<open>Operations\<close>

text \<open>\<^verbatim>\<open>time.Duration(ttl) * time.Second\<close> is a 64 bit product of nanoseconds.\<close>

definition ttl_duration :: "int \<Rightarrow> int" where
  "ttl_duration ttl = i64 (ttl * 1000000000)"

definition LeaseGrant :: "'b KVStore \<Rightarrow> int \<Rightarrow> int \<Rightarrow> 'b KVStore \<times> int" where
  "LeaseGrant s now ttl =
     (let leaseID = lm_nextLeaseID (s_leaseMgr s) + 1;
          lease = \<lparr>le_ID = leaseID, le_TTL = ttl, le_ExpireAt = now + ttl_duration ttl,
                   le_Keys = {}\<rparr>
      in (s\<lparr>s_leaseMgr := \<lparr>lm_leases = (leases_of s)(leaseID \<mapsto> lease),
                          lm_nextLeaseID = leaseID\<rparr>\<rparr>, leaseID))"

definition lookupLeaseLocked :: "'b KVStore \<Rightarrow> int \<Rightarrow> int \<Rightarrow> go_error + Lease" where
  "lookupLeaseLocked s now leaseID =
     (case leases_of s leaseID of
        None \<Rightarrow> Inl (LeaseNotFound leaseID)
      | Some lease \<Rightarrow>
          if now > le_ExpireAt lease then Inl (LeaseAlreadyExpired leaseID) else Inr lease)"

definition bindKeyToLeaseLocked :: "'b KVStore \<Rightarrow> gostring \<Rightarrow> int \<Rightarrow> Lease \<Rightarrow> 'b KVStore" where
  "bindKeyToLeaseLocked s key leaseID lease =
     (let leases = (case s_keyLease s key of
                      None \<Rightarrow> leases_of s
                    | Some oldLeaseID \<Rightarrow>
                        if oldLeaseID \<noteq> leaseID then
                          (case leases_of s oldLeaseID of
                             None \<Rightarrow> leases_of s
                           | Some oldLease \<Rightarrow>
                               (leases_of s)(oldLeaseID \<mapsto> oldLease\<lparr>le_Keys := le_Keys oldLease - {key}\<rparr>))
                        else leases_of s)
      in (set_leases s (leases(leaseID \<mapsto> lease\<lparr>le_Keys := insert key (le_Keys lease)\<rparr>)))
           \<lparr>s_keyLease := (s_keyLease s)(key \<mapsto> leaseID)\<rparr>)"

definition detachKeyLocked :: "'b KVStore \<Rightarrow> gostring \<Rightarrow> 'b KVStore" where
  "detachKeyLocked s key =
     (case s_keyLease s key of
        None \<Rightarrow> s
      | Some leaseID \<Rightarrow>
          (let s1 = s\<lparr>s_keyLease := (s_keyLease s)(key := None)\<rparr>
           in case leases_of s1 leaseID of
                None \<Rightarrow> s1
              | Some lease \<Rightarrow>
                  set_leases s1
                    ((leases_of s1)(leaseID \<mapsto> lease\<lparr>le_Keys := le_Keys lease - {key}\<rparr>))))"

definition AttachKey :: "'b KVStore \<Rightarrow> int \<Rightarrow> gostring \<Rightarrow> int \<Rightarrow> 'b KVStore \<times> go_error option" where
  "AttachKey s now key leaseID =
     (case lookupLeaseLocked s now leaseID of
        Inl err \<Rightarrow> (s, Some err)
      | Inr lease \<Rightarrow> (bindKeyToLeaseLocked s key leaseID lease, None))"

text \<open>
  \<^verbatim>\<open>int64(d.Seconds())\<close> cuts the fraction off. For a duration that is a whole number of
  seconds, which is every duration a renewed lease has unless the product overflowed,
  the floating point division is exact.
\<close>

definition whole_seconds :: "int \<Rightarrow> int" where
  "whole_seconds d = sgn d * (\<bar>d\<bar> div 1000000000)"

definition LeaseKeepAlive :: "'b KVStore \<Rightarrow> int \<Rightarrow> int \<Rightarrow> 'b KVStore \<times> (go_error + int)" where
  "LeaseKeepAlive s now leaseID =
     (case leases_of s leaseID of
        None \<Rightarrow> (s, Inl (LeaseNotFound leaseID))
      | Some lease \<Rightarrow>
          if now > le_ExpireAt lease then (s, Inl (LeaseAlreadyExpired leaseID))
          else (let expireAt = now + ttl_duration (le_TTL lease)
                in (set_leases s ((leases_of s)(leaseID \<mapsto> lease\<lparr>le_ExpireAt := expireAt\<rparr>)),
                    Inr (whole_seconds (expireAt - now)))))"

text \<open>The body of the \<^verbatim>\<open>range lm.leases\<close> loop; \<open>ids\<close> is the order of the visits.\<close>

fun expired_loop :: "(int \<rightharpoonup> Lease) \<Rightarrow> int \<Rightarrow> int \<Rightarrow> int list \<Rightarrow> int list \<Rightarrow> int list" where
  "expired_loop leases now limit ids [] = ids"
| "expired_loop leases now limit ids (i # rest) =
     (case leases i of
        None \<Rightarrow> expired_loop leases now limit ids rest
      | Some lease \<Rightarrow>
          if now > le_ExpireAt lease then
            (let ids' = ids @ [i]
             in if limit > 0 \<and> int (length ids') \<ge> limit then ids'
                else expired_loop leases now limit ids' rest)
          else expired_loop leases now limit ids rest)"

definition ExpiredLeaseIDs ::
  "(int set \<Rightarrow> int list) \<Rightarrow> 'b KVStore \<Rightarrow> int \<Rightarrow> int \<Rightarrow> int list" where
  "ExpiredLeaseIDs rng s now limit =
     expired_loop (leases_of s) now limit [] (rng (dom (leases_of s)))"

section \<open>Invariant: two views of one relation\<close>

definition lease_ok :: "'b KVStore \<Rightarrow> bool" where
  "lease_ok s \<longleftrightarrow>
     finite (dom (leases_of s)) \<and> finite (dom (s_keyLease s)) \<and>
     (\<forall>i l. leases_of s i = Some l \<longrightarrow>
        le_ID l = i \<and> 0 < i \<and> i \<le> lm_nextLeaseID (s_leaseMgr s) \<and>
        le_Keys l = {k. s_keyLease s k = Some i}) \<and>
     (\<forall>k i. s_keyLease s k = Some i \<longrightarrow> leases_of s i \<noteq> None) \<and>
     0 \<le> lm_nextLeaseID (s_leaseMgr s)"

lemma lease_okD:
  assumes "lease_ok s"
  shows "finite (dom (leases_of s))" "finite (dom (s_keyLease s))"
    "leases_of s i = Some l \<Longrightarrow> le_ID l = i"
    "leases_of s i = Some l \<Longrightarrow> 0 < i \<and> i \<le> lm_nextLeaseID (s_leaseMgr s)"
    "leases_of s i = Some l \<Longrightarrow> le_Keys l = {k. s_keyLease s k = Some i}"
    "s_keyLease s k = Some i \<Longrightarrow> \<exists>l. leases_of s i = Some l"
    "0 \<le> lm_nextLeaseID (s_leaseMgr s)"
  using assms by (auto simp: lease_ok_def)

lemma lease_okI:
  assumes "finite (dom (leases_of s))" "finite (dom (s_keyLease s))"
    and "\<And>i l. leases_of s i = Some l \<Longrightarrow> le_ID l = i"
    and "\<And>i l. leases_of s i = Some l \<Longrightarrow> 0 < i \<and> i \<le> lm_nextLeaseID (s_leaseMgr s)"
    and "\<And>i l k. leases_of s i = Some l \<Longrightarrow> k \<in> le_Keys l \<longleftrightarrow> s_keyLease s k = Some i"
    and "\<And>k i. s_keyLease s k = Some i \<Longrightarrow> leases_of s i \<noteq> None"
    and "0 \<le> lm_nextLeaseID (s_leaseMgr s)"
  shows "lease_ok s"
  using assms by (fastforce simp: lease_ok_def)

lemma lease_ok_cong:
  "s_leaseMgr s' = s_leaseMgr s \<Longrightarrow> s_keyLease s' = s_keyLease s \<Longrightarrow> lease_ok s' = lease_ok s"
  by (simp add: lease_ok_def)

lemma finite_le_Keys: "lease_ok s \<Longrightarrow> leases_of s i = Some l \<Longrightarrow> finite (le_Keys l)"
  using lease_okD(2,5) [of s] by (auto intro: finite_subset [of _ "dom (s_keyLease s)"])

lemma lease_ok_new [inv_intros]: "lease_ok (NewKVStoreWithBackend b)"
  by (simp add: lease_ok_def NewKVStoreWithBackend_def NewLeaseManager_def)

text \<open>What the primitive steps do to the two maps, in one equation each.\<close>

lemma lease_ok_detach_eq:
  assumes "lease_ok s"
  shows "leases_of (detachKeyLocked s key) i =
      map_option (\<lambda>l. l\<lparr>le_Keys := le_Keys l - {key}\<rparr>) (leases_of s i)"
    and "s_keyLease (detachKeyLocked s key) = (s_keyLease s)(key := None)"
    and "lm_nextLeaseID (s_leaseMgr (detachKeyLocked s key)) = lm_nextLeaseID (s_leaseMgr s)"
proof -
  have other: "l\<lparr>le_Keys := le_Keys l - {key}\<rparr> = l"
    if "leases_of s i = Some l" "s_keyLease s key \<noteq> Some i" for i l
    using lease_okD(5) [OF assms that(1)] that(2) by simp
  show "leases_of (detachKeyLocked s key) i =
      map_option (\<lambda>l. l\<lparr>le_Keys := le_Keys l - {key}\<rparr>) (leases_of s i)"
    using other lease_okD(6) [OF assms]
    by (cases "leases_of s i") (fastforce simp: detachKeyLocked_def Let_def split: option.splits)+
  show "s_keyLease (detachKeyLocked s key) = (s_keyLease s)(key := None)"
    by (auto simp: detachKeyLocked_def Let_def fun_upd_idem split: option.splits)
  show "lm_nextLeaseID (s_leaseMgr (detachKeyLocked s key)) = lm_nextLeaseID (s_leaseMgr s)"
    by (auto simp: detachKeyLocked_def Let_def split: option.splits)
qed

lemma lease_ok_bind_eq:
  assumes "lease_ok s" and "leases_of s leaseID = Some lease"
  shows "leases_of (bindKeyToLeaseLocked s key leaseID lease) i =
      map_option (\<lambda>l. l\<lparr>le_Keys := (if i = leaseID then insert key (le_Keys l) else le_Keys l - {key})\<rparr>)
        (leases_of s i)"
    and "s_keyLease (bindKeyToLeaseLocked s key leaseID lease) = (s_keyLease s)(key \<mapsto> leaseID)"
    and "lm_nextLeaseID (s_leaseMgr (bindKeyToLeaseLocked s key leaseID lease)) =
      lm_nextLeaseID (s_leaseMgr s)"
proof -
  have other: "l\<lparr>le_Keys := le_Keys l - {key}\<rparr> = l"
    if "leases_of s i = Some l" "s_keyLease s key \<noteq> Some i" for i l
    using lease_okD(5) [OF assms(1) that(1)] that(2) by simp
  show "leases_of (bindKeyToLeaseLocked s key leaseID lease) i =
      map_option (\<lambda>l. l\<lparr>le_Keys := (if i = leaseID then insert key (le_Keys l) else le_Keys l - {key})\<rparr>)
        (leases_of s i)"
    using other assms(2) lease_okD(6) [OF assms(1)]
    by (cases "leases_of s i")
      (fastforce simp: bindKeyToLeaseLocked_def Let_def split: option.splits if_splits)+
qed (auto simp: bindKeyToLeaseLocked_def Let_def)

lemma detachKeyLocked_frame [frame_simps, simp]:
  "s_backend (detachKeyLocked s key) = s_backend s"
  "s_eventCh (detachKeyLocked s key) = s_eventCh s"
  "s_closed (detachKeyLocked s key) = s_closed s"
  "s_watchers (detachKeyLocked s key) = s_watchers s"
  "s_prefixWatchers (detachKeyLocked s key) = s_prefixWatchers s"
  "s_watchersByID (detachKeyLocked s key) = s_watchersByID s"
  "s_nextWatcherID (detachKeyLocked s key) = s_nextWatcherID s"
  "s_heap (detachKeyLocked s key) = s_heap s"
  by (auto simp: detachKeyLocked_def Let_def split: option.splits)

lemma bindKeyToLeaseLocked_frame [frame_simps, simp]:
  "s_backend (bindKeyToLeaseLocked s key i l) = s_backend s"
  "s_eventCh (bindKeyToLeaseLocked s key i l) = s_eventCh s"
  "s_closed (bindKeyToLeaseLocked s key i l) = s_closed s"
  "s_watchers (bindKeyToLeaseLocked s key i l) = s_watchers s"
  "s_prefixWatchers (bindKeyToLeaseLocked s key i l) = s_prefixWatchers s"
  "s_watchersByID (bindKeyToLeaseLocked s key i l) = s_watchersByID s"
  "s_nextWatcherID (bindKeyToLeaseLocked s key i l) = s_nextWatcherID s"
  "s_heap (bindKeyToLeaseLocked s key i l) = s_heap s"
  by (simp_all add: bindKeyToLeaseLocked_def Let_def)

lemma lease_ok_detach [inv_intros]:
  assumes "lease_ok s"
  shows "lease_ok (detachKeyLocked s key)"
proof -
  have "dom (leases_of (detachKeyLocked s key)) = dom (leases_of s)"
    by (auto simp: dom_def lease_ok_detach_eq [OF assms])
  then show ?thesis
    using lease_okD [OF assms]
    by (intro lease_okI) (auto simp: lease_ok_detach_eq [OF assms] split: if_splits)
qed

lemma lease_ok_bind [inv_intros]:
  assumes "lease_ok s" and "leases_of s leaseID = Some lease"
  shows "lease_ok (bindKeyToLeaseLocked s key leaseID lease)"
proof (rule lease_okI)
  note eq = lease_ok_bind_eq [OF assms, of key]
  note ok = lease_okD [OF assms(1)]
  let ?s = "bindKeyToLeaseLocked s key leaseID lease"
  have "dom (leases_of ?s) = dom (leases_of s)" by (auto simp: dom_def eq)
  then show "finite (dom (leases_of ?s))" using ok(1) by simp
  show "finite (dom (s_keyLease ?s))" using ok(2) by (simp add: eq)
  show "le_ID l = i" if "leases_of ?s i = Some l" for i l
    using that ok(3) by (auto simp: eq)
  show "0 < i \<and> i \<le> lm_nextLeaseID (s_leaseMgr ?s)" if "leases_of ?s i = Some l" for i l
    using that ok(4) by (auto simp: eq)
  show "k \<in> le_Keys l \<longleftrightarrow> s_keyLease ?s k = Some i" if "leases_of ?s i = Some l" for i l k
    using that ok(5) by (cases "i = leaseID") (auto simp: eq)
  show "leases_of ?s i \<noteq> None" if "s_keyLease ?s k = Some i" for k i
    using that ok(6) [of k i] assms(2) by (auto simp: eq split: if_splits)
  show "0 \<le> lm_nextLeaseID (s_leaseMgr ?s)" using ok(7) by (simp add: eq)
qed

lemma lease_ok_grant [inv_intros]:
  assumes "lease_ok s"
  shows "lease_ok (fst (LeaseGrant s now ttl))"
proof (rule lease_okI)
  note ok = lease_okD [OF assms]
  let ?n = "lm_nextLeaseID (s_leaseMgr s)" and ?s = "fst (LeaseGrant s now ttl)"
  have fresh: "leases_of s (?n + 1) = None"
    using ok(4) [of "?n + 1"] by (cases "leases_of s (?n + 1)") auto
  have unbound: "s_keyLease s k \<noteq> Some (?n + 1)" for k using ok(6) [of k "?n + 1"] fresh by auto
  show "finite (dom (leases_of ?s))" "finite (dom (s_keyLease ?s))"
    using ok(1,2) by (simp_all add: LeaseGrant_def Let_def)
  show "le_ID l = i" if "leases_of ?s i = Some l" for i l
    using that ok(3) by (auto simp: LeaseGrant_def Let_def split: if_splits)
  show "0 < i \<and> i \<le> lm_nextLeaseID (s_leaseMgr ?s)" if "leases_of ?s i = Some l" for i l
    using that ok(4) [of i] ok(7) by (force simp: LeaseGrant_def Let_def split: if_splits)
  show "k \<in> le_Keys l \<longleftrightarrow> s_keyLease ?s k = Some i" if "leases_of ?s i = Some l" for i l k
    using that ok(5) unbound by (auto simp: LeaseGrant_def Let_def split: if_splits)
  show "leases_of ?s i \<noteq> None" if "s_keyLease ?s k = Some i" for k i
    using that ok(6) [of k i] by (auto simp: LeaseGrant_def Let_def)
  show "0 \<le> lm_nextLeaseID (s_leaseMgr ?s)" using ok(7) by (simp add: LeaseGrant_def Let_def)
qed

lemma lease_ok_keepalive [inv_intros]:
  "lease_ok s \<Longrightarrow> lease_ok (fst (LeaseKeepAlive s now i))"
  by (auto simp: LeaseKeepAlive_def lease_ok_def Let_def split: option.splits)

lemma lease_ok_attach [inv_intros]:
  "lease_ok s \<Longrightarrow> lease_ok (fst (AttachKey s now key i))"
  by (auto simp: AttachKey_def lookupLeaseLocked_def intro: lease_ok_bind
      split: sum.splits option.splits if_splits)

lemma lookupLeaseLocked_Inr:
  "lookupLeaseLocked s now i = Inr l \<longleftrightarrow> leases_of s i = Some l \<and> now \<le> le_ExpireAt l"
  by (auto simp: lookupLeaseLocked_def split: option.splits)

section \<open>Expired leases\<close>

text \<open>
  Without a limit the loop collects exactly the expired leases; with a positive limit it
  collects that many of them or all there are.
\<close>

lemma expired_loop_prefix:
  assumes "\<forall>i \<in> set order. leases i \<noteq> None" and "limit \<le> 0 \<or> int (length ids) < limit"
  shows "expired_loop leases now limit ids order =
    ids @ take (if limit \<le> 0 then length order else nat (limit - int (length ids)))
      (filter (\<lambda>i. le_ExpireAt (the (leases i)) < now) order)"
  using assms
proof (induction order arbitrary: ids)
  case (Cons i rest)
  let ?E = "filter (\<lambda>i. le_ExpireAt (the (leases i)) < now) rest"
  have tk: "take (Suc (length rest)) ?E = ?E" "take (length rest) ?E = ?E"
    by (simp_all add: le_SucI)
  obtain l where l: "leases i = Some l" using Cons.prems by auto
  consider (fresh) "\<not> le_ExpireAt l < now"
    | (stop) "le_ExpireAt l < now" "limit > 0" "limit = int (length ids) + 1"
    | (more) "le_ExpireAt l < now" "limit \<le> 0 \<or> int (length (ids @ [i])) < limit"
    using Cons.prems(2) by fastforce
  then show ?case
  proof cases
    case fresh
    then show ?thesis using Cons.IH [of ids] Cons.prems l tk by simp
  next
    case stop
    then show ?thesis using l by simp
  next
    case more
    then have "limit > 0 \<Longrightarrow> nat (limit - int (length ids)) = Suc (nat (limit - int (length (ids @ [i]))))"
      by simp
    with Cons.IH [of "ids @ [i]"] Cons.prems l more tk show ?thesis by (cases "limit \<le> 0") simp_all
  qed
qed simp

end
