(* ===== verification/MvccSpec.thy ===== *)
theory MvccSpec
  imports MvccIndex
begin

text \<open>
  What a multi-version store promises, with no reference to how versions are kept: a
  history of changes, one per revision, and the map of live keys at any revision as the
  replay of the history up to there. A backend state \<^emph>\<open>refines\<close> a history when its
  version lists and its event log are what is left of that history above the compaction
  point. The lemmas here say that reading the version lists gives the replayed value and
  how the relation changes when a version is appended, the event log is cut or old
  versions are dropped.
\<close>

section \<open>Histories\<close>

definition apply_event :: "Event \<Rightarrow> (gostring \<rightharpoonup> bytes) \<Rightarrow> (gostring \<rightharpoonup> bytes)" where
  "apply_event e m =
     (if ev_Type e = EventPut then m(ev_Key e \<mapsto> ev_Value e) else m(ev_Key e := None))"

definition replay :: "Event list \<Rightarrow> gostring \<rightharpoonup> bytes" where
  "replay H = fold apply_event H Map.empty"

definition state_at :: "Event list \<Rightarrow> int \<Rightarrow> gostring \<rightharpoonup> bytes" where
  "state_at H r = replay (filter (\<lambda>e. emain e \<le> r) H)"

text \<open>The \<open>i\<close>-th change has revision \<open>i + 1\<close> and is a put or a delete.\<close>

definition history_ok :: "Event list \<Rightarrow> bool" where
  "history_ok H \<longleftrightarrow>
     (\<forall>i < length H. ev_Rev (H ! i) = Revision (int i + 1) 0 \<and>
        (ev_Type (H ! i) = EventPut \<or> ev_Type (H ! i) = EventDelete \<and> ev_Value (H ! i) = []))"

definition version_of :: "Event \<Rightarrow> ValueRevision" where
  "version_of e =
     \<lparr>vr_Rev = ev_Rev e, vr_Value = ev_Value e, vr_Deleted = (ev_Type e \<noteq> EventPut)\<rparr>"

definition versions_of :: "Event list \<Rightarrow> gostring \<Rightarrow> ValueRevision list" where
  "versions_of H k = map version_of (filter (\<lambda>e. ev_Key e = k) H)"

text \<open>
  What compaction at \<open>c\<close> may leave of all versions of a key: everything, or a suffix
  that starts with a version not later than \<open>c\<close>.
\<close>

definition retained :: "int \<Rightarrow> ValueRevision list \<Rightarrow> ValueRevision list \<Rightarrow> bool" where
  "retained c all vs \<longleftrightarrow>
     (\<exists>n. vs = drop n all \<and> (n = 0 \<or> n < length all \<and> vmain (all ! n) \<le> c))"

definition key_ok :: "int \<Rightarrow> ValueRevision list \<Rightarrow> ValueRevision list option \<Rightarrow> bool" where
  "key_ok c all d \<longleftrightarrow>
     (case d of None \<Rightarrow> all = [] | Some vs \<Rightarrow> vs \<noteq> [] \<and> retained c all vs)"

definition refines :: "Event list \<Rightarrow> BackendState \<Rightarrow> bool" where
  "refines H st \<longleftrightarrow>
     history_ok H \<and>
     bs_CurrentRev st = int (length H) \<and>
     0 \<le> bs_CompactRev st \<and> bs_CompactRev st \<le> bs_CurrentRev st \<and>
     bs_Events st = filter (\<lambda>e. bs_CompactRev st < emain e) H \<and>
     (\<forall>k. key_ok (bs_CompactRev st) (versions_of H k) (bs_Data st k))"

section \<open>Histories and versions\<close>

lemma history_ok_Nil [simp]: "history_ok []"
  by (simp add: history_ok_def)

lemma history_ok_snoc:
  "history_ok (H @ [e]) \<longleftrightarrow>
     history_ok H \<and> ev_Rev e = Revision (int (length H) + 1) 0 \<and>
     (ev_Type e = EventPut \<or> ev_Type e = EventDelete \<and> ev_Value e = [])"
  by (auto simp: history_ok_def nth_append less_Suc_eq)

lemma history_ok_emain: "history_ok H \<Longrightarrow> i < length H \<Longrightarrow> emain (H ! i) = int i + 1"
  by (simp add: history_ok_def)

lemma history_ok_bound: "history_ok H \<Longrightarrow> e \<in> set H \<Longrightarrow> 1 \<le> emain e \<and> emain e \<le> int (length H)"
  by (auto simp: in_set_conv_nth history_ok_def)

lemma versions_of_Nil [simp]: "versions_of [] k = []"
  by (simp add: versions_of_def)

lemma versions_of_snoc:
  "versions_of (H @ [e]) k = versions_of H k @ (if ev_Key e = k then [version_of e] else [])"
  by (simp add: versions_of_def)

lemma vmain_version_of [simp]: "vmain (version_of e) = emain e"
  by (simp add: version_of_def)

lemma versions_of_bound:
  "history_ok H \<Longrightarrow> v \<in> set (versions_of H k) \<Longrightarrow> 1 \<le> vmain v \<and> vmain v \<le> int (length H)"
  using history_ok_bound [of H] by (auto simp: versions_of_def)

lemma versions_of_sorted: "history_ok H \<Longrightarrow> versions_sorted (versions_of H k)"
proof (induction H rule: rev_induct)
  case (snoc e H)
  then show ?case
    using versions_of_bound [of H _ k]
    by (fastforce simp: history_ok_snoc versions_of_snoc versions_sorted_snoc)
qed simp

lemma replay_snoc: "replay (H @ [e]) = apply_event e (replay H)"
  by (simp add: replay_def)

lemma filter_emain_all:
  "history_ok H \<Longrightarrow> int (length H) \<le> r \<Longrightarrow> filter (\<lambda>e. emain e \<le> r) H = H"
  using history_ok_bound [of H] by (force simp: filter_id_conv)

lemma state_at_current: "history_ok H \<Longrightarrow> state_at H (int (length H)) = replay H"
  by (simp add: state_at_def filter_emain_all)

text \<open>Later changes do not alter earlier states.\<close>

lemma state_at_stable:
  "history_ok (H @ H') \<Longrightarrow> r \<le> int (length H) \<Longrightarrow> state_at (H @ H') r = state_at H r"
proof (induction H' rule: rev_induct)
  case (snoc e H')
  then have "history_ok (H @ H')" and "r < emain e"
    by (simp_all add: history_ok_snoc append_assoc [symmetric] del: append_assoc)
  with snoc show ?case by (simp add: state_at_def)
qed simp

text \<open>Reading the full version list at \<open>r\<close> is replaying the history up to \<open>r\<close>.\<close>

lemma visible_at_snoc_later:
  "r < vmain v \<Longrightarrow> visible_at (vs @ [v]) r = visible_at vs r"
  by (simp add: visible_at_def)

lemma visible_at_snoc_now:
  "vmain v \<le> r \<Longrightarrow> visible_at (vs @ [v]) r = (if vr_Deleted v then None else Some v)"
  by (simp add: visible_at_def)

lemma visible_at_versions_of:
  "map_option vr_Value (visible_at (versions_of H k) r) = state_at H r k"
proof (induction H rule: rev_induct)
  case Nil
  then show ?case by (simp add: visible_at_def state_at_def replay_def)
next
  case (snoc e H)
  show ?case
  proof (cases "emain e \<le> r")
    case False
    with snoc show ?thesis by (simp add: versions_of_snoc visible_at_snoc_later state_at_def)
  next
    case le: True
    then have st: "state_at (H @ [e]) r = apply_event e (state_at H r)"
      by (simp add: state_at_def replay_snoc)
    show ?thesis
    proof (cases "ev_Key e = k")
      case True
      with le show ?thesis
        by (simp add: st versions_of_snoc visible_at_snoc_now apply_event_def)
          (simp add: version_of_def)
    next
      case False
      with snoc show ?thesis by (simp add: st versions_of_snoc apply_event_def)
    qed
  qed
qed

section \<open>Retained versions\<close>

lemma retained_refl: "retained c all all"
  unfolding retained_def by (rule exI [of _ 0]) simp

lemma retained_snoc:
  assumes "vs \<noteq> []" and "retained c all vs"
  shows "retained c (all @ [v]) (vs @ [v])"
proof -
  obtain n where n: "vs = drop n all" "n = 0 \<or> n < length all \<and> vmain (all ! n) \<le> c"
    using assms(2) by (auto simp: retained_def)
  with assms(1) have "n < length all" by simp
  with n show ?thesis unfolding retained_def by (intro exI [of _ n]) (auto simp: nth_append)
qed

lemma retained_sorted: "retained c all vs \<Longrightarrow> versions_sorted all \<Longrightarrow> versions_sorted vs"
  by (auto simp: retained_def versions_sorted_drop)

lemma retained_subset: "retained c all vs \<Longrightarrow> set vs \<subseteq> set all"
  by (auto simp: retained_def dest: in_set_dropD)

lemma retained_last: "vs \<noteq> [] \<Longrightarrow> retained c all vs \<Longrightarrow> last vs = last all"
  by (auto simp: retained_def last_drop)

text \<open>Reads at or above the compaction point see the same version.\<close>

lemma retained_visible:
  assumes "versions_sorted all" and "retained c all vs" and "c \<le> r"
  shows "visible_at vs r = visible_at all r"
proof -
  obtain n where vs: "vs = drop n all" and n: "n = 0 \<or> n < length all \<and> vmain (all ! n) \<le> c"
    using assms(2) by (auto simp: retained_def)
  show ?thesis
  proof (cases "n = 0")
    case False
    with n have n: "n < length all" "vmain (all ! n) \<le> r" using assms(3) by auto
    have u: "upto_rev all r = upto_rev (take n all) r @ upto_rev vs r"
      unfolding vs by (metis append_take_drop_id filter_append)
    have "upto_rev vs r \<noteq> []"
      using n vs by (auto simp: Cons_nth_drop_Suc [symmetric])
    then show ?thesis by (simp add: visible_at_def u)
  qed (simp add: vs)
qed

section \<open>Steps of a refining state\<close>

lemma key_ok_simps [simp]:
  "key_ok c all None \<longleftrightarrow> all = []"
  "key_ok c all (Some vs) \<longleftrightarrow> vs \<noteq> [] \<and> retained c all vs"
  by (simp_all add: key_ok_def)

lemma refines_key_ok:
  "refines H st \<Longrightarrow> key_ok (bs_CompactRev st) (versions_of H k) (bs_Data st k)"
  by (simp add: refines_def)

lemma refines_nonempty: "refines H st \<Longrightarrow> bs_Data st k = Some vs \<Longrightarrow> vs \<noteq> []"
  using refines_key_ok [of H st k] by simp

lemma refines_retained:
  "refines H st \<Longrightarrow> bs_Data st k = Some vs \<Longrightarrow> retained (bs_CompactRev st) (versions_of H k) vs"
  using refines_key_ok [of H st k] by simp

lemma refines_absent: "refines H st \<Longrightarrow> bs_Data st k = None \<Longrightarrow> versions_of H k = []"
  using refines_key_ok [of H st k] by simp

lemma refines_basic:
  assumes "refines H st"
  shows "history_ok H" "bs_CurrentRev st = int (length H)" "0 \<le> bs_CompactRev st"
    "bs_CompactRev st \<le> bs_CurrentRev st"
    "bs_Events st = filter (\<lambda>e. bs_CompactRev st < emain e) H"
  using assms by (simp_all add: refines_def)

lemma refines_sorted: "refines H st \<Longrightarrow> bs_Data st k = Some vs \<Longrightarrow> versions_sorted vs"
  using retained_sorted versions_of_sorted refines_basic(1) refines_retained by metis

lemma refines_bound:
  "refines H st \<Longrightarrow> bs_Data st k = Some vs \<Longrightarrow> v \<in> set vs \<Longrightarrow>
     1 \<le> vmain v \<and> vmain v \<le> bs_CurrentRev st"
  using refines_retained [of H st k vs] retained_subset versions_of_bound [of H v k]
    refines_basic(1,2) [of H st] by fastforce

lemma refines_empty:
  "refines [] \<lparr>bs_Data = Map.empty, bs_Events = [], bs_CurrentRev = 0, bs_CompactRev = 0\<rparr>"
  by (simp add: refines_def)

text \<open>A read at \<open>r\<close> not below the compaction point is the replayed value.\<close>

lemma refines_visible:
  assumes "refines H st" and "bs_CompactRev st \<le> r"
  shows "state_at H r k =
    (case bs_Data st k of None \<Rightarrow> None | Some vs \<Rightarrow> map_option vr_Value (visible_at vs r))"
proof (cases "bs_Data st k")
  case None
  with refines_absent [OF assms(1)] visible_at_versions_of [of H k r, symmetric]
  show ?thesis by (simp add: visible_at_def)
next
  case (Some vs)
  have "visible_at vs r = visible_at (versions_of H k) r"
    by (rule retained_visible [OF versions_of_sorted [OF refines_basic(1) [OF assms(1)]]
          refines_retained [OF assms(1) Some] assms(2)])
  with Some show ?thesis by (simp add: visible_at_versions_of)
qed

text \<open>Appending the next change as a version and as an event.\<close>

lemma refines_append:
  assumes "refines H st" and "ev_Rev e = Revision (bs_CurrentRev st + 1) 0"
    and "ev_Type e = EventPut \<or> ev_Type e = EventDelete \<and> ev_Value e = []"
  shows "refines (H @ [e])
    (st\<lparr>bs_CurrentRev := bs_CurrentRev st + 1,
        bs_Data := (bs_Data st)(ev_Key e \<mapsto>
          (case bs_Data st (ev_Key e) of None \<Rightarrow> [] | Some vs \<Rightarrow> vs) @ [version_of e]),
        bs_Events := bs_Events st @ [e]\<rparr>)"
proof -
  note b = refines_basic [OF assms(1)]
  have ok: "history_ok (H @ [e])" using assms b by (simp add: history_ok_snoc)
  have ev: "bs_CompactRev st < emain e" using assms(2) b by simp
  have vers: "retained (bs_CompactRev st) (versions_of H k @ [version_of e])
      ((case bs_Data st k of None \<Rightarrow> [] | Some vs \<Rightarrow> vs) @ [version_of e])" for k
    using refines_absent [OF assms(1), of k] refines_retained [OF assms(1), of k]
      refines_nonempty [OF assms(1), of k]
    by (cases "bs_Data st k") (auto intro: retained_refl retained_snoc)
  show ?thesis
    using ok b ev vers refines_key_ok [OF assms(1)] by (simp add: refines_def versions_of_snoc)
qed

text \<open>Dropping versions and events below a new compaction point.\<close>

lemma retained_trans_up:
  assumes "versions_sorted all" "retained c all vs" "c \<le> c'" "retained c' vs vs'" "vs' \<noteq> []"
  shows "retained c' all vs'"
proof -
  obtain n where n: "vs = drop n all" "n = 0 \<or> n < length all \<and> vmain (all ! n) \<le> c"
    using assms(2) by (auto simp: retained_def)
  obtain m where m: "vs' = drop m vs" "m = 0 \<or> m < length vs \<and> vmain (vs ! m) \<le> c'"
    using assms(4) by (auto simp: retained_def)
  show ?thesis
    unfolding retained_def
    using n m assms(3) by (intro exI [of _ "n + m"]) (auto simp: add.commute)
qed

lemma refines_compact:
  assumes "refines H st" and "bs_CompactRev st \<le> c" and "c \<le> bs_CurrentRev st"
    and "\<And>k vs. bs_Data st k = Some vs \<Longrightarrow> \<exists>vs'. D k = Some vs' \<and> vs' \<noteq> [] \<and> retained c vs vs'"
    and "\<And>k. bs_Data st k = None \<Longrightarrow> D k = None"
  shows "refines H (st\<lparr>bs_Data := D, bs_Events := filter (\<lambda>e. c < emain e) (bs_Events st),
    bs_CompactRev := c\<rparr>)"
proof -
  note b = refines_basic [OF assms(1)]
  have evs: "filter (\<lambda>e. c < emain e) (filter (\<lambda>e. bs_CompactRev st < emain e) H) =
      filter (\<lambda>e. c < emain e) H"
    using assms(2) by (auto simp: filter_filter intro!: filter_cong)
  have data: "key_ok c (versions_of H k) (D k)" for k
  proof (cases "bs_Data st k")
    case None
    with assms(5) refines_absent [OF assms(1)] show ?thesis by simp
  next
    case (Some vs)
    with assms(4) obtain vs' where "D k = Some vs'" "vs' \<noteq> []" "retained c vs vs'" by blast
    with retained_trans_up [OF versions_of_sorted [OF b(1)] refines_retained [OF assms(1) Some]
        assms(2)] show ?thesis by simp
  qed
  show ?thesis
    using b assms(2,3) evs data by (simp add: refines_def)
qed

end
