(* ===== verification/KVStore.thy ===== *)
theory KVStore
  imports Lease MvccSpec
begin

text \<open>
  The writes and point reads of \<^verbatim>\<open>kv_store.go\<close> and the part of \<^verbatim>\<open>lease.go\<close> that
  deletes keys. Every operation takes the method table of the backend as its first
  argument.

  A public operation runs under the store's lock and queues its watch events after
  releasing it. The two parts are separate definitions: \<open>..._crit\<close> is the critical
  section and returns the events still to be sent, and the operation is the critical
  section followed by the sends. The event channel is a queue; the select against the
  closed channel makes a send on a closed store a no-op.

  The lemmas are proved once for every backend that meets the contract and say that each
  operation extends the history the store refines.
\<close>

section \<open>Operations\<close>

definition versions_or_nil :: "ValueRevision list option \<Rightarrow> ValueRevision list" where
  "versions_or_nil r = (case r of None \<Rightarrow> [] | Some vs \<Rightarrow> vs)"

definition send_event :: "'b KVStore \<Rightarrow> Event \<Rightarrow> 'b KVStore" where
  "send_event s ev = (if s_closed s then s else s\<lparr>s_eventCh := s_eventCh s @ [ev]\<rparr>)"

definition send_events :: "'b KVStore \<Rightarrow> Event list \<Rightarrow> 'b KVStore" where
  "send_events s evs = foldl send_event s evs"

definition putLocked ::
  "'b Backend \<Rightarrow> 'b KVStore \<Rightarrow> gostring \<Rightarrow> bytes \<Rightarrow> 'b KVStore \<times> Revision \<times> Event" where
  "putLocked be s k v =
     (let currentRev = be_CurrentRev be (s_backend s) + 1;
          b1 = be_SetCurrentRev be (s_backend s) currentRev;
          rv = Revision currentRev 0;
          versions = versions_or_nil (be_GetRevisions be b1 k) @
            [\<lparr>vr_Rev = rv, vr_Value = v, vr_Deleted = False\<rparr>];
          b2 = be_SetRevisions be b1 k versions;
          ev = \<lparr>ev_Type = EventPut, ev_Key = k, ev_Value = v, ev_Rev = rv\<rparr>;
          b3 = be_AppendEvent be b2 ev
      in (s\<lparr>s_backend := b3\<rparr>, rv, ev))"

definition deleteLocked ::
  "'b Backend \<Rightarrow> 'b KVStore \<Rightarrow> gostring \<Rightarrow> 'b KVStore \<times> Revision \<times> Event" where
  "deleteLocked be s k =
     (let currentRev = be_CurrentRev be (s_backend s) + 1;
          b1 = be_SetCurrentRev be (s_backend s) currentRev;
          rv = Revision currentRev 0;
          versions = versions_or_nil (be_GetRevisions be b1 k) @
            [\<lparr>vr_Rev = rv, vr_Value = [], vr_Deleted = True\<rparr>];
          b2 = be_SetRevisions be b1 k versions;
          ev = \<lparr>ev_Type = EventDelete, ev_Key = k, ev_Value = [], ev_Rev = rv\<rparr>;
          b3 = be_AppendEvent be b2 ev
      in (detachKeyLocked (s\<lparr>s_backend := b3\<rparr>) k, rv, ev))"

definition KVStore_Put_crit ::
  "'b Backend \<Rightarrow> 'b KVStore \<Rightarrow> int \<Rightarrow> gostring \<Rightarrow> bytes \<Rightarrow> int \<Rightarrow>
     'b KVStore \<times> Event list \<times> (go_error + Revision)" where
  "KVStore_Put_crit be s now k v leaseID =
     (if leaseID \<noteq> 0 then
        (case lookupLeaseLocked s now leaseID of
           Inl err \<Rightarrow> (s, [], Inl err)
         | Inr lease \<Rightarrow>
             (case putLocked be s k v of
                (s1, rv, ev) \<Rightarrow> (bindKeyToLeaseLocked s1 k leaseID lease, [ev], Inr rv)))
      else
        (case putLocked be s k v of
           (s1, rv, ev) \<Rightarrow> (detachKeyLocked s1 k, [ev], Inr rv)))"

definition KVStore_Put ::
  "'b Backend \<Rightarrow> 'b KVStore \<Rightarrow> int \<Rightarrow> gostring \<Rightarrow> bytes \<Rightarrow> int \<Rightarrow> 'b KVStore \<times> (go_error + Revision)"
  where
  "KVStore_Put be s now k v leaseID =
     (case KVStore_Put_crit be s now k v leaseID of (s1, evs, r) \<Rightarrow> (send_events s1 evs, r))"

definition KVStore_Delete_crit ::
  "'b Backend \<Rightarrow> 'b KVStore \<Rightarrow> gostring \<Rightarrow> 'b KVStore \<times> Event list \<times> Revision" where
  "KVStore_Delete_crit be s k =
     (case deleteLocked be s k of (s1, rv, ev) \<Rightarrow> (s1, [ev], rv))"

definition KVStore_Delete :: "'b Backend \<Rightarrow> 'b KVStore \<Rightarrow> gostring \<Rightarrow> 'b KVStore \<times> Revision" where
  "KVStore_Delete be s k =
     (case KVStore_Delete_crit be s k of (s1, evs, rv) \<Rightarrow> (send_events s1 evs, rv))"

text \<open>The binary search written out in \<^verbatim>\<open>Get\<close>.\<close>

function get_loop :: "ValueRevision list \<Rightarrow> int \<Rightarrow> int \<Rightarrow> int \<Rightarrow> int \<Rightarrow> int" where
  "get_loop version rv left right pos =
     (if left \<le> right then
        (let mid = (left + right) div 2
         in if vmain (version ! nat mid) \<le> rv
            then get_loop version rv (mid + 1) right mid
            else get_loop version rv left (mid - 1) pos)
      else pos)"
  by pat_completeness auto
termination
  by (relation "measure (\<lambda>(version, rv, left, right, pos). nat (right - left + 1))") auto

declare get_loop.simps [simp del]

definition KVStore_Get ::
  "'b Backend \<Rightarrow> 'b KVStore \<Rightarrow> gostring \<Rightarrow> int \<Rightarrow> bytes \<times> int \<times> bool" where
  "KVStore_Get be s k rv0 =
     (case be_GetRevisions be (s_backend s) k of
        None \<Rightarrow> ([], rv0, False)
      | Some version \<Rightarrow>
          let compactRev = be_CompactRev be (s_backend s)
          in if rv0 \<noteq> 0 \<and> rv0 \<le> compactRev then ([], rv0, False)
             else
               let rv = (if rv0 = 0 then be_CurrentRev be (s_backend s) else rv0)
               in if length version = 0 then ([], rv, False)
                  else
                    let pos = get_loop version rv 0 (int (length version) - 1) (-1)
                    in if pos = -1 then ([], rv, False)
                       else if vr_Deleted (version ! nat pos) then ([], rv, False)
                       else (vr_Value (version ! nat pos), rv, True))"

definition KVStore_CurrentRevision :: "'b Backend \<Rightarrow> 'b KVStore \<Rightarrow> int" where
  "KVStore_CurrentRevision be s = be_CurrentRev be (s_backend s)"

text \<open>The loop of \<^verbatim>\<open>LeaseRevoke\<close> over the collected keys.\<close>

fun revoke_keys ::
  "'b Backend \<Rightarrow> 'b KVStore \<Rightarrow> Event list \<Rightarrow> gostring list \<Rightarrow> 'b KVStore \<times> Event list" where
  "revoke_keys be s events [] = (s, events)"
| "revoke_keys be s events (key # keys) =
     (case deleteLocked be s key of (s1, _, ev) \<Rightarrow> revoke_keys be s1 (events @ [ev]) keys)"

definition LeaseRevoke_crit ::
  "(gostring set \<Rightarrow> gostring list) \<Rightarrow> 'b Backend \<Rightarrow> 'b KVStore \<Rightarrow> int \<Rightarrow>
     'b KVStore \<times> Event list \<times> go_error option" where
  "LeaseRevoke_crit rng be s leaseID =
     (case leases_of s leaseID of
        None \<Rightarrow> (s, [], Some (LeaseNotFound leaseID))
      | Some lease \<Rightarrow>
          (let keys = rng (le_Keys lease);
               s1 = set_leases s ((leases_of s)(leaseID := None))
           in case revoke_keys be s1 [] keys of (s2, events) \<Rightarrow> (s2, events, None)))"

definition LeaseRevoke ::
  "(gostring set \<Rightarrow> gostring list) \<Rightarrow> 'b Backend \<Rightarrow> 'b KVStore \<Rightarrow> int \<Rightarrow>
     'b KVStore \<times> go_error option" where
  "LeaseRevoke rng be s leaseID =
     (case LeaseRevoke_crit rng be s leaseID of (s1, events, err) \<Rightarrow> (send_events s1 events, err))"

text \<open>One tick of \<^verbatim>\<open>expirationLoop\<close>.\<close>

definition expiration_tick ::
  "(int set \<Rightarrow> int list) \<Rightarrow> (gostring set \<Rightarrow> gostring list) \<Rightarrow> 'b Backend \<Rightarrow> 'b KVStore \<Rightarrow> int \<Rightarrow>
     'b KVStore" where
  "expiration_tick rng_id rng be s now =
     foldl (\<lambda>s leaseID. fst (LeaseRevoke rng be s leaseID)) s (ExpiredLeaseIDs rng_id s now 64)"

definition KVStore_Close :: "'b KVStore \<Rightarrow> 'b KVStore" where
  "KVStore_Close s = s\<lparr>s_closed := True\<rparr>"

section \<open>The store refines a history\<close>

definition store_inv ::
  "('b \<Rightarrow> bool) \<Rightarrow> ('b \<Rightarrow> BackendState) \<Rightarrow> Event list \<Rightarrow> 'b KVStore \<Rightarrow> bool" where
  "store_inv invar st H s \<longleftrightarrow>
     invar (s_backend s) \<and> refines H (st (s_backend s)) \<and> lease_ok s"

text \<open>The events the next put and delete of a key add to a history.\<close>

definition put_event :: "Event list \<Rightarrow> gostring \<Rightarrow> bytes \<Rightarrow> Event" where
  "put_event H k v =
     \<lparr>ev_Type = EventPut, ev_Key = k, ev_Value = v, ev_Rev = Revision (int (length H) + 1) 0\<rparr>"

definition delete_event :: "Event list \<Rightarrow> gostring \<Rightarrow> Event" where
  "delete_event H k =
     \<lparr>ev_Type = EventDelete, ev_Key = k, ev_Value = [], ev_Rev = Revision (int (length H) + 1) 0\<rparr>"

fun delete_events :: "Event list \<Rightarrow> gostring list \<Rightarrow> Event list" where
  "delete_events H [] = []"
| "delete_events H (k # ks) = delete_event H k # delete_events (H @ [delete_event H k]) ks"

lemma event_fields [simp]:
  "ev_Type (put_event H k v) = EventPut" "ev_Key (put_event H k v) = k"
  "ev_Value (put_event H k v) = v" "ev_Rev (put_event H k v) = Revision (int (length H) + 1) 0"
  "ev_Type (delete_event H k) = EventDelete" "ev_Key (delete_event H k) = k"
  "ev_Value (delete_event H k) = []" "ev_Rev (delete_event H k) = Revision (int (length H) + 1) 0"
  by (simp_all add: put_event_def delete_event_def)

lemma delete_events_keys [simp]: "map ev_Key (delete_events H ks) = ks"
  by (induction H ks rule: delete_events.induct) simp_all

lemma delete_events_set:
  "e \<in> set (delete_events H ks) \<Longrightarrow> ev_Type e = EventDelete \<and> ev_Key e \<in> set ks"
  by (induction H ks rule: delete_events.induct) auto

lemma replay_put: "replay (H @ [put_event H k v]) = (replay H)(k \<mapsto> v)"
  by (simp add: replay_snoc apply_event_def)

lemma replay_delete: "replay (H @ [delete_event H k]) = (replay H)(k := None)"
  by (simp add: replay_snoc apply_event_def)

lemma replay_deletes: "replay (H @ delete_events H ks) = (replay H) |` (- set ks)"
proof (induction H ks rule: delete_events.induct)
  case (2 H k ks)
  then have "replay (H @ delete_events H (k # ks)) =
      (replay (H @ [delete_event H k])) |` (- set ks)" by simp
  also have "\<dots> = (replay H) |` (- set (k # ks))"
    by (auto simp: replay_delete restrict_map_def)
  finally show ?case .
qed (simp add: restrict_map_def)

lemma send_event_frame [frame_simps, simp]:
  "s_backend (send_event s ev) = s_backend s" "s_leaseMgr (send_event s ev) = s_leaseMgr s"
  "s_keyLease (send_event s ev) = s_keyLease s" "s_closed (send_event s ev) = s_closed s"
  "s_watchers (send_event s ev) = s_watchers s" "s_heap (send_event s ev) = s_heap s"
  "s_prefixWatchers (send_event s ev) = s_prefixWatchers s"
  "s_watchersByID (send_event s ev) = s_watchersByID s"
  "s_nextWatcherID (send_event s ev) = s_nextWatcherID s"
  by (simp_all add: send_event_def)

lemma send_events_frame [frame_simps, simp]:
  "s_backend (send_events s evs) = s_backend s" "s_leaseMgr (send_events s evs) = s_leaseMgr s"
  "s_keyLease (send_events s evs) = s_keyLease s" "s_closed (send_events s evs) = s_closed s"
  "s_watchers (send_events s evs) = s_watchers s" "s_heap (send_events s evs) = s_heap s"
  "s_prefixWatchers (send_events s evs) = s_prefixWatchers s"
  "s_watchersByID (send_events s evs) = s_watchersByID s"
  "s_nextWatcherID (send_events s evs) = s_nextWatcherID s"
  unfolding send_events_def by (induction evs arbitrary: s) simp_all

lemma send_events_queue [simp]:
  "s_eventCh (send_events s evs) = (if s_closed s then s_eventCh s else s_eventCh s @ evs)"
  unfolding send_events_def by (induction evs arbitrary: s) (auto simp: send_event_def)

lemma store_inv_send [simp]: "store_inv invar st H (send_events s evs) = store_inv invar st H s"
  by (simp add: store_inv_def lease_ok_def)

lemma store_inv_lease_ops:
  "s_backend s' = s_backend s \<Longrightarrow> lease_ok s' \<Longrightarrow> store_inv invar st H s \<Longrightarrow> store_inv invar st H s'"
  by (simp add: store_inv_def)

lemma get_loop_eq: "get_loop vs rv l r p = visible_loop vs rv l r p"
proof (induction vs rv l r p rule: get_loop.induct)
  case (1 vs rv l r p)
  then show ?case
    by (simp add: get_loop.simps [of vs rv l r p] visible_loop.simps [of vs rv l r p] Let_def)
qed

section \<open>Every operation extends the history\<close>

lemma version_of_put [simp]:
  "version_of (put_event H k v) =
     \<lparr>vr_Rev = Revision (int (length H) + 1) 0, vr_Value = v, vr_Deleted = False\<rparr>"
  by (simp add: version_of_def)

lemma version_of_delete [simp]:
  "version_of (delete_event H k) =
     \<lparr>vr_Rev = Revision (int (length H) + 1) 0, vr_Value = [], vr_Deleted = True\<rparr>"
  by (simp add: version_of_def)

context mvcc_backend
begin

abbreviation inv_store :: "Event list \<Rightarrow> 'b KVStore \<Rightarrow> bool" where
  "inv_store \<equiv> store_inv invar st"

lemma invD:
  assumes "inv_store H s"
  shows "invar (s_backend s)" "refines H (st (s_backend s))" "lease_ok s"
    "bs_CurrentRev (st (s_backend s)) = int (length H)"
  using assms refines_basic(2) by (auto simp: store_inv_def)

lemma putLocked_step:
  assumes "inv_store H s"
  obtains s' where "putLocked be s k v = (s', Revision (int (length H) + 1) 0, put_event H k v)"
    "inv_store (H @ [put_event H k v]) s'"
    "s' = s\<lparr>s_backend := s_backend s'\<rparr>"
proof -
  define b where "b = be_AppendEvent be (be_SetRevisions be
      (be_SetCurrentRev be (s_backend s) (int (length H) + 1)) k
      (versions_or_nil (bs_Data (st (s_backend s)) k) @ [version_of (put_event H k v)]))
      (put_event H k v)"
  note D = invD [OF assms]
  have eq: "putLocked be s k v =
      (s\<lparr>s_backend := b\<rparr>, Revision (int (length H) + 1) 0, put_event H k v)"
    using D by (simp add: putLocked_def Let_def b_def put_event_def version_of_def)
  have st: "invar b" "st b = (st (s_backend s))\<lparr>bs_CurrentRev := int (length H) + 1,
      bs_Data := (bs_Data (st (s_backend s)))(k \<mapsto>
        versions_or_nil (bs_Data (st (s_backend s)) k) @ [version_of (put_event H k v)]),
      bs_Events := bs_Events (st (s_backend s)) @ [put_event H k v]\<rparr>"
    using D by (simp_all add: b_def)
  have "refines (H @ [put_event H k v]) (st b)"
    using refines_append [OF D(2), of "put_event H k v"] D(4)
    by (simp add: st versions_or_nil_def)
  then have "inv_store (H @ [put_event H k v]) (s\<lparr>s_backend := b\<rparr>)"
    using D(3) st(1) by (simp add: store_inv_def lease_ok_def)
  with eq that show ?thesis by simp
qed

lemma deleteLocked_backend:
  assumes "invar (s_backend s)" and "refines H (st (s_backend s))"
  obtains b where "deleteLocked be s k = (detachKeyLocked (s\<lparr>s_backend := b\<rparr>) k,
      Revision (int (length H) + 1) 0, delete_event H k)"
    "invar b" "refines (H @ [delete_event H k]) (st b)"
    "bs_CompactRev (st b) = bs_CompactRev (st (s_backend s))"
proof -
  define b where "b = be_AppendEvent be (be_SetRevisions be
      (be_SetCurrentRev be (s_backend s) (int (length H) + 1)) k
      (versions_or_nil (bs_Data (st (s_backend s)) k) @ [version_of (delete_event H k)]))
      (delete_event H k)"
  note cur = refines_basic(2) [OF assms(2)]
  have eq: "deleteLocked be s k = (detachKeyLocked (s\<lparr>s_backend := b\<rparr>) k,
      Revision (int (length H) + 1) 0, delete_event H k)"
    using assms(1) cur by (simp add: deleteLocked_def Let_def b_def delete_event_def version_of_def)
  have st: "invar b" "st b = (st (s_backend s))\<lparr>bs_CurrentRev := int (length H) + 1,
      bs_Data := (bs_Data (st (s_backend s)))(k \<mapsto>
        versions_or_nil (bs_Data (st (s_backend s)) k) @ [version_of (delete_event H k)]),
      bs_Events := bs_Events (st (s_backend s)) @ [delete_event H k]\<rparr>"
    using assms(1) by (simp_all add: b_def)
  have "refines (H @ [delete_event H k]) (st b)"
    using refines_append [OF assms(2), of "delete_event H k"] cur
    by (simp add: st versions_or_nil_def)
  with eq st that show ?thesis by simp
qed

lemma deleteLocked_step:
  assumes "inv_store H s"
  obtains s' where "deleteLocked be s k = (s', Revision (int (length H) + 1) 0, delete_event H k)"
    "inv_store (H @ [delete_event H k]) s'"
    "s' = detachKeyLocked (s\<lparr>s_backend := s_backend s'\<rparr>) k"
proof -
  obtain b where b: "deleteLocked be s k = (detachKeyLocked (s\<lparr>s_backend := b\<rparr>) k,
      Revision (int (length H) + 1) 0, delete_event H k)"
    "invar b" "refines (H @ [delete_event H k]) (st b)"
    using invD(1,2) [OF assms] by (rule deleteLocked_backend)
  moreover have "lease_ok (s\<lparr>s_backend := b\<rparr>)"
    using invD(3) [OF assms] by (simp add: lease_ok_def)
  ultimately have "inv_store (H @ [delete_event H k]) (detachKeyLocked (s\<lparr>s_backend := b\<rparr>) k)"
    by (simp add: store_inv_def lease_ok_detach)
  with b(1) that show ?thesis by simp
qed

text \<open>A put adds its event, or fails on the lease and changes nothing.\<close>

lemma Put_crit_ok:
  assumes "inv_store H s"
    and "leaseID = 0 \<or> (\<exists>l. lookupLeaseLocked s now leaseID = Inr l)"
  obtains s' where "KVStore_Put_crit be s now k v leaseID =
      (s', [put_event H k v], Inr (Revision (int (length H) + 1) 0))"
    "inv_store (H @ [put_event H k v]) s'"
    "s_keyLease s' = (s_keyLease s)(k := if leaseID = 0 then None else Some leaseID)"
    "s_closed s' = s_closed s" "s_eventCh s' = s_eventCh s"
proof -
  obtain s1 where s1: "putLocked be s k v = (s1, Revision (int (length H) + 1) 0, put_event H k v)"
    "inv_store (H @ [put_event H k v]) s1" "s1 = s\<lparr>s_backend := s_backend s1\<rparr>"
    by (rule putLocked_step [OF assms(1)])
  have f: "s_leaseMgr s1 = s_leaseMgr s" "s_keyLease s1 = s_keyLease s" "s_closed s1 = s_closed s"
    "s_eventCh s1 = s_eventCh s" by (subst s1(3), simp)+
  have ok: "lease_ok s1" using invD(3) [OF s1(2)] .
  show ?thesis
  proof (cases "leaseID = 0")
    case True
    have "inv_store (H @ [put_event H k v]) (detachKeyLocked s1 k)"
      by (rule store_inv_lease_ops [OF _ lease_ok_detach [OF ok] s1(2)]) simp
    with True s1 f show ?thesis
      by (intro that [of "detachKeyLocked s1 k"])
        (simp_all add: KVStore_Put_crit_def lease_ok_detach_eq [OF ok])
  next
    case False
    then obtain l where l: "lookupLeaseLocked s now leaseID = Inr l" using assms(2) by auto
    then have some: "leases_of s1 leaseID = Some l" by (simp add: lookupLeaseLocked_Inr f)
    have "inv_store (H @ [put_event H k v]) (bindKeyToLeaseLocked s1 k leaseID l)"
      by (rule store_inv_lease_ops [OF _ lease_ok_bind [OF ok some] s1(2)]) simp
    with False l s1 f show ?thesis
      by (intro that [of "bindKeyToLeaseLocked s1 k leaseID l"])
        (simp_all add: KVStore_Put_crit_def lease_ok_bind_eq [OF ok some])
  qed
qed

lemma Put_crit_err:
  "leaseID \<noteq> 0 \<Longrightarrow> lookupLeaseLocked s now leaseID = Inl e \<Longrightarrow>
     KVStore_Put_crit be s now k v leaseID = (s, [], Inl e)"
  by (simp add: KVStore_Put_crit_def)

lemma Put_ok:
  assumes "inv_store H s"
    and "leaseID = 0 \<or> (\<exists>l. lookupLeaseLocked s now leaseID = Inr l)"
  obtains s' where "KVStore_Put be s now k v leaseID = (s', Inr (Revision (int (length H) + 1) 0))"
    "inv_store (H @ [put_event H k v]) s'"
    "s_keyLease s' = (s_keyLease s)(k := if leaseID = 0 then None else Some leaseID)"
    "\<not> s_closed s \<Longrightarrow> s_eventCh s' = s_eventCh s @ [put_event H k v]"
proof -
  obtain s1 where s1: "KVStore_Put_crit be s now k v leaseID =
      (s1, [put_event H k v], Inr (Revision (int (length H) + 1) 0))"
    "inv_store (H @ [put_event H k v]) s1"
    "s_keyLease s1 = (s_keyLease s)(k := if leaseID = 0 then None else Some leaseID)"
    "s_closed s1 = s_closed s" "s_eventCh s1 = s_eventCh s"
    by (rule Put_crit_ok [OF assms])
  then show ?thesis
    by (intro that [of "send_events s1 [put_event H k v]"]) (simp_all add: KVStore_Put_def)
qed

lemma Delete_ok:
  assumes "inv_store H s"
  obtains s' where "KVStore_Delete be s k = (s', Revision (int (length H) + 1) 0)"
    "inv_store (H @ [delete_event H k]) s'"
    "s_keyLease s' = (s_keyLease s)(k := None)"
    "\<not> s_closed s \<Longrightarrow> s_eventCh s' = s_eventCh s @ [delete_event H k]"
proof -
  obtain s1 where s1: "deleteLocked be s k = (s1, Revision (int (length H) + 1) 0, delete_event H k)"
    "inv_store (H @ [delete_event H k]) s1" "s1 = detachKeyLocked (s\<lparr>s_backend := s_backend s1\<rparr>) k"
    by (rule deleteLocked_step [OF assms])
  have "lease_ok (s\<lparr>s_backend := s_backend s1\<rparr>)"
    using invD(3) [OF assms] by (simp add: lease_ok_def)
  then have f: "s_keyLease s1 = (s_keyLease s)(k := None)" "s_closed s1 = s_closed s"
    "s_eventCh s1 = s_eventCh s"
    by (subst s1(3), simp add: lease_ok_detach_eq)+
  with s1(1,2) show ?thesis
    by (intro that [of "send_events s1 [delete_event H k]"])
      (simp_all add: KVStore_Delete_def KVStore_Delete_crit_def)
qed

text \<open>
  Revoking deletes the lease's keys one after the other. The lease is already gone from
  the table, so each step only drops the key's binding.
\<close>

lemma revoke_keys_step:
  assumes "invar (s_backend s)" "refines H (st (s_backend s))" "distinct ks"
    "\<forall>k \<in> set ks. s_keyLease s k = Some i" "leases_of s i = None"
  shows "\<exists>b. revoke_keys be s evs ks =
      (s\<lparr>s_backend := b, s_keyLease := s_keyLease s |` (- set ks)\<rparr>, evs @ delete_events H ks) \<and>
    invar b \<and> refines (H @ delete_events H ks) (st b) \<and>
    bs_CompactRev (st b) = bs_CompactRev (st (s_backend s))"
  using assms
proof (induction ks arbitrary: s H evs)
  case Nil
  have "s_keyLease s |` UNIV = s_keyLease s" by (simp add: restrict_map_def)
  with Nil show ?case by (intro exI [of _ "s_backend s"]) simp
next
  case (Cons k ks)
  obtain b where b: "deleteLocked be s k = (detachKeyLocked (s\<lparr>s_backend := b\<rparr>) k,
      Revision (int (length H) + 1) 0, delete_event H k)"
    "invar b" "refines (H @ [delete_event H k]) (st b)"
    "bs_CompactRev (st b) = bs_CompactRev (st (s_backend s))"
    using Cons.prems(1,2) by (rule deleteLocked_backend)
  let ?s = "s\<lparr>s_backend := b, s_keyLease := (s_keyLease s)(k := None)\<rparr>"
  have det: "detachKeyLocked (s\<lparr>s_backend := b\<rparr>) k = ?s"
    using Cons.prems(4,5) by (simp add: detachKeyLocked_def)
  have "\<exists>b'. revoke_keys be ?s (evs @ [delete_event H k]) ks =
      (?s\<lparr>s_backend := b', s_keyLease := s_keyLease ?s |` (- set ks)\<rparr>,
       (evs @ [delete_event H k]) @ delete_events (H @ [delete_event H k]) ks) \<and>
    invar b' \<and> refines ((H @ [delete_event H k]) @ delete_events (H @ [delete_event H k]) ks) (st b') \<and>
    bs_CompactRev (st b') = bs_CompactRev (st (s_backend ?s))"
    by (rule Cons.IH) (use Cons.prems b in auto)
  moreover have "((s_keyLease s)(k := None)) |` (- set ks) = s_keyLease s |` (- set (k # ks))"
    by (auto simp: restrict_map_def)
  ultimately show ?case by (simp add: b(1,4) det)
qed

lemma Revoke_ok:
  assumes "inv_store H s" and "leases_of s i = Some l" and "range_order rng"
  obtains s' where "LeaseRevoke rng be s i = (s', None)"
    "inv_store (H @ delete_events H (rng (le_Keys l))) s'"
    "leases_of s' = (leases_of s)(i := None)"
    "s_keyLease s' = s_keyLease s |` (- le_Keys l)"
    "\<not> s_closed s \<Longrightarrow> s_eventCh s' = s_eventCh s @ delete_events H (rng (le_Keys l))"
    "bs_CompactRev (st (s_backend s')) = bs_CompactRev (st (s_backend s))"
proof -
  note D = invD [OF assms(1)] and ok = lease_okD [OF invD(3) [OF assms(1)]]
  let ?ks = "rng (le_Keys l)" and ?s = "set_leases s ((leases_of s)(i := None))"
  have fin: "finite (le_Keys l)" by (rule finite_le_Keys [OF D(3) assms(2)])
  note ks = range_order_set [OF assms(3) fin] range_order_distinct [OF assms(3) fin]
  have bound: "\<forall>k \<in> set ?ks. s_keyLease ?s k = Some i"
    using ok(5) [OF assms(2)] unfolding ks(1) by simp
  obtain b where b: "revoke_keys be ?s [] ?ks =
      (?s\<lparr>s_backend := b, s_keyLease := s_keyLease ?s |` (- set ?ks)\<rparr>, [] @ delete_events H ?ks)"
    "invar b" "refines (H @ delete_events H ?ks) (st b)"
    "bs_CompactRev (st b) = bs_CompactRev (st (s_backend s))"
    using revoke_keys_step [of ?s H ?ks i "[]"] D(1,2) ks(2) bound by auto
  let ?s' = "?s\<lparr>s_backend := b, s_keyLease := s_keyLease s |` (- le_Keys l)\<rparr>"
  have crit: "LeaseRevoke_crit rng be s i = (?s', delete_events H ?ks, None)"
    using b(1) assms(2) by (simp add: LeaseRevoke_crit_def Let_def ks(1))
  have "lease_ok ?s'"
  proof (rule lease_okI)
    show "k \<in> le_Keys l' \<longleftrightarrow> s_keyLease ?s' k = Some j" if "leases_of ?s' j = Some l'" for j l' k
      using that ok(5) [OF assms(2)] ok(5) [of j l']
      by (auto simp: restrict_map_def split: if_splits)
    show "leases_of ?s' j \<noteq> None" if "s_keyLease ?s' k = Some j" for k j
      using that ok(5) [OF assms(2)] ok(6) [of k j] by (auto simp: restrict_map_def split: if_splits)
  qed (use ok in \<open>auto simp: ok(3) split: if_splits intro: finite_subset\<close>)
  then have "inv_store (H @ delete_events H ?ks) ?s'" using b by (simp add: store_inv_def)
  then show ?thesis
    by (intro that [of "send_events ?s' (delete_events H ?ks)"])
      (simp_all add: LeaseRevoke_def crit b(4))
qed

text \<open>A read is the replayed value; below the compaction point it is refused.\<close>

lemma Get_eq:
  assumes "inv_store H s" and "rv = 0 \<or> bs_CompactRev (st (s_backend s)) < rv"
    and "r = (if rv = 0 then int (length H) else rv)"
  shows "KVStore_Get be s k rv =
    (case state_at H r k of
       None \<Rightarrow> ([], if bs_Data (st (s_backend s)) k = None then rv else r, False)
     | Some v \<Rightarrow> (v, r, True))"
proof -
  note D = invD [OF assms(1)]
  have r: "bs_CompactRev (st (s_backend s)) \<le> r"
    using assms(2,3) refines_basic(4) [OF D(2)] D(4) by auto
  note vis = refines_visible [OF D(2) r, of k]
  show ?thesis
  proof (cases "bs_Data (st (s_backend s)) k")
    case None
    with vis D(1) show ?thesis by (simp add: KVStore_Get_def)
  next
    case (Some vs)
    have ne: "vs \<noteq> []" and srt: "versions_sorted vs"
      using refines_nonempty [OF D(2) Some] refines_sorted [OF D(2) Some] by auto
    have "KVStore_Get be s k rv = (case latestVisibleRevision vs r of
        None \<Rightarrow> ([], r, False) | Some v \<Rightarrow> (vr_Value v, r, True))"
      using assms(2,3) Some D ne
      by (cases "rv = 0")
        (simp_all add: KVStore_Get_def latestVisibleRevision_def get_loop_eq Let_def)
    then show ?thesis
      using vis Some by (simp add: latestVisibleRevision_eq [OF srt] split: option.splits)
  qed
qed

text \<open>At an explicit revision the answer depends on the history alone.\<close>

lemma Get_at:
  assumes "inv_store H s" and "bs_CompactRev (st (s_backend s)) < rv"
  shows "KVStore_Get be s k rv =
    (case state_at H rv k of None \<Rightarrow> ([], rv, False) | Some v \<Rightarrow> (v, rv, True))"
proof -
  have "rv \<noteq> 0" using assms(2) refines_basic(3) [OF invD(2) [OF assms(1)]] by simp
  then show ?thesis
    using Get_eq [OF assms(1), of rv rv k] assms(2) by (simp split: option.splits)
qed

lemma Get_compacted:
  "inv_store H s \<Longrightarrow> rv \<noteq> 0 \<Longrightarrow> rv \<le> bs_CompactRev (st (s_backend s)) \<Longrightarrow>
     KVStore_Get be s k rv = ([], rv, False)"
  using invD(1) [of H s] by (auto simp: KVStore_Get_def split: option.splits)

lemma CurrentRevision_eq: "inv_store H s \<Longrightarrow> KVStore_CurrentRevision be s = int (length H)"
  using invD(1,4) [of H s] by (simp add: KVStore_CurrentRevision_def)

text \<open>An expiration tick only deletes keys of expired leases, at most 64 leases at a time.\<close>

lemma Revoke_missing: "leases_of s i = None \<Longrightarrow>
    LeaseRevoke rng be s i = (s, Some (LeaseNotFound i))"
  by (simp add: LeaseRevoke_def LeaseRevoke_crit_def send_events_def)

lemma revoke_any:
  assumes "inv_store H s" and "range_order rng"
  obtains H' where "inv_store (H @ H') (fst (LeaseRevoke rng be s i))"
    "leases_of (fst (LeaseRevoke rng be s i)) = (leases_of s)(i := None)"
    "\<And>e. e \<in> set H' \<Longrightarrow> ev_Type e = EventDelete \<and> s_keyLease s (ev_Key e) = Some i"
    "\<And>k. s_keyLease (fst (LeaseRevoke rng be s i)) k =
       (if s_keyLease s k = Some i then None else s_keyLease s k)"
proof (cases "leases_of s i")
  case None
  then have "s_keyLease s k \<noteq> Some i" for k
    using lease_okD(6) [OF invD(3) [OF assms(1)], of k i] by auto
  moreover have "(leases_of s)(i := None) = leases_of s" using None by auto
  ultimately show ?thesis using assms(1) None by (intro that [of "[]"]) (simp_all add: Revoke_missing)
next
  case (Some l)
  obtain s1 where s1: "LeaseRevoke rng be s i = (s1, None)"
    "inv_store (H @ delete_events H (rng (le_Keys l))) s1"
    "leases_of s1 = (leases_of s)(i := None)"
    "s_keyLease s1 = s_keyLease s |` (- le_Keys l)"
    by (rule Revoke_ok [OF assms(1) Some assms(2)])
  have K: "le_Keys l = {k. s_keyLease s k = Some i}"
    by (rule lease_okD(5) [OF invD(3) [OF assms(1)] Some])
  have fin: "finite (le_Keys l)" by (rule finite_le_Keys [OF invD(3) [OF assms(1)] Some])
  have "ev_Type e = EventDelete \<and> s_keyLease s (ev_Key e) = Some i"
    if "e \<in> set (delete_events H (rng (le_Keys l)))" for e
    using delete_events_set [OF that] range_order_set [OF assms(2) fin] K by auto
  then show ?thesis
    using s1 by (intro that [of "delete_events H (rng (le_Keys l))"]) (simp_all add: K restrict_map_def)
qed

lemma revoke_list:
  assumes "inv_store H s" and "range_order rng"
  shows "\<exists>H' s'. foldl (\<lambda>s i. fst (LeaseRevoke rng be s i)) s ids = s' \<and>
    inv_store (H @ H') s' \<and>
    leases_of s' = leases_of s |` (- set ids) \<and>
    (\<forall>e \<in> set H'. ev_Type e = EventDelete \<and> (\<exists>i \<in> set ids. s_keyLease s (ev_Key e) = Some i)) \<and>
    (\<forall>k. s_keyLease s' k =
       (if \<exists>i \<in> set ids. s_keyLease s k = Some i then None else s_keyLease s k))"
  using assms(1)
proof (induction ids arbitrary: H s)
  case Nil
  have "leases_of s |` UNIV = leases_of s" by (simp add: restrict_map_def)
  with Nil show ?case by (intro exI [of _ "[]"]) simp
next
  case (Cons i ids)
  define s1 where "s1 = fst (LeaseRevoke rng be s i)"
  obtain H1 where H1: "inv_store (H @ H1) s1" "leases_of s1 = (leases_of s)(i := None)"
    "\<And>e. e \<in> set H1 \<Longrightarrow> ev_Type e = EventDelete \<and> s_keyLease s (ev_Key e) = Some i"
    "\<And>k. s_keyLease s1 k = (if s_keyLease s k = Some i then None else s_keyLease s k)"
    by (rule revoke_any [OF Cons.prems assms(2), of i, folded s1_def]) blast
  obtain H' s' where IH: "foldl (\<lambda>s i. fst (LeaseRevoke rng be s i)) s1 ids = s'"
    "inv_store ((H @ H1) @ H') s'" "leases_of s' = leases_of s1 |` (- set ids)"
    "\<forall>e \<in> set H'. ev_Type e = EventDelete \<and> (\<exists>i \<in> set ids. s_keyLease s1 (ev_Key e) = Some i)"
    "\<forall>k. s_keyLease s' k =
       (if \<exists>i \<in> set ids. s_keyLease s1 k = Some i then None else s_keyLease s1 k)"
    using Cons.IH [OF H1(1)] by blast
  have "\<forall>e \<in> set (H1 @ H'). ev_Type e = EventDelete \<and>
      (\<exists>i \<in> set (i # ids). s_keyLease s (ev_Key e) = Some i)"
    using IH(4) H1(3) by (auto simp: H1(4) split: if_splits)
  moreover have "leases_of s' = leases_of s |` (- set (i # ids))"
    by (auto simp: IH(3) H1(2) restrict_map_def)
  moreover have "s_keyLease s' k =
     (if \<exists>j \<in> set (i # ids). s_keyLease s k = Some j then None else s_keyLease s k)" for k
    by (simp add: IH(5) H1(4))
  ultimately show ?case
    using IH(1,2) by (intro exI [of _ "H1 @ H'"] exI [of _ s']) (simp add: s1_def)
qed

end

end
