(* ===== verification/KVSnapshot.thy ===== *)
theory KVSnapshot
  imports KVStore
begin

text \<open>
  \<^verbatim>\<open>Snapshot\<close> and \<^verbatim>\<open>Restore\<close> of \<^verbatim>\<open>kv_store.go\<close> with \<^verbatim>\<open>snapshot\<close> and \<^verbatim>\<open>restore\<close> of
  \<^verbatim>\<open>lease.go\<close>. The protobuf messages are records whose sub-messages are optional, since a
  Go pointer may be nil; the wire codec is a parameter: \<open>marshal\<close> returns \<^const>\<open>None\<close> for an
  error, \<open>unmarshal\<close> likewise. An absent and an empty repeated field are one value, as they
  are after decoding.
\<close>

section \<open>Messages\<close>

record pb_ValueRevision =
  pvr_Rev :: "Revision option"
  pvr_Value :: bytes
  pvr_Deleted :: bool

record pb_KeyEntry =
  pke_Key :: gostring
  pke_Revisions :: "pb_ValueRevision option list"

record pb_MvccEvent =
  pev_Type :: int
  pev_Key :: gostring
  pev_Value :: bytes
  pev_Rev :: "Revision option"

record pb_MvccLease =
  ple_Id :: int
  ple_Ttl :: int
  ple_ExpireAtUnixNano :: int
  ple_Keys :: "gostring list"

record pb_MvccSnapshot =
  ps_CurrentRev :: int
  ps_CompactRev :: int
  ps_Entries :: "pb_KeyEntry option list"
  ps_Events :: "pb_MvccEvent option list"
  ps_Leases :: "pb_MvccLease option list"
  ps_KeyLease :: "gostring \<rightharpoonup> int"
  ps_NextLeaseId :: int

section \<open>Taking a snapshot\<close>

text \<open>\<^verbatim>\<open>LeaseManager.snapshot\<close>; the leases come in map order, each lease's keys sorted.\<close>

definition LeaseManager_snapshot ::
  "(int set \<Rightarrow> int list) \<Rightarrow> LeaseManager \<Rightarrow> pb_MvccLease option list \<times> int" where
  "LeaseManager_snapshot rng lm =
     (map (\<lambda>i. let l = the (lm_leases lm i)
               in Some \<lparr>ple_Id = le_ID l, ple_Ttl = le_TTL l,
                        ple_ExpireAtUnixNano = i64 (le_ExpireAt l),
                        ple_Keys = sorted_list_of_set (le_Keys l)\<rparr>)
        (rng (dom (lm_leases lm))),
      lm_nextLeaseID lm)"

definition snapshot_event :: "Event \<Rightarrow> pb_MvccEvent" where
  "snapshot_event ev =
     \<lparr>pev_Type = ev_Type ev, pev_Key = ev_Key ev, pev_Value = ev_Value ev,
      pev_Rev = Some (Revision (Main (ev_Rev ev)) (Sub (ev_Rev ev)))\<rparr>"

definition snapshot_version :: "ValueRevision \<Rightarrow> pb_ValueRevision" where
  "snapshot_version v =
     \<lparr>pvr_Rev = Some (Revision (Main (vr_Rev v)) (Sub (vr_Rev v))), pvr_Value = vr_Value v,
      pvr_Deleted = vr_Deleted v\<rparr>"

definition snapshot_entry :: "(gostring \<rightharpoonup> ValueRevision list) \<Rightarrow> gostring \<Rightarrow> pb_KeyEntry" where
  "snapshot_entry data k =
     \<lparr>pke_Key = k,
      pke_Revisions = map (\<lambda>v. Some (snapshot_version v)) (sort_key vr_Rev (the (data k)))\<rparr>"

definition snapshot_message ::
  "(int set \<Rightarrow> int list) \<Rightarrow> 'b Backend \<Rightarrow> 'b KVStore \<Rightarrow> pb_MvccSnapshot" where
  "snapshot_message rng be s =
     (let state = be_SnapshotState be (s_backend s);
          (leases, nextleaseID) = LeaseManager_snapshot rng (s_leaseMgr s);
          events = sort_key (\<lambda>e. the (pev_Rev e)) (map snapshot_event (bs_Events state));
          keys = sorted_list_of_set (dom (bs_Data state))
      in \<lparr>ps_CurrentRev = bs_CurrentRev state, ps_CompactRev = bs_CompactRev state,
          ps_Entries = map (\<lambda>k. Some (snapshot_entry (bs_Data state) k)) keys,
          ps_Events = map Some events, ps_Leases = leases, ps_KeyLease = s_keyLease s,
          ps_NextLeaseId = nextleaseID\<rparr>)"

definition KVStore_Snapshot ::
  "(int set \<Rightarrow> int list) \<Rightarrow> 'b Backend \<Rightarrow> (pb_MvccSnapshot \<Rightarrow> bytes option) \<Rightarrow> 'b KVStore \<Rightarrow>
     bytes outcome" where
  "KVStore_Snapshot rng be marshal s =
     (case marshal (snapshot_message rng be s) of
        None \<Rightarrow> Inl (ExplicitPanic (str ''proto.Marshal''))
      | Some data \<Rightarrow> Inr data)"

section \<open>Restoring\<close>

text \<open>\<^verbatim>\<open>LeaseManager.restore\<close>.\<close>

fun restore_leases :: "(int \<rightharpoonup> Lease) \<Rightarrow> pb_MvccLease option list \<Rightarrow> (int \<rightharpoonup> Lease) outcome" where
  "restore_leases leases [] = Inr leases"
| "restore_leases leases (None # ls) = Inl NilPointer"
| "restore_leases leases (Some l # ls) =
     (if ple_Id l \<le> 0 then restore_leases leases ls
      else restore_leases
             (leases(ple_Id l \<mapsto> \<lparr>le_ID = ple_Id l, le_TTL = ple_Ttl l,
                                 le_ExpireAt = ple_ExpireAtUnixNano l,
                                 le_Keys = set (ple_Keys l)\<rparr>)) ls)"

text \<open>The main revisions of one entry; a version without revision is dereferenced.\<close>

fun entry_mains :: "pb_ValueRevision option list \<Rightarrow> int list outcome" where
  "entry_mains [] = Inr []"
| "entry_mains (None # vs) = Inl NilPointer"
| "entry_mains (Some v # vs) =
     (case pvr_Rev v of
        None \<Rightarrow> Inl NilPointer
      | Some rv \<Rightarrow> (case entry_mains vs of Inl p \<Rightarrow> Inl p | Inr ms \<Rightarrow> Inr (Main rv # ms)))"

fun seen_mains :: "pb_KeyEntry option list \<Rightarrow> int list outcome" where
  "seen_mains [] = Inr []"
| "seen_mains (None # es) = Inl NilPointer"
| "seen_mains (Some e # es) =
     (case entry_mains (pke_Revisions e) of
        Inl p \<Rightarrow> Inl p
      | Inr ms \<Rightarrow> (case seen_mains es of Inl p \<Rightarrow> Inl p | Inr ms' \<Rightarrow> Inr (ms @ ms')))"

definition max_main :: "int list \<Rightarrow> int" where
  "max_main ms = foldl (\<lambda>maxRev m. if m > maxRev then m else maxRev) 0 ms"

text \<open>Reached only when every revision pointer has been dereferenced already.\<close>

definition restore_version :: "pb_ValueRevision option \<Rightarrow> ValueRevision" where
  "restore_version v =
     \<lparr>vr_Rev = Revision (Main (the (pvr_Rev (the v)))) (Sub (the (pvr_Rev (the v)))),
      vr_Value = pvr_Value (the v), vr_Deleted = pvr_Deleted (the v)\<rparr>"

definition restore_data :: "pb_KeyEntry option list \<Rightarrow> (gostring \<rightharpoonup> ValueRevision list)" where
  "restore_data entries =
     foldl (\<lambda>m e. m(pke_Key (the e) \<mapsto> map restore_version (pke_Revisions (the e))))
       Map.empty entries"

fun restore_events :: "pb_MvccEvent option list \<Rightarrow> Event list" where
  "restore_events [] = []"
| "restore_events (None # es) = restore_events es"
| "restore_events (Some e # es) =
     (case pev_Rev e of
        None \<Rightarrow> restore_events es
      | Some rv \<Rightarrow>
          \<lparr>ev_Type = u8 (pev_Type e), ev_Key = pev_Key e, ev_Value = pev_Value e,
           ev_Rev = Revision (Main rv) (Sub rv)\<rparr> # restore_events es)"

definition restore_message ::
  "'b Backend \<Rightarrow> 'b KVStore \<Rightarrow> pb_MvccSnapshot \<Rightarrow> 'b KVStore outcome" where
  "restore_message be s snap =
     (if ps_CurrentRev snap < 0 then Inr s
      else if ps_Entries snap = [] then Inr s
      else if None \<in> set (ps_Entries snap) then Inl NilPointer
      else
        (case seen_mains (ps_Entries snap) of
           Inl p \<Rightarrow> Inl p
         | Inr seen \<Rightarrow>
             (let maxRev = max_main seen
              in if maxRev \<noteq> ps_CurrentRev snap then Inr s
                 else if \<not> list_all (\<lambda>i. i \<in> set seen) [1..maxRev] then Inr s
                 else
                   (case restore_leases Map.empty (ps_Leases snap) of
                      Inl p \<Rightarrow> Inl p
                    | Inr leases \<Rightarrow>
                        Inr (s\<lparr>s_backend := be_ReplaceState be (s_backend s)
                                 \<lparr>bs_Data = restore_data (ps_Entries snap),
                                  bs_Events = restore_events (ps_Events snap),
                                  bs_CurrentRev = ps_CurrentRev snap,
                                  bs_CompactRev = ps_CompactRev snap\<rparr>,
                               s_keyLease := ps_KeyLease snap,
                               s_leaseMgr := \<lparr>lm_leases = leases,
                                              lm_nextLeaseID = ps_NextLeaseId snap\<rparr>\<rparr>)))))"

definition KVStore_Restore ::
  "'b Backend \<Rightarrow> (bytes \<Rightarrow> pb_MvccSnapshot option) \<Rightarrow> 'b KVStore \<Rightarrow> bytes \<Rightarrow> 'b KVStore outcome" where
  "KVStore_Restore be unmarshal s snapshot =
     (case unmarshal snapshot of
        None \<Rightarrow> Inl (ExplicitPanic (str ''proto.Unmarshal''))
      | Some snap \<Rightarrow> restore_message be s snap)"

section \<open>Round trip of the parts\<close>

lemma restore_snapshot_version [simp]: "restore_version (Some (snapshot_version v)) = v"
  by (simp add: restore_version_def snapshot_version_def)

lemma entry_mains_snapshot [simp]:
  "entry_mains (map (\<lambda>v. Some (snapshot_version v)) vs) = Inr (map vmain vs)"
  by (induction vs) (simp_all add: snapshot_version_def)

lemma seen_mains_snapshot:
  "seen_mains (map (\<lambda>k. Some (snapshot_entry data k)) ks) =
     Inr (concat (map (\<lambda>k. map vmain (sort_key vr_Rev (the (data k)))) ks))"
  by (induction ks) (simp_all add: snapshot_entry_def)

lemma restore_data_snapshot:
  "restore_data (map (\<lambda>k. Some (snapshot_entry data k)) ks) =
     (\<lambda>k. if k \<in> set ks then Some (sort_key vr_Rev (the (data k))) else None)"
proof -
  have "foldl (\<lambda>m e. m(pke_Key (the e) \<mapsto> map restore_version (pke_Revisions (the e)))) m
      (map (\<lambda>k. Some (snapshot_entry data k)) ks) =
      (\<lambda>k. if k \<in> set ks then Some (sort_key vr_Rev (the (data k))) else m k)" for m
    by (induction ks arbitrary: m) (auto simp: snapshot_entry_def o_def)
  then show ?thesis by (simp add: restore_data_def)
qed

lemma restore_events_snapshot:
  "\<forall>e \<in> set es. 0 \<le> ev_Type e \<and> ev_Type e < 256 \<Longrightarrow>
     restore_events (map Some (map snapshot_event es)) = es"
  by (induction es) (simp_all add: snapshot_event_def u8_id)

lemma restore_leases_snapshot:
  assumes "\<forall>i \<in> set ids. \<exists>l. leases i = Some l \<and> le_ID l = i \<and> 0 < i \<and> finite (le_Keys l) \<and>
      i64 (le_ExpireAt l) = le_ExpireAt l"
  shows "restore_leases m (map (\<lambda>i. let l = the (leases i)
               in Some \<lparr>ple_Id = le_ID l, ple_Ttl = le_TTL l,
                        ple_ExpireAtUnixNano = i64 (le_ExpireAt l),
                        ple_Keys = sorted_list_of_set (le_Keys l)\<rparr>) ids) =
    Inr (\<lambda>i. if i \<in> set ids then leases i else m i)"
  using assms
proof (induction ids arbitrary: m)
  case (Cons i ids)
  then obtain l where l: "leases i = Some l" "le_ID l = i" "0 < i" "finite (le_Keys l)"
    "i64 (le_ExpireAt l) = le_ExpireAt l" by auto
  then have "\<lparr>le_ID = i, le_TTL = le_TTL l, le_ExpireAt = le_ExpireAt l, le_Keys = le_Keys l\<rparr> = l"
    by (cases l) simp
  with Cons l show ?case by (auto simp: Let_def fun_eq_iff)
qed simp

lemma max_main_eqI:
  assumes "\<forall>m \<in> set ms. m \<le> n" and "n = 0 \<or> n \<in> set ms" and "0 \<le> n"
  shows "max_main ms = n"
proof -
  have "foldl (\<lambda>a m. if m > a then m else a) x ms = n"
    if "\<forall>m \<in> set ms. m \<le> n" "n = x \<or> n \<in> set ms" "x \<le> n" for x
    using that by (induction ms arbitrary: x) auto
  with assms show ?thesis by (auto simp: max_main_def)
qed

lemma sort_key_sorted: "sorted (map f xs) \<Longrightarrow> sort_key f xs = xs"
  by (metis sort_key_id_if_sorted)

lemma versions_sorted_by_rev: "versions_sorted vs \<Longrightarrow> sort_key vr_Rev vs = vs"
  by (rule sort_key_sorted)
    (auto simp: versions_sorted_def sorted_wrt_map Revision_le_iff elim!: sorted_wrt_mono_rel [rotated])

lemma history_sorted: "history_ok H \<Longrightarrow> sorted_wrt (\<lambda>a b. emain a < emain b) H"
  by (simp add: sorted_wrt_iff_nth_less history_ok_def)

lemma snapshot_events_sorted:
  assumes "sorted_wrt (\<lambda>a b. emain a < emain b) es"
  shows "sort_key (\<lambda>e. the (pev_Rev e)) (map snapshot_event es) = map snapshot_event es"
  by (rule sort_key_sorted)
    (use assms in \<open>auto simp: sorted_wrt_map snapshot_event_def Revision_le_iff
      elim!: sorted_wrt_mono_rel [rotated]\<close>)

section \<open>Round trip\<close>

text \<open>Every revision up to the current one still has its version.\<close>

definition complete_history :: "BackendState \<Rightarrow> bool" where
  "complete_history b \<longleftrightarrow>
     (\<forall>i. 1 \<le> i \<longrightarrow> i \<le> bs_CurrentRev b \<longrightarrow>
        (\<exists>k vs v. bs_Data b k = Some vs \<and> v \<in> set vs \<and> vmain v = i))"

definition unix_nano_ok :: "LeaseManager \<Rightarrow> bool" where
  "unix_nano_ok lm \<longleftrightarrow> (\<forall>i l. lm_leases lm i = Some l \<longrightarrow> i64 (le_ExpireAt l) = le_ExpireAt l)"

lemma refines_complete:
  assumes "refines H b" and "bs_CompactRev b = 0"
  shows "complete_history b"
  unfolding complete_history_def
proof (intro allI impI)
  fix i assume i: "1 \<le> i" "i \<le> bs_CurrentRev b"
  note R = refines_basic [OF assms(1)]
  let ?e = "H ! nat (i - 1)"
  have n: "nat (i - 1) < length H" using i R(2) by linarith
  then have e: "?e \<in> set H" "emain ?e = i" using history_ok_emain [OF R(1) n] i by auto
  have v: "version_of ?e \<in> set (versions_of H (ev_Key ?e))" using e(1) by (auto simp: versions_of_def)
  obtain vs where vs: "bs_Data b (ev_Key ?e) = Some vs"
    using refines_absent [OF assms(1), of "ev_Key ?e"] v by (cases "bs_Data b (ev_Key ?e)") auto
  obtain n where n: "vs = drop n (versions_of H (ev_Key ?e))"
    "n = 0 \<or> n < length (versions_of H (ev_Key ?e)) \<and> vmain (versions_of H (ev_Key ?e) ! n) \<le> 0"
    using refines_retained [OF assms(1) vs] assms(2) by (auto simp: retained_def)
  have "n = 0" using n(2) versions_of_bound [OF R(1) nth_mem, of n "ev_Key ?e"] by force
  with n(1) v e(2) vs show "\<exists>k vs v. bs_Data b k = Some vs \<and> v \<in> set vs \<and> vmain v = i"
    by (intro exI [of _ "ev_Key ?e"] exI [of _ vs] exI [of _ "version_of ?e"]) simp
qed

context mvcc_backend
begin

lemma snapshot_mains:
  assumes "inv_store H s"
  obtains seen where
    "seen_mains (ps_Entries (snapshot_message rng be s)) = Inr seen"
    "set seen = {vmain v | k vs v. bs_Data (st (s_backend s)) k = Some vs \<and> v \<in> set vs}"
    "None \<notin> set (ps_Entries (snapshot_message rng be s))"
    "ps_Entries (snapshot_message rng be s) = [] \<longleftrightarrow> dom (bs_Data (st (s_backend s))) = {}"
proof -
  note D = invD [OF assms]
  let ?D = "bs_Data (st (s_backend s))"
  have fin: "finite (dom ?D)" using state_ok [OF D(1)] by (simp add: state_ok_def)
  have ent: "ps_Entries (snapshot_message rng be s) =
      map (\<lambda>k. Some (snapshot_entry ?D k)) (sorted_list_of_set (dom ?D))"
    using D(1) by (simp add: snapshot_message_def Let_def split: prod.splits)
  have "\<exists>seen. seen_mains (ps_Entries (snapshot_message rng be s)) = Inr seen \<and>
      set seen = {vmain v | k vs v. ?D k = Some vs \<and> v \<in> set vs}"
    unfolding ent seen_mains_snapshot using fin by (auto simp: dom_def) force
  then show ?thesis using that ent fin by auto
qed

text \<open>Each part of the message restores the part of the store it was taken from.\<close>

lemma restored_data:
  assumes "inv_store H s"
  shows "restore_data (ps_Entries (snapshot_message rng be s)) = bs_Data (st (s_backend s))"
proof -
  let ?b = "st (s_backend s)"
  note D = invD [OF assms]
  have "finite (dom (bs_Data ?b))" using state_ok [OF D(1)] by (simp add: state_ok_def)
  then have "restore_data (ps_Entries (snapshot_message rng be s)) = (\<lambda>k. if k \<in> dom (bs_Data ?b)
      then Some (sort_key vr_Rev (the (bs_Data ?b k))) else None)"
    using D(1) by (simp add: snapshot_message_def Let_def restore_data_snapshot split: prod.splits)
  also have "\<dots> = bs_Data ?b"
    using versions_sorted_by_rev [OF refines_sorted [OF D(2)]] by (auto simp: fun_eq_iff dom_def)
  finally show ?thesis .
qed

lemma restored_events:
  assumes "inv_store H s"
  shows "restore_events (ps_Events (snapshot_message rng be s)) = bs_Events (st (s_backend s))"
proof -
  let ?b = "st (s_backend s)"
  note D = invD [OF assms]
  note R = refines_basic [OF D(2)]
  have evs: "sorted_wrt (\<lambda>a b. emain a < emain b) (bs_Events ?b)"
    "\<forall>e \<in> set (bs_Events ?b). 0 \<le> ev_Type e \<and> ev_Type e < 256"
    using history_sorted [OF R(1)] R(1) unfolding R(5)
    by (auto simp: sorted_wrt_filter history_ok_def in_set_conv_nth)
  show ?thesis
    using D(1) restore_events_snapshot [OF evs(2)] snapshot_events_sorted [OF evs(1)]
    by (simp add: snapshot_message_def Let_def split: prod.splits)
qed

lemma restored_leases:
  assumes "inv_store H s" "unix_nano_ok (s_leaseMgr s)" "range_order rng"
  shows "restore_leases Map.empty (ps_Leases (snapshot_message rng be s)) = Inr (leases_of s)"
proof -
  note lok = invD(3) [OF assms(1)]
  note ok = lease_okD [OF lok]
  have "restore_leases Map.empty (ps_Leases (snapshot_message rng be s)) =
      Inr (\<lambda>i. if i \<in> set (rng (dom (leases_of s))) then leases_of s i else None)"
    unfolding snapshot_message_def LeaseManager_snapshot_def Let_def
    using restore_leases_snapshot [of "rng (dom (leases_of s))" "leases_of s" Map.empty] ok(3,4)
      finite_le_Keys [OF lok] assms(2) range_order_set [OF assms(3) ok(1)]
    by (force simp: Let_def unix_nano_ok_def)
  also have "(\<lambda>i. if i \<in> set (rng (dom (leases_of s))) then leases_of s i else None) = leases_of s"
    using range_order_set [OF assms(3) ok(1)] by (auto simp: fun_eq_iff dom_def)
  finally show ?thesis .
qed

lemma Restore_ok:
  assumes "inv_store H s" "H \<noteq> []" "complete_history (st (s_backend s))"
    "unix_nano_ok (s_leaseMgr s)" "range_order rng" "invar (s_backend t)"
  obtains t' where "restore_message be t (snapshot_message rng be s) = Inr t'"
    "st (s_backend t') = st (s_backend s)" "s_leaseMgr t' = s_leaseMgr s"
    "s_keyLease t' = s_keyLease s" "inv_store H t'"
proof -
  note D = invD [OF assms(1)]
  let ?b = "st (s_backend s)" and ?m = "snapshot_message rng be s"
  obtain seen where seen: "seen_mains (ps_Entries ?m) = Inr seen"
    "set seen = {vmain v | k vs v. bs_Data ?b k = Some vs \<and> v \<in> set vs}"
    "None \<notin> set (ps_Entries ?m)" "ps_Entries ?m = [] \<longleftrightarrow> dom (bs_Data ?b) = {}"
    by (rule snapshot_mains [OF assms(1)])
  have cur: "1 \<le> bs_CurrentRev ?b" using assms(2) refines_basic(2) [OF D(2)] by (cases H) auto
  have all: "i \<in> set seen" if "1 \<le> i" "i \<le> bs_CurrentRev ?b" for i
    using assms(3) that unfolding seen(2) complete_history_def by blast
  have ne: "ps_Entries ?m \<noteq> []" using all [OF cur order_refl] unfolding seen(2,4) by auto
  have max: "max_main seen = bs_CurrentRev ?b"
    by (rule max_main_eqI) (use all [OF cur order_refl] cur refines_bound [OF D(2)] in
      \<open>auto simp: seen(2)\<close>)
  note parts = restored_data [OF assms(1)] restored_events [OF assms(1)]
    restored_leases [OF assms(1,4,5)]
  define t' where "t' = t\<lparr>s_backend := be_ReplaceState be (s_backend t) ?b,
      s_keyLease := s_keyLease s, s_leaseMgr := s_leaseMgr s\<rparr>"
  have fields: "ps_CurrentRev ?m = bs_CurrentRev ?b" "ps_CompactRev ?m = bs_CompactRev ?b"
    "ps_KeyLease ?m = s_keyLease s" "ps_NextLeaseId ?m = lm_nextLeaseID (s_leaseMgr s)"
    using D(1) by (simp_all add: snapshot_message_def LeaseManager_snapshot_def Let_def)
  have eta: "\<lparr>bs_Data = bs_Data ?b, bs_Events = bs_Events ?b, bs_CurrentRev = bs_CurrentRev ?b,
      bs_CompactRev = bs_CompactRev ?b\<rparr> = ?b"
    "\<lparr>lm_leases = leases_of s, lm_nextLeaseID = lm_nextLeaseID (s_leaseMgr s)\<rparr> = s_leaseMgr s"
    by simp_all
  have eq: "restore_message be t ?m = Inr t'"
    using cur ne seen(1,3) max all
    by (simp add: restore_message_def parts fields list_all_iff t'_def eta)
  have "invar (s_backend t') \<and> st (s_backend t') = ?b"
    using ReplaceState [OF assms(6) state_ok [OF D(1)]] by (simp add: t'_def)
  moreover from this have "inv_store H t'"
    using D by (simp add: store_inv_def t'_def lease_ok_def)
  ultimately show ?thesis using eq by (intro that [of t']) (simp_all add: t'_def)
qed

text \<open>A revision whose version compaction has dropped makes the restore give up.\<close>

lemma Restore_gap:
  assumes "inv_store H s" and "\<not> complete_history (st (s_backend s))"
  shows "restore_message be t (snapshot_message rng be s) = Inr t"
proof -
  note D = invD [OF assms(1)]
  let ?b = "st (s_backend s)" and ?m = "snapshot_message rng be s"
  obtain seen where seen: "seen_mains (ps_Entries ?m) = Inr seen"
    "set seen = {vmain v | k vs v. bs_Data ?b k = Some vs \<and> v \<in> set vs}"
    "None \<notin> set (ps_Entries ?m)"
    by (rule snapshot_mains [OF assms(1)])
  obtain i where i: "1 \<le> i" "i \<le> bs_CurrentRev ?b"
    "\<not> (\<exists>k vs v. bs_Data ?b k = Some vs \<and> v \<in> set vs \<and> vmain v = i)"
    using assms(2) unfolding complete_history_def by blast
  then have "i \<notin> set seen" unfolding seen(2) by blast
  moreover have "ps_CurrentRev ?m = bs_CurrentRev ?b"
    using D(1) by (simp add: snapshot_message_def Let_def split: prod.splits)
  ultimately show ?thesis
    using i(1,2) seen(1,3) by (auto simp: restore_message_def Let_def list_all_iff)
qed

end

end
