(* ===== verification/ServerTypes.thy ===== *)
theory ServerTypes
  imports KVApi KVSnapshot Raft
begin

text \<open>
  The data of \<^verbatim>\<open>internal/server/kvserver\<close>: the server (\<^verbatim>\<open>type.go\<close>), the text of the errors
  it returns, the conversions between client, command and store types (\<^verbatim>\<open>tool.go\<close>), and the
  message of a server snapshot (\<^verbatim>\<open>convert_snapshot.go\<close>, \<^verbatim>\<open>snapshot.proto\<close>).

  A \<^verbatim>\<open>*waitEntry\<close> is shared between the table \<^verbatim>\<open>waitCh\<close> and the goroutine that waits on it,
  so entries live in a heap and the table holds references; \<open>we_Notify\<close> says that the channel
  is closed. \<open>sv_closeCh\<close> says the same of the server's channel.
\<close>

section \<open>The text of an error\<close>

text \<open>The verb \<^verbatim>\<open>%d\<close>.\<close>

fun digits :: "nat \<Rightarrow> gostring" where
  "digits n = (if n < 10 then [word_of_nat (48 + n)] else digits (n div 10) @ [word_of_nat (48 + n mod 10)])"

declare digits.simps [simp del]

definition fmt_d :: "int \<Rightarrow> gostring" where
  "fmt_d i = (if i < 0 then str ''-'' else []) @ digits (nat \<bar>i\<bar>)"

text \<open>The method \<^verbatim>\<open>Error\<close>; the text of \<^const>\<open>ErrCompacted\<close> is UTF-8.\<close>

definition Error_text :: "go_error \<Rightarrow> gostring" where
  "Error_text err =
     (case err of
        ErrCompacted \<Rightarrow> [229, 142, 139, 231, 188, 169, 229, 164, 177, 232, 180, 165, 239, 188, 140,
          229, 174, 131, 229, 183, 178, 232, 162, 171, 229, 142, 139, 231, 188, 169]
      | ErrNotLeader \<Rightarrow> str ''Is not Leader.''
      | ErrTimeout \<Rightarrow> str ''Is TimeOut.''
      | ErrClosed \<Rightarrow> str ''Server is closed.''
      | ErrRPC \<Rightarrow> str ''RPC Failed''
      | ContextCanceled \<Rightarrow> str ''context canceled''
      | DeadlineExceeded \<Rightarrow> str ''context deadline exceeded''
      | LeaseNotFound i \<Rightarrow> str ''Lease '' @ fmt_d i @ str '' not found''
      | LeaseAlreadyExpired i \<Rightarrow> str ''Lease '' @ fmt_d i @ str '' already expired''
      | UnknownCommandKind k \<Rightarrow> str ''Unknown command kind: '' @ fmt_d k
      | UnsupportedKVType t \<Rightarrow> str ''unsupported kv command type '' @ fmt_d t
      | NilCommand what \<Rightarrow> str ''nil '' @ what @ str '' command''
      | ErrorString t \<Rightarrow> t)"

section \<open>The server\<close>

record Result =
  res_Kind :: int
  res_ClientID :: int
  res_Seq :: int
  res_Err :: "go_error option"
  res_Rev :: "Revision option"
  res_Value :: bytes
  res_Found :: bool
  res_TxnSucceeded :: bool
  res_TxnResults :: "kv_KeyValue option list"
  res_LeaseID :: int
  res_LeaseTTL :: int
  res_RangeResults :: "kv_KeyValue option list"

text \<open>The zero value \<^verbatim>\<open>Result{}\<close>.\<close>

definition zero_Result :: Result where
  "zero_Result = \<lparr>res_Kind = 0, res_ClientID = 0, res_Seq = 0, res_Err = None, res_Rev = None,
     res_Value = [], res_Found = False, res_TxnSucceeded = False, res_TxnResults = [],
     res_LeaseID = 0, res_LeaseTTL = 0, res_RangeResults = []\<rparr>"

record waitEntry =
  we_Notify :: bool
  we_ClientID :: int
  we_Seq :: int
  we_Kind :: int
  we_Result :: Result

record ServerSnapshot =
  ss_KVSnapshot :: bytes
  ss_ClientLastSeq :: "int \<rightharpoonup> int"
  ss_ClientLastResult :: "int \<rightharpoonup> Result"

record watcher =
  wt_key :: gostring
  wt_prefix :: bool
  wt_ch :: "kv_Event list"

type_synonym wait_ref = nat

record ('b, 'p) Server =
  sv_id :: int
  sv_raft :: "'p Raft"
  sv_store :: "'b KVStore"
  sv_applyCh :: "ApplyMsg list"
  sv_closeCh :: bool
  sv_waitCh :: "int \<rightharpoonup> wait_ref"
  sv_entries :: "wait_ref \<rightharpoonup> waitEntry"
  sv_nextEntry :: wait_ref
  sv_LastResult :: "int \<rightharpoonup> Result"
  sv_clientLastSeq :: "int \<rightharpoonup> int"
  sv_clientLastResult :: "int \<rightharpoonup> Result"
  sv_maxraftstate :: int
  sv_watchers :: "gostring \<rightharpoonup> watcher list"

section \<open>Conversions\<close>

definition change :: "int \<Rightarrow> int" where
  "change n = n"

text \<open>One event of the goroutine in \<^verbatim>\<open>convert\<close>.\<close>

definition convert_event :: "Event \<Rightarrow> kv_Event" where
  "convert_event ev =
     (let t = (if ev_Type ev = EventDelete then 2 else if ev_Type ev = EventPut then 1 else 0)
      in \<lparr>kev_Type = t, kev_Key = ev_Key ev, kev_Value = ev_Value ev, kev_Rev = Main (ev_Rev ev)\<rparr>)"

definition match :: "waitEntry \<Rightarrow> Command \<Rightarrow> bool" where
  "match ch env \<longleftrightarrow>
     we_ClientID ch = Command_ClientID env \<and> we_Seq ch = Command_Seq env \<and> we_Kind ch = c_Kind env"

text \<open>The bodies of the loops of \<^verbatim>\<open>toTxnCommand\<close>; the enum types of commands are \<^verbatim>\<open>uint8\<close>.\<close>

definition to_compare :: "kv_Compare \<Rightarrow> TxnCompare" where
  "to_compare item = \<lparr>tc_Key = kcmp_Key item, tc_Op = u8 (kcmp_Op item), tc_Revision = kcmp_Revision item\<rparr>"

definition to_op :: "kv_Op \<Rightarrow> TxnOp" where
  "to_op item = \<lparr>to_Type = u8 (kop_Type item), to_Key = kop_Key item, to_Value = kop_Value item,
     to_LeaseID = kop_LeaseID item\<rparr>"

definition toTxnCommand :: "TxnRequest option \<Rightarrow> TxnCommand option" where
  "toTxnCommand req = map_option (\<lambda>r.
     \<lparr>tx_Compares = map (\<lambda>i. Some (to_compare i)) (non_nil (tq_Compares r)),
      tx_ThenOps = map (\<lambda>i. Some (to_op i)) (non_nil (tq_ThenOps r)),
      tx_ElseOps = map (\<lambda>i. Some (to_op i)) (non_nil (tq_ElseOps r)),
      tx_ClientID = tq_ClientID r, tx_Seq = tq_Seq r\<rparr>) req"

definition cloneKeyValues :: "kv_KeyValue option list \<Rightarrow> kv_KeyValue option list" where
  "cloneKeyValues items =
     (if length items = 0 then []
      else map (\<lambda>i. Some \<lparr>kkv_Key = kkv_Key i, kkv_Value = kkv_Value i, kkv_Revision = kkv_Revision i\<rparr>)
             (non_nil items))"

definition to_mvcc_compare :: "TxnCompare \<Rightarrow> Compare" where
  "to_mvcc_compare item = \<lparr>cmp_Key = tc_Key item, cmp_Op = tc_Op item, cmp_Rev = tc_Revision item\<rparr>"

definition to_mvcc_op :: "TxnOp \<Rightarrow> Operation" where
  "to_mvcc_op item = \<lparr>op_Type = to_Type item, op_Key = to_Key item, op_Value = to_Value item,
     op_LeaseID = to_LeaseID item\<rparr>"

definition toMVCCTxn :: "TxnCommand \<Rightarrow> Txn" where
  "toMVCCTxn cmd =
     \<lparr>txn_Compares = map to_mvcc_compare (non_nil (tx_Compares cmd)),
      txn_ThenOps = map to_mvcc_op (non_nil (tx_ThenOps cmd)),
      txn_ElseOps = map to_mvcc_op (non_nil (tx_ElseOps cmd))\<rparr>"

definition fromMVCCKeyValues :: "KeyValue list \<Rightarrow> kv_KeyValue option list" where
  "fromMVCCKeyValues items =
     (if length items = 0 then []
      else map (\<lambda>i. Some \<lparr>kkv_Key = kv_Key i, kkv_Value = kv_Value i, kkv_Revision = Main (kv_Rev i)\<rparr>) items)"

definition internalLeaseRevokeClientID :: "int \<Rightarrow> int" where
  "internalLeaseRevokeClientID leaseID = - leaseID - 1"

section \<open>Server snapshots\<close>

record snap_KeyValue =
  skv_Key :: gostring
  skv_Value :: bytes
  skv_Revision :: int

record snap_Result =
  sr_Kind :: int
  sr_ClientId :: int
  sr_Seq :: int
  sr_Err :: gostring
  sr_Rev :: "Revision option"
  sr_Value :: bytes
  sr_Found :: bool
  sr_TxnSucceeded :: bool
  sr_TxnResults :: "snap_KeyValue option list"
  sr_LeaseId :: int
  sr_LeaseTtl :: int
  sr_RangeResults :: "snap_KeyValue option list"

record snap_ServerSnapshot =
  sn_KvSnapshot :: bytes
  sn_ClientLastSeq :: "int \<rightharpoonup> int"
  sn_ClientLastResult :: "int \<rightharpoonup> snap_Result option"

definition cloneSeqMap :: "(int \<rightharpoonup> int) \<Rightarrow> (int \<rightharpoonup> int)" where
  "cloneSeqMap src = (\<lambda>k. src k)"

definition cloneRevision :: "Revision option \<Rightarrow> Revision option" where
  "cloneRevision rv = map_option (\<lambda>r. Revision (Main r) (Sub r)) rv"

definition cloneResult :: "Result \<Rightarrow> Result" where
  "cloneResult result =
     \<lparr>res_Kind = res_Kind result, res_ClientID = res_ClientID result, res_Seq = res_Seq result,
      res_Err = map_option (\<lambda>e. ErrorString (Error_text e)) (res_Err result),
      res_Rev = res_Rev result, res_Value = res_Value result, res_Found = res_Found result,
      res_TxnSucceeded = res_TxnSucceeded result, res_TxnResults = res_TxnResults result,
      res_LeaseID = res_LeaseID result, res_LeaseTTL = res_LeaseTTL result,
      res_RangeResults = cloneKeyValues (res_RangeResults result)\<rparr>"

definition cloneResultMap :: "(int \<rightharpoonup> Result) \<Rightarrow> (int \<rightharpoonup> Result)" where
  "cloneResultMap src = (\<lambda>c. map_option cloneResult (src c))"

definition toPBRevision :: "Revision option \<Rightarrow> Revision option" where
  "toPBRevision rv = map_option (\<lambda>r. Revision (Main r) (Sub r)) rv"

definition fromPBRevision :: "Revision option \<Rightarrow> Revision option" where
  "fromPBRevision rv = map_option (\<lambda>r. Revision (Main r) (Sub r)) rv"

definition snapshotToPBKeyValues :: "kv_KeyValue option list \<Rightarrow> snap_KeyValue option list" where
  "snapshotToPBKeyValues items =
     (if length items = 0 then []
      else map (\<lambda>i. Some \<lparr>skv_Key = kkv_Key i, skv_Value = kkv_Value i, skv_Revision = kkv_Revision i\<rparr>)
             (non_nil items))"

definition snapshotFromPBKeyValues :: "snap_KeyValue option list \<Rightarrow> kv_KeyValue option list" where
  "snapshotFromPBKeyValues items =
     (if length items = 0 then []
      else map (\<lambda>i. Some \<lparr>kkv_Key = skv_Key i, kkv_Value = skv_Value i, kkv_Revision = skv_Revision i\<rparr>)
             (non_nil items))"

definition toPBResult :: "Result \<Rightarrow> snap_Result" where
  "toPBResult result =
     \<lparr>sr_Kind = res_Kind result, sr_ClientId = res_ClientID result, sr_Seq = res_Seq result,
      sr_Err = (case res_Err result of None \<Rightarrow> [] | Some e \<Rightarrow> Error_text e),
      sr_Rev = (case res_Rev result of None \<Rightarrow> None | Some r \<Rightarrow> toPBRevision (Some r)),
      sr_Value = res_Value result, sr_Found = res_Found result,
      sr_TxnSucceeded = res_TxnSucceeded result,
      sr_TxnResults = snapshotToPBKeyValues (res_TxnResults result),
      sr_LeaseId = res_LeaseID result, sr_LeaseTtl = res_LeaseTTL result,
      sr_RangeResults = snapshotToPBKeyValues (res_RangeResults result)\<rparr>"

definition fromPBResult :: "snap_Result option \<Rightarrow> Result" where
  "fromPBResult m =
     (case m of
        None \<Rightarrow> zero_Result
      | Some r \<Rightarrow>
          \<lparr>res_Kind = u8 (sr_Kind r), res_ClientID = sr_ClientId r, res_Seq = sr_Seq r,
           res_Err = (if sr_Err r \<noteq> [] then Some (ErrorString (sr_Err r)) else None),
           res_Rev = fromPBRevision (sr_Rev r), res_Value = sr_Value r, res_Found = sr_Found r,
           res_TxnSucceeded = sr_TxnSucceeded r,
           res_TxnResults = snapshotFromPBKeyValues (sr_TxnResults r),
           res_LeaseID = sr_LeaseId r, res_LeaseTTL = sr_LeaseTtl r,
           res_RangeResults = snapshotFromPBKeyValues (sr_RangeResults r)\<rparr>)"

definition toPBServerSnapshot :: "ServerSnapshot \<Rightarrow> snap_ServerSnapshot" where
  "toPBServerSnapshot snap =
     \<lparr>sn_KvSnapshot = ss_KVSnapshot snap, sn_ClientLastSeq = (\<lambda>c. ss_ClientLastSeq snap c),
      sn_ClientLastResult = (\<lambda>c. map_option (\<lambda>r. Some (toPBResult r)) (ss_ClientLastResult snap c))\<rparr>"

definition fromPBServerSnapshot :: "snap_ServerSnapshot option \<Rightarrow> ServerSnapshot" where
  "fromPBServerSnapshot m =
     (case m of
        None \<Rightarrow> \<lparr>ss_KVSnapshot = [], ss_ClientLastSeq = Map.empty, ss_ClientLastResult = Map.empty\<rparr>
      | Some s \<Rightarrow>
          \<lparr>ss_KVSnapshot = sn_KvSnapshot s, ss_ClientLastSeq = (\<lambda>c. sn_ClientLastSeq s c),
           ss_ClientLastResult = (\<lambda>c. map_option fromPBResult (sn_ClientLastResult s c))\<rparr>)"

section \<open>Round trips\<close>

text \<open>
  What a result keeps when it goes through a snapshot: everything but the identity of its
  error, of which only the text survives.
\<close>

definition result_ok :: "Result \<Rightarrow> bool" where
  "result_ok r \<longleftrightarrow>
     is_u8 (res_Kind r) \<and> None \<notin> set (res_TxnResults r) \<and> None \<notin> set (res_RangeResults r) \<and>
     (\<forall>e. res_Err r = Some e \<longrightarrow> Error_text e \<noteq> [])"

definition text_error :: "Result \<Rightarrow> Result" where
  "text_error r = r\<lparr>res_Err := map_option (\<lambda>e. ErrorString (Error_text e)) (res_Err r)\<rparr>"

lemma cloneKeyValues_eq: "cloneKeyValues items = map Some (non_nil items)"
  by (cases items) (simp_all add: cloneKeyValues_def)

lemma fromMVCCKeyValues_no_nil: "None \<notin> set (fromMVCCKeyValues items)"
  by (auto simp: fromMVCCKeyValues_def)

lemma snapshot_KeyValues_ends:
  "snapshotFromPBKeyValues (snapshotToPBKeyValues items) = map Some (non_nil items)"
  by (cases "non_nil items") (auto simp: snapshotFromPBKeyValues_def snapshotToPBKeyValues_def)

lemma revision_ends [simp]: "toPBRevision rv = rv" "fromPBRevision rv = rv" "cloneRevision rv = rv"
  by (cases rv; simp add: toPBRevision_def fromPBRevision_def cloneRevision_def)+

lemma Error_text_ErrorString [simp]: "Error_text (ErrorString t) = t"
  by (simp add: Error_text_def)

lemma cloneResult_ok: "result_ok r \<Longrightarrow> cloneResult r = text_error r"
  by (simp add: cloneResult_def text_error_def result_ok_def cloneKeyValues_eq map_Some_non_nil)

lemma text_error_ok: "result_ok r \<Longrightarrow> result_ok (text_error r)"
  by (auto simp: result_ok_def text_error_def)

lemma text_error_idem [simp]: "text_error (text_error r) = text_error r"
  by (simp add: text_error_def option.map_comp o_def)

lemma result_ends:
  assumes "result_ok r"
  shows "fromPBResult (Some (toPBResult r)) = text_error r"
  using assms
  by (cases "res_Rev r"; cases "res_Err r")
    (simp_all add: fromPBResult_def toPBResult_def text_error_def result_ok_def
      snapshot_KeyValues_ends map_Some_non_nil)

lemma server_snapshot_ends:
  assumes "\<forall>c r. ss_ClientLastResult snap c = Some r \<longrightarrow> result_ok r"
  shows "fromPBServerSnapshot (Some (toPBServerSnapshot snap)) =
    snap\<lparr>ss_ClientLastResult := (\<lambda>c. map_option text_error (ss_ClientLastResult snap c))\<rparr>"
proof -
  have "map_option fromPBResult (map_option (\<lambda>r. Some (toPBResult r)) (ss_ClientLastResult snap c)) =
      map_option text_error (ss_ClientLastResult snap c)" for c
    using assms by (cases "ss_ClientLastResult snap c") (simp_all add: result_ends)
  then show ?thesis by (simp add: fromPBServerSnapshot_def toPBServerSnapshot_def fun_eq_iff)
qed

end
