(* ===== verification/KVRange.thy ===== *)
theory KVRange
  imports KVStore
begin

text \<open>
  \<^verbatim>\<open>internal/storage/mvcc/range.go\<close>: interval and prefix reads at a revision, against
  the live part of the replayed history, and \<^verbatim>\<open>prefixEnd\<close> as the least string above
  every string with the prefix.
\<close>

section \<open>Operations\<close>

text \<open>The body of the loop over the backend's keys.\<close>

fun range_loop ::
  "'b Backend \<Rightarrow> 'b KVStore \<Rightarrow> gostring \<Rightarrow> gostring \<Rightarrow> int \<Rightarrow> KeyValue list \<Rightarrow> gostring list \<Rightarrow>
     KeyValue list" where
  "range_loop be s startKey endKey rv result [] = result"
| "range_loop be s startKey endKey rv result (key # keys) =
     (if key \<ge> startKey \<and> key < endKey then
        (case be_GetRevisions be (s_backend s) key of
           None \<Rightarrow> range_loop be s startKey endKey rv result keys
         | Some v \<Rightarrow>
             (case latestVisibleRevision v rv of
                None \<Rightarrow> range_loop be s startKey endKey rv result keys
              | Some visible \<Rightarrow>
                  range_loop be s startKey endKey rv
                    (result @ [\<lparr>kv_Key = key, kv_Value = vr_Value visible, kv_Rev = vr_Rev visible\<rparr>])
                    keys))
      else range_loop be s startKey endKey rv result keys)"

definition KVStore_Range ::
  "'b Backend \<Rightarrow> 'b KVStore \<Rightarrow> gostring \<Rightarrow> gostring \<Rightarrow> int \<Rightarrow> KeyValue list" where
  "KVStore_Range be s startKey endKey rv0 =
     (let rv = (if rv0 = 0 then be_CurrentRev be (s_backend s) else rv0)
      in if rv \<le> be_CompactRev be (s_backend s) then []
         else range_loop be s startKey endKey rv []
                (be_RangeKeys be (s_backend s) startKey endKey))"

text \<open>\<^verbatim>\<open>for i := len(b) - 1; i >= 0; i--\<close>; the argument is \<open>i + 1\<close>.\<close>

fun prefix_end_loop :: "bytes \<Rightarrow> nat \<Rightarrow> gostring" where
  "prefix_end_loop b 0 = []"
| "prefix_end_loop b (Suc i) =
     (if b ! i < 0xff then take (i + 1) (b[i := b ! i + 1]) else prefix_end_loop b i)"

definition prefixEnd :: "gostring \<Rightarrow> gostring" where
  "prefixEnd p = prefix_end_loop p (length p)"

definition KVStore_PrefixRange ::
  "'b Backend \<Rightarrow> 'b KVStore \<Rightarrow> gostring \<Rightarrow> int \<Rightarrow> KeyValue list" where
  "KVStore_PrefixRange be s p rv = KVStore_Range be s p (prefixEnd p) rv"

section \<open>The end of a prefix interval\<close>

lemma byte_max: "(b :: byte) \<le> 0xff"
  using unsigned_less [of b, where ?'a = nat] by (simp add: word_le_nat_alt)

lemma prefix_end_loop_split:
  assumes "n \<le> length p" and "\<forall>j. n \<le> j \<longrightarrow> j < length p \<longrightarrow> p ! j = 0xff"
  shows "(prefix_end_loop p n = [] \<and> (\<forall>b \<in> set p. b = 0xff)) \<or>
    (\<exists>q c m. p = q @ c # replicate m 0xff \<and> c < 0xff \<and> prefix_end_loop p n = q @ [c + 1])"
  using assms
proof (induction n)
  case 0
  then show ?case by (auto simp: in_set_conv_nth)
next
  case (Suc i)
  show ?case
  proof (cases "p ! i < 0xff")
    case True
    have i: "i < length p" using Suc.prems by simp
    have tail: "drop (Suc i) p = replicate (length p - Suc i) 0xff"
      using Suc.prems(2) i by (intro nth_equalityI) auto
    have "p = take i p @ p ! i # replicate (length p - Suc i) 0xff"
      using id_take_nth_drop [OF i] tail by simp
    moreover have "take (i + 1) (p[i := p ! i + 1]) = take i p @ [p ! i + 1]"
      using i by (simp add: take_Suc_conv_app_nth take_update_swap [symmetric] list_update_beyond)
    ultimately show ?thesis using True by (intro disjI2) (metis prefix_end_loop.simps(2))
  next
    case False
    then have "p ! i = 0xff" using byte_max [of "p ! i"] by (metis order.not_eq_order_implies_strict)
    then have "\<forall>j. i \<le> j \<longrightarrow> j < length p \<longrightarrow> p ! j = 0xff"
      using Suc.prems(2) by (metis le_antisym not_less_eq_eq)
    with Suc False show ?thesis by simp
  qed
qed

lemma prefixEnd_cases:
  "(prefixEnd p = [] \<and> (\<forall>b \<in> set p. b = 0xff)) \<or>
    (\<exists>q c m. p = q @ c # replicate m 0xff \<and> c < 0xff \<and> prefixEnd p = q @ [c + 1])"
  unfolding prefixEnd_def by (rule prefix_end_loop_split) auto

lemma replicate_ff_le:
  "replicate m (0xff :: byte) \<le> k \<longleftrightarrow> take m k = replicate m 0xff"
proof (induction m arbitrary: k)
  case (Suc m)
  have top: "(0xff :: byte) < a \<longleftrightarrow> False" for a
    using byte_max [of a] by (simp add: not_less)
  show ?case by (cases k) (auto simp: Suc top)
qed simp

lemma byte_le_succ: "(c :: byte) < 0xff \<Longrightarrow> d < c + 1 \<longleftrightarrow> d \<le> c"
proof -
  assume c: "c < 0xff"
  then have "unat c + 1 < 256" by (simp add: word_less_nat_alt)
  then have "unat (c + 1) = unat c + 1" by (simp add: unat_word_ariths)
  then show ?thesis by (simp add: word_less_nat_alt word_le_nat_alt less_Suc_eq_le)
qed

lemma append_interval:
  fixes q :: "'a::linorder list"
  assumes "q @ x \<le> k" and "k < q @ y"
  shows "\<exists>z. k = q @ z \<and> x \<le> z \<and> z < y"
  using assms
proof (induction q arbitrary: k)
  case (Cons a q)
  then obtain b k' where k: "k = b # k'" by (cases k) auto
  with Cons.prems have "b = a" by (auto simp: less_le_not_le)
  with k Cons show ?case by auto
qed simp

lemma append_le: "(q @ x :: 'a::linorder list) \<le> q @ z \<longleftrightarrow> x \<le> z"
  by (induction q) auto

lemma append_less: "(q @ x :: 'a::linorder list) < q @ z \<longleftrightarrow> x < z"
  by (induction q) auto

lemma prefix_interval:
  assumes "prefixEnd p \<noteq> []"
  shows "p \<le> k \<and> k < prefixEnd p \<longleftrightarrow> take (length p) k = p"
proof -
  obtain q c m where p: "p = q @ c # replicate m 0xff" and c: "c < 0xff"
    and e: "prefixEnd p = q @ [c + 1]"
    using prefixEnd_cases [of p] assms by blast
  have tail: "c # replicate m 0xff \<le> z \<and> z < [c + 1] \<longleftrightarrow>
      take (Suc m) z = c # replicate m 0xff" for z
  proof (cases z)
    case (Cons d z')
    have "c # replicate m 0xff \<le> z \<and> z < [c + 1] \<longleftrightarrow>
        (c < d \<or> c = d \<and> take m z' = replicate m 0xff) \<and> d \<le> c"
      unfolding Cons by (simp add: replicate_ff_le byte_le_succ [OF c])
    also have "\<dots> \<longleftrightarrow> take (Suc m) z = c # replicate m 0xff"
      unfolding Cons by (metis list.inject not_le order_refl take_Suc_Cons)
    finally show ?thesis .
  qed simp
  show ?thesis
  proof
    assume "p \<le> k \<and> k < prefixEnd p"
    then obtain z where "k = q @ z" "c # replicate m 0xff \<le> z \<and> z < [c + 1]"
      using append_interval [of q "c # replicate m 0xff" k "[c + 1]"] unfolding e p [symmetric]
      by blast
    then show "take (length p) k = p" unfolding tail by (simp add: p)
  next
    assume t: "take (length p) k = p"
    then have "k = q @ c # replicate m 0xff @ drop (length p) k"
      by (metis append.assoc append_Cons append_take_drop_id p)
    then obtain z where k: "k = q @ z" by blast
    with t have "take (Suc m) z = c # replicate m 0xff" by (simp add: p)
    then have "c # replicate m 0xff \<le> z \<and> z < [c + 1]" by (simp only: tail)
    moreover have "p \<le> k \<longleftrightarrow> c # replicate m 0xff \<le> z" by (simp only: p k append_le)
    moreover have "k < prefixEnd p \<longleftrightarrow> z < [c + 1]" by (simp only: e k append_less)
    ultimately show "p \<le> k \<and> k < prefixEnd p" by blast
  qed
qed

section \<open>Range reads\<close>

text \<open>The revision of the change a read at \<open>r\<close> sees for a key.\<close>

definition rev_at :: "Event list \<Rightarrow> int \<Rightarrow> gostring \<Rightarrow> Revision" where
  "rev_at H r k = ev_Rev (last (filter (\<lambda>e. ev_Key e = k \<and> emain e \<le> r) H))"

definition range_spec :: "Event list \<Rightarrow> gostring \<Rightarrow> gostring \<Rightarrow> int \<Rightarrow> KeyValue list" where
  "range_spec H a b r =
     map (\<lambda>k. \<lparr>kv_Key = k, kv_Value = the (state_at H r k), kv_Rev = rev_at H r k\<rparr>)
       (sorted_list_of_set {k. a \<le> k \<and> k < b \<and> state_at H r k \<noteq> None})"

lemma visible_at_rev:
  assumes "visible_at (versions_of H k) r = Some v"
  shows "vr_Rev v = rev_at H r k"
proof -
  let ?es = "filter (\<lambda>e. ev_Key e = k \<and> emain e \<le> r) H"
  have u: "upto_rev (versions_of H k) r = map version_of ?es"
    by (simp add: versions_of_def filter_map o_def conj_commute)
  with assms have "?es \<noteq> []" "v = last (map version_of ?es)"
    by (auto simp: visible_at_def split: if_splits)
  then show ?thesis by (simp add: last_map rev_at_def version_of_def)
qed

lemma rev_at_stable:
  assumes "history_ok (H @ H')" and "r \<le> int (length H)"
  shows "rev_at (H @ H') r k = rev_at H r k"
proof -
  have "filter (\<lambda>e. ev_Key e = k \<and> emain e \<le> r) H' = []"
    using assms
  proof (induction H' rule: rev_induct)
    case (snoc e H')
    then have "history_ok (H @ H')" "r < emain e"
      by (simp_all add: history_ok_snoc append_assoc [symmetric] del: append_assoc)
    with snoc show ?case by simp
  qed simp
  then show ?thesis by (simp add: rev_at_def)
qed

lemma range_loop_map_filter:
  "range_loop be s a b rv acc keys = acc @
     map (\<lambda>k. let v = the (latestVisibleRevision (the (be_GetRevisions be (s_backend s) k)) rv)
              in \<lparr>kv_Key = k, kv_Value = vr_Value v, kv_Rev = vr_Rev v\<rparr>)
       (filter (\<lambda>k. a \<le> k \<and> k < b \<and>
          (\<exists>vs v. be_GetRevisions be (s_backend s) k = Some vs \<and> latestVisibleRevision vs rv = Some v))
         keys)"
  by (induction be s a b rv acc keys rule: range_loop.induct)
    (auto split: option.splits simp: Let_def)

lemma filter_sorted_list_of_set:
  "finite K \<Longrightarrow> filter P (sorted_list_of_set K) = sorted_list_of_set {k \<in> K. P k}"
  by (rule sorted_list_of_set_eqI) (auto simp: sorted_wrt_filter)

context mvcc_backend
begin

lemma visible_state:
  assumes "inv_store H s" and "bs_CompactRev (st (s_backend s)) \<le> r"
  shows "(\<exists>vs v. bs_Data (st (s_backend s)) k = Some vs \<and> latestVisibleRevision vs r = Some v) \<longleftrightarrow>
      state_at H r k \<noteq> None"
    and "bs_Data (st (s_backend s)) k = Some vs \<Longrightarrow> latestVisibleRevision vs r = Some v \<Longrightarrow>
      state_at H r k = Some (vr_Value v) \<and> rev_at H r k = vr_Rev v"
proof -
  note D = invD [OF assms(1)]
  note vis = refines_visible [OF D(2) assms(2), of k]
  note eq = latestVisibleRevision_eq [OF refines_sorted [OF D(2), of k]]
  show "(\<exists>vs v. bs_Data (st (s_backend s)) k = Some vs \<and> latestVisibleRevision vs r = Some v) \<longleftrightarrow>
      state_at H r k \<noteq> None"
    using vis by (cases "bs_Data (st (s_backend s)) k") (auto simp: eq)
  assume vs: "bs_Data (st (s_backend s)) k = Some vs" "latestVisibleRevision vs r = Some v"
  have "visible_at vs r = visible_at (versions_of H k) r"
    by (rule retained_visible [OF versions_of_sorted [OF refines_basic(1) [OF D(2)]]
          refines_retained [OF D(2) vs(1)] assms(2)])
  with vs vis eq [OF vs(1)] visible_at_rev [of H k r v]
  show "state_at H r k = Some (vr_Value v) \<and> rev_at H r k = vr_Rev v" by simp
qed

lemma Range_eq:
  assumes "inv_store H s" and "r = (if rv = 0 then int (length H) else rv)"
    and "bs_CompactRev (st (s_backend s)) < r"
  shows "KVStore_Range be s a b rv = range_spec H a b r"
proof -
  note D = invD [OF assms(1)]
  let ?D = "bs_Data (st (s_backend s))"
  let ?K = "{k \<in> dom ?D. a \<le> k \<and> (b = [] \<or> k < b)}"
  let ?P = "\<lambda>k. a \<le> k \<and> k < b \<and>
      (\<exists>vs v. ?D k = Some vs \<and> latestVisibleRevision vs r = Some v)"
  note vs = visible_state [OF assms(1) less_imp_le [OF assms(3)]]
  have fin: "finite ?K" using state_ok [OF D(1)] by (simp add: state_ok_def)
  have keys: "filter ?P (sorted_list_of_set ?K) =
      sorted_list_of_set {k. a \<le> k \<and> k < b \<and> state_at H r k \<noteq> None}"
    unfolding filter_sorted_list_of_set [OF fin] vs(1) [symmetric]
    by (rule arg_cong [of _ _ sorted_list_of_set]) auto
  have "{k. a \<le> k \<and> k < b \<and> state_at H r k \<noteq> None} \<subseteq> ?K" unfolding vs(1) [symmetric] by auto
  then have finL: "finite {k. a \<le> k \<and> k < b \<and> state_at H r k \<noteq> None}"
    using fin by (rule finite_subset)
  have "KVStore_Range be s a b rv = range_loop be s a b r [] (sorted_list_of_set ?K)"
    using D assms(2,3) by (cases "rv = 0") (simp_all add: KVStore_Range_def Let_def)
  also have "\<dots> = range_spec H a b r"
  proof -
    have elem: "(let v = the (latestVisibleRevision (the (?D k)) r)
        in \<lparr>kv_Key = k, kv_Value = vr_Value v, kv_Rev = vr_Rev v\<rparr>) =
        \<lparr>kv_Key = k, kv_Value = the (state_at H r k), kv_Rev = rev_at H r k\<rparr>"
      if some: "state_at H r k \<noteq> None" for k
    proof -
      obtain vs' v where v: "?D k = Some vs'" "latestVisibleRevision vs' r = Some v"
        using some unfolding vs(1) [symmetric] by blast
      with vs(2) [OF v] show ?thesis by simp
    qed
    show ?thesis
      unfolding range_loop_map_filter range_spec_def GetRevisions [OF D(1)] keys append_Nil
      using finL by (intro map_cong refl elem) simp
  qed
  finally show ?thesis .
qed

lemma Range_compacted:
  "inv_store H s \<Longrightarrow> (if rv = 0 then int (length H) else rv) \<le> bs_CompactRev (st (s_backend s)) \<Longrightarrow>
     KVStore_Range be s a b rv = []"
  using invD [of H s] by (auto simp: KVStore_Range_def split: if_splits)

end

end
