(* ===== verification/KVTxn.thy ===== *)
theory KVTxn
  imports KVStore
begin

text \<open>
  \<^verbatim>\<open>internal/storage/mvcc/txn.go\<close>: compare, check the leases, then run one of the two
  branches under the lock. Indexing an empty version list and writing through a missing
  lease panic in Go and are values of the model; the lemmas show that neither happens and
  that the transaction is the sequential effect of its branch on the history, or nothing.

  Each lease check reads the clock; the \<open>i\<close>-th reading is \<open>clock i\<close>.
\<close>

section \<open>Operations\<close>

text \<open>The switch on \<^verbatim>\<open>t.Op\<close>; an unknown operator leaves the result alone.\<close>

definition compare_ok :: "Compare \<Rightarrow> int \<Rightarrow> bool" where
  "compare_ok t currentRev =
     (if cmp_Op t = CompareEqual then \<not> (currentRev \<noteq> cmp_Rev t)
      else if cmp_Op t = CompareGreater then \<not> (currentRev \<le> cmp_Rev t)
      else if cmp_Op t = CompareLess then \<not> (currentRev \<ge> cmp_Rev t)
      else True)"

definition latest_version :: "ValueRevision list \<Rightarrow> ValueRevision outcome" where
  "latest_version versions = (if versions = [] then Inl IndexOutOfRange else Inr (last versions))"

fun txn_compares :: "'b Backend \<Rightarrow> 'b KVStore \<Rightarrow> Compare list \<Rightarrow> bool outcome" where
  "txn_compares be s [] = Inr True"
| "txn_compares be s (t # ts) =
     (case be_GetRevisions be (s_backend s) (cmp_Key t) of
        None \<Rightarrow> if compare_ok t 0 then txn_compares be s ts else Inr False
      | Some versions \<Rightarrow>
          (case latest_version versions of
             Inl p \<Rightarrow> Inl p
           | Inr v \<Rightarrow> if compare_ok t (vmain v) then txn_compares be s ts else Inr False))"

fun txn_check_leases :: "'b KVStore \<Rightarrow> (nat \<Rightarrow> int) \<Rightarrow> nat \<Rightarrow> Operation list \<Rightarrow> go_error option" where
  "txn_check_leases s clock i [] = None"
| "txn_check_leases s clock i (opr # ops) =
     (if op_Type opr \<noteq> OpPut \<or> op_LeaseID opr = 0 then txn_check_leases s clock i ops
      else
        (case lookupLeaseLocked s (clock i) (op_LeaseID opr) of
           Inl err \<Rightarrow> Some err
         | Inr _ \<Rightarrow> txn_check_leases s clock (Suc i) ops))"

fun txn_ops ::
  "'b Backend \<Rightarrow> 'b KVStore \<Rightarrow> KeyValue list \<Rightarrow> Event list \<Rightarrow> Operation list \<Rightarrow>
     ('b KVStore \<times> KeyValue list \<times> Event list) outcome" where
  "txn_ops be s result events [] = Inr (s, result, events)"
| "txn_ops be s result events (opr # ops) =
     (if op_Type opr = OpGet then
        (case be_GetRevisions be (s_backend s) (op_Key opr) of
           None \<Rightarrow> txn_ops be s result events ops
         | Some versions \<Rightarrow>
             (case latest_version versions of
                Inl p \<Rightarrow> Inl p
              | Inr latest \<Rightarrow>
                  txn_ops be s
                    (result @ [\<lparr>kv_Key = (if vr_Deleted latest then [] else op_Key opr),
                                kv_Value = vr_Value latest, kv_Rev = vr_Rev latest\<rparr>])
                    events ops))
      else if op_Type opr = OpPut then
        (case putLocked be s (op_Key opr) (op_Value opr) of
           (s1, _, ev) \<Rightarrow>
             if op_LeaseID opr \<noteq> 0 then
               (case leases_of s1 (op_LeaseID opr) of
                  None \<Rightarrow> Inl NilPointer
                | Some lease \<Rightarrow>
                    txn_ops be (bindKeyToLeaseLocked s1 (op_Key opr) (op_LeaseID opr) lease)
                      result (events @ [ev]) ops)
             else txn_ops be (detachKeyLocked s1 (op_Key opr)) result (events @ [ev]) ops)
      else if op_Type opr = OpDelete then
        (case deleteLocked be s (op_Key opr) of
           (s1, _, ev) \<Rightarrow> txn_ops be s1 result (events @ [ev]) ops)
      else txn_ops be s result events ops)"

definition KVStore_Txn ::
  "'b Backend \<Rightarrow> 'b KVStore \<Rightarrow> (nat \<Rightarrow> int) \<Rightarrow> Txn \<Rightarrow>
     ('b KVStore \<times> (go_error + bool \<times> KeyValue list)) outcome" where
  "KVStore_Txn be s clock txn =
     (case txn_compares be s (txn_Compares txn) of
        Inl p \<Rightarrow> Inl p
      | Inr compareResult \<Rightarrow>
          (let ops = (if compareResult then txn_ThenOps txn else txn_ElseOps txn)
           in case txn_check_leases s clock 0 ops of
                Some err \<Rightarrow> Inr (s, Inl err)
              | None \<Rightarrow>
                  (case txn_ops be s [] [] ops of
                     Inl p \<Rightarrow> Inl p
                   | Inr (s1, result, events) \<Rightarrow>
                       Inr (send_events s1 events, Inr (compareResult, result)))))"

section \<open>Transactions on histories\<close>

definition key_events :: "Event list \<Rightarrow> gostring \<Rightarrow> Event list" where
  "key_events H k = filter (\<lambda>e. ev_Key e = k) H"

definition latest_rev :: "Event list \<Rightarrow> gostring \<Rightarrow> int" where
  "latest_rev H k = (if key_events H k = [] then 0 else emain (last (key_events H k)))"

definition read_latest :: "Event list \<Rightarrow> gostring \<Rightarrow> KeyValue list" where
  "read_latest H k =
     (if key_events H k = [] then []
      else let e = last (key_events H k)
           in [\<lparr>kv_Key = (if ev_Type e = EventPut then k else []), kv_Value = ev_Value e,
                kv_Rev = ev_Rev e\<rparr>])"

definition op_events :: "Event list \<Rightarrow> Operation \<Rightarrow> Event list" where
  "op_events H opr =
     (if op_Type opr = OpPut then [put_event H (op_Key opr) (op_Value opr)]
      else if op_Type opr = OpDelete then [delete_event H (op_Key opr)] else [])"

fun ops_events :: "Event list \<Rightarrow> Operation list \<Rightarrow> Event list" where
  "ops_events H [] = []"
| "ops_events H (opr # ops) = op_events H opr @ ops_events (H @ op_events H opr) ops"

fun ops_reads :: "Event list \<Rightarrow> Operation list \<Rightarrow> KeyValue list" where
  "ops_reads H [] = []"
| "ops_reads H (opr # ops) =
     (if op_Type opr = OpGet then read_latest H (op_Key opr) else []) @
     ops_reads (H @ op_events H opr) ops"

definition bind_op :: "Operation \<Rightarrow> (gostring \<rightharpoonup> int) \<Rightarrow> (gostring \<rightharpoonup> int)" where
  "bind_op opr kl =
     (if op_Type opr = OpPut then
        kl(op_Key opr := if op_LeaseID opr = 0 then None else Some (op_LeaseID opr))
      else if op_Type opr = OpDelete then kl(op_Key opr := None) else kl)"

definition compares_hold :: "Event list \<Rightarrow> Compare list \<Rightarrow> bool" where
  "compares_hold H ts \<longleftrightarrow> (\<forall>t \<in> set ts. compare_ok t (latest_rev H (cmp_Key t)))"

definition branch :: "Event list \<Rightarrow> Txn \<Rightarrow> Operation list" where
  "branch H txn = (if compares_hold H (txn_Compares txn) then txn_ThenOps txn else txn_ElseOps txn)"

lemma versions_key_events: "versions_of H k = map version_of (key_events H k)"
  by (simp add: versions_of_def key_events_def)

lemma check_leases_present:
  "txn_check_leases s clock i ops = None \<Longrightarrow>
    \<forall>opr \<in> set ops. op_Type opr = OpPut \<longrightarrow> op_LeaseID opr \<noteq> 0 \<longrightarrow>
      leases_of s (op_LeaseID opr) \<noteq> None"
  by (induction s clock i ops rule: txn_check_leases.induct)
    (auto simp: lookupLeaseLocked_Inr split: sum.splits if_splits)

context mvcc_backend
begin

text \<open>The latest stored version of a key is the latest change of its history.\<close>

lemma latest_stored:
  assumes "inv_store H s"
  shows "bs_Data (st (s_backend s)) k = None \<Longrightarrow> key_events H k = []"
    and "bs_Data (st (s_backend s)) k = Some vs \<Longrightarrow>
      vs \<noteq> [] \<and> key_events H k \<noteq> [] \<and> last vs = version_of (last (key_events H k))"
proof -
  note R = invD(2) [OF assms]
  show "bs_Data (st (s_backend s)) k = None \<Longrightarrow> key_events H k = []"
    using refines_absent [OF R, of k] by (simp add: versions_key_events)
  assume vs: "bs_Data (st (s_backend s)) k = Some vs"
  have ne: "vs \<noteq> []" by (rule refines_nonempty [OF R vs])
  have ret: "retained (bs_CompactRev (st (s_backend s))) (versions_of H k) vs"
    by (rule refines_retained [OF R vs])
  then have "versions_of H k \<noteq> []" using ne retained_subset [OF ret] by auto
  then show "vs \<noteq> [] \<and> key_events H k \<noteq> [] \<and> last vs = version_of (last (key_events H k))"
    using ne retained_last [OF ne ret] by (simp add: versions_key_events last_map)
qed

lemma compares_eq:
  assumes "inv_store H s"
  shows "txn_compares be s ts = Inr (compares_hold H ts)"
proof (induction ts)
  case (Cons t ts)
  show ?case
    using Cons invD(1) [OF assms] latest_stored [OF assms, of "cmp_Key t"]
    by (cases "bs_Data (st (s_backend s)) (cmp_Key t)")
      (auto simp: compares_hold_def latest_rev_def latest_version_def)
qed (simp add: compares_hold_def)

lemma put_op_step:
  assumes "inv_store H s" and "lid \<noteq> 0 \<Longrightarrow> leases_of s lid \<noteq> None"
  obtains s1 where "putLocked be s k v = (s1, Revision (int (length H) + 1) 0, put_event H k v)"
    "lid \<noteq> 0 \<Longrightarrow> \<exists>l. leases_of s1 lid = Some l \<and>
       inv_store (H @ [put_event H k v]) (bindKeyToLeaseLocked s1 k lid l) \<and>
       s_keyLease (bindKeyToLeaseLocked s1 k lid l) = (s_keyLease s)(k \<mapsto> lid) \<and>
       dom (leases_of (bindKeyToLeaseLocked s1 k lid l)) = dom (leases_of s)"
    "inv_store (H @ [put_event H k v]) (detachKeyLocked s1 k)"
    "s_keyLease (detachKeyLocked s1 k) = (s_keyLease s)(k := None)"
    "dom (leases_of (detachKeyLocked s1 k)) = dom (leases_of s)"
    "s_closed s1 = s_closed s" "s_eventCh s1 = s_eventCh s"
proof -
  obtain s1 where s1: "putLocked be s k v = (s1, Revision (int (length H) + 1) 0, put_event H k v)"
    "inv_store (H @ [put_event H k v]) s1" "s1 = s\<lparr>s_backend := s_backend s1\<rparr>"
    by (rule putLocked_step [OF assms(1)])
  have f: "s_leaseMgr s1 = s_leaseMgr s" "s_keyLease s1 = s_keyLease s" "s_closed s1 = s_closed s"
    "s_eventCh s1 = s_eventCh s" by (subst s1(3), simp)+
  have ok: "lease_ok s1" using invD(3) [OF s1(2)] .
  have det: "inv_store (H @ [put_event H k v]) (detachKeyLocked s1 k)"
    by (rule store_inv_lease_ops [OF _ lease_ok_detach [OF ok] s1(2)]) simp
  have bind: "\<exists>l. leases_of s1 lid = Some l \<and>
       inv_store (H @ [put_event H k v]) (bindKeyToLeaseLocked s1 k lid l) \<and>
       s_keyLease (bindKeyToLeaseLocked s1 k lid l) = (s_keyLease s)(k \<mapsto> lid) \<and>
       dom (leases_of (bindKeyToLeaseLocked s1 k lid l)) = dom (leases_of s)" if lid: "lid \<noteq> 0"
  proof -
    obtain l where l: "leases_of s1 lid = Some l" using assms(2) [OF lid] f(1) by auto
    have "inv_store (H @ [put_event H k v]) (bindKeyToLeaseLocked s1 k lid l)"
      by (rule store_inv_lease_ops [OF _ lease_ok_bind [OF ok l] s1(2)]) simp
    with l f show ?thesis by (auto simp: lease_ok_bind_eq [OF ok l] dom_def)
  qed
  show ?thesis
    by (rule that [OF s1(1)]) (use det bind f in \<open>auto simp: lease_ok_detach_eq [OF ok] dom_def\<close>)
qed

text \<open>
  The branch runs to its end: the new events are those of the operations in order, each
  read sees the writes before it, and the last write of a key decides its lease.
\<close>

lemma txn_op_put:
  assumes inv: "inv_store H s" and put: "op_Type opr = OpPut"
    and ls: "op_LeaseID opr \<noteq> 0 \<Longrightarrow> leases_of s (op_LeaseID opr) \<noteq> None"
  obtains s1 where
    "\<And>ops result events. txn_ops be s result events (opr # ops) =
       txn_ops be s1 result (events @ op_events H opr) ops"
    "inv_store (H @ op_events H opr) s1" "dom (leases_of s1) = dom (leases_of s)"
    "s_keyLease s1 = bind_op opr (s_keyLease s)" "s_closed s1 = s_closed s"
    "s_eventCh s1 = s_eventCh s"
proof -
  let ?k = "op_Key opr" and ?lid = "op_LeaseID opr"
  have H: "op_events H opr = [put_event H ?k (op_Value opr)]" using put by (simp add: op_events_def)
  obtain s1 where s1: "putLocked be s ?k (op_Value opr) =
      (s1, Revision (int (length H) + 1) 0, put_event H ?k (op_Value opr))"
    "?lid \<noteq> 0 \<Longrightarrow> \<exists>l. leases_of s1 ?lid = Some l \<and>
     inv_store (H @ [put_event H ?k (op_Value opr)]) (bindKeyToLeaseLocked s1 ?k ?lid l) \<and>
     s_keyLease (bindKeyToLeaseLocked s1 ?k ?lid l) = (s_keyLease s)(?k \<mapsto> ?lid) \<and>
     dom (leases_of (bindKeyToLeaseLocked s1 ?k ?lid l)) = dom (leases_of s)"
    "inv_store (H @ [put_event H ?k (op_Value opr)]) (detachKeyLocked s1 ?k)"
    "s_keyLease (detachKeyLocked s1 ?k) = (s_keyLease s)(?k := None)"
    "dom (leases_of (detachKeyLocked s1 ?k)) = dom (leases_of s)"
    "s_closed s1 = s_closed s" "s_eventCh s1 = s_eventCh s"
    by (rule put_op_step [where k = ?k and v = "op_Value opr", OF inv ls]) blast+
  show ?thesis
  proof (cases "?lid = 0")
    case True
    with put s1 H show ?thesis by (intro that [of "detachKeyLocked s1 ?k"]) (simp_all add: bind_op_def)
  next
    case False
    then obtain l where l: "leases_of s1 ?lid = Some l"
      "inv_store (H @ op_events H opr) (bindKeyToLeaseLocked s1 ?k ?lid l)"
      "s_keyLease (bindKeyToLeaseLocked s1 ?k ?lid l) = (s_keyLease s)(?k \<mapsto> ?lid)"
      "dom (leases_of (bindKeyToLeaseLocked s1 ?k ?lid l)) = dom (leases_of s)"
      using s1(2) H by auto
    show ?thesis by (rule that [OF _ l(2,4)]) (use put False s1(1,6,7) H l(1,3) in \<open>simp_all add: bind_op_def\<close>)
  qed
qed

lemma txn_op_delete:
  assumes inv: "inv_store H s" and del: "op_Type opr = OpDelete"
  obtains s1 where
    "\<And>ops result events. txn_ops be s result events (opr # ops) =
       txn_ops be s1 result (events @ op_events H opr) ops"
    "inv_store (H @ op_events H opr) s1" "dom (leases_of s1) = dom (leases_of s)"
    "s_keyLease s1 = bind_op opr (s_keyLease s)" "s_closed s1 = s_closed s"
    "s_eventCh s1 = s_eventCh s"
proof -
  let ?k = "op_Key opr"
  have H: "op_events H opr = [delete_event H ?k]" using del by (simp add: op_events_def)
  obtain s1 where s1: "deleteLocked be s ?k = (s1, Revision (int (length H) + 1) 0, delete_event H ?k)"
    "inv_store (H @ [delete_event H ?k]) s1"
    "s1 = detachKeyLocked (s\<lparr>s_backend := s_backend s1\<rparr>) ?k"
    by (rule deleteLocked_step [OF inv])
  have ok: "lease_ok (s\<lparr>s_backend := s_backend s1\<rparr>)"
    using invD(3) [OF inv] by (simp add: lease_ok_def)
  have f: "s_keyLease s1 = bind_op opr (s_keyLease s)" "dom (leases_of s1) = dom (leases_of s)"
    "s_closed s1 = s_closed s" "s_eventCh s1 = s_eventCh s"
    using del by (subst s1(3), simp add: lease_ok_detach_eq [OF ok] bind_op_def dom_def)+
  show ?thesis by (rule that [OF _ _ f(2,1,3,4)]) (use del s1(1,2) H in simp_all)
qed

lemma txn_op_read:
  assumes inv: "inv_store H s" and "op_Type opr \<noteq> OpPut" "op_Type opr \<noteq> OpDelete"
  shows "txn_ops be s result events (opr # ops) =
      txn_ops be s (result @ (if op_Type opr = OpGet then read_latest H (op_Key opr) else [])) events ops"
    and "op_events H opr = []" "bind_op opr kl = kl"
  using assms(2,3) invD(1) [OF inv] latest_stored [OF inv, of "op_Key opr"]
  by (cases "bs_Data (st (s_backend s)) (op_Key opr)",
      auto simp: latest_version_def read_latest_def Let_def version_of_def op_events_def bind_op_def)

lemma txn_op_step:
  assumes inv: "inv_store H s"
    and "op_Type opr = OpPut \<longrightarrow> op_LeaseID opr \<noteq> 0 \<longrightarrow> leases_of s (op_LeaseID opr) \<noteq> None"
  obtains s1 where
    "\<And>ops result events. txn_ops be s result events (opr # ops) =
       txn_ops be s1 (result @ (if op_Type opr = OpGet then read_latest H (op_Key opr) else []))
         (events @ op_events H opr) ops"
    "inv_store (H @ op_events H opr) s1" "dom (leases_of s1) = dom (leases_of s)"
    "s_keyLease s1 = bind_op opr (s_keyLease s)" "s_closed s1 = s_closed s"
    "s_eventCh s1 = s_eventCh s"
proof -
  consider (put) "op_Type opr = OpPut" | (delete) "op_Type opr = OpDelete"
    | (read) "op_Type opr \<noteq> OpPut" "op_Type opr \<noteq> OpDelete" by blast
  then show ?thesis
  proof cases
    case put
    show ?thesis by (rule txn_op_put [OF inv put]) (use assms(2) put that in auto)
  next
    case delete
    show ?thesis by (rule txn_op_delete [OF inv delete]) (use delete that in auto)
  next
    case read
    note r = txn_op_read [OF inv read]
    show ?thesis by (rule that [of s]) (use inv r in simp_all)
  qed
qed

lemma txn_ops_step:
  assumes "inv_store H s"
    and "\<forall>opr \<in> set ops. op_Type opr = OpPut \<longrightarrow> op_LeaseID opr \<noteq> 0 \<longrightarrow>
      leases_of s (op_LeaseID opr) \<noteq> None"
  shows "\<exists>s'. txn_ops be s result events ops =
      Inr (s', result @ ops_reads H ops, events @ ops_events H ops) \<and>
    inv_store (H @ ops_events H ops) s' \<and> s_keyLease s' = fold bind_op ops (s_keyLease s) \<and>
    s_closed s' = s_closed s \<and> s_eventCh s' = s_eventCh s"
  using assms
proof (induction ops arbitrary: H s result events)
  case (Cons opr ops)
  let ?reads = "if op_Type opr = OpGet then read_latest H (op_Key opr) else []"
  obtain s1 where s1: "txn_ops be s result events (opr # ops) =
      txn_ops be s1 (result @ ?reads) (events @ op_events H opr) ops"
    "inv_store (H @ op_events H opr) s1" "dom (leases_of s1) = dom (leases_of s)"
    "s_keyLease s1 = bind_op opr (s_keyLease s)" "s_closed s1 = s_closed s"
    "s_eventCh s1 = s_eventCh s"
    by (rule txn_op_step [OF Cons.prems(1), of opr]) (use Cons.prems(2) in simp, blast)
  have "\<forall>opr \<in> set ops. op_Type opr = OpPut \<longrightarrow> op_LeaseID opr \<noteq> 0 \<longrightarrow>
      leases_of s1 (op_LeaseID opr) \<noteq> None"
    using s1(3) Cons.prems(2) by (auto simp: set_eq_iff dom_def)
  from Cons.IH [OF s1(2) this, of "result @ ?reads" "events @ op_events H opr"] s1(4-6)
  show ?case by (simp add: s1(1) del: txn_ops.simps)
qed simp

lemma Txn_ok:
  assumes "inv_store H s" and "txn_check_leases s clock 0 (branch H txn) = None"
  obtains s' where "KVStore_Txn be s clock txn =
      Inr (s', Inr (compares_hold H (txn_Compares txn), ops_reads H (branch H txn)))"
    "inv_store (H @ ops_events H (branch H txn)) s'"
    "s_keyLease s' = fold bind_op (branch H txn) (s_keyLease s)"
    "\<not> s_closed s \<Longrightarrow> s_eventCh s' = s_eventCh s @ ops_events H (branch H txn)"
proof -
  obtain s1 where s1: "txn_ops be s [] [] (branch H txn) =
      Inr (s1, ops_reads H (branch H txn), ops_events H (branch H txn))"
    "inv_store (H @ ops_events H (branch H txn)) s1"
    "s_keyLease s1 = fold bind_op (branch H txn) (s_keyLease s)"
    "s_closed s1 = s_closed s" "s_eventCh s1 = s_eventCh s"
    using txn_ops_step [OF assms(1) check_leases_present [OF assms(2)], of "[]" "[]"] by auto
  have "KVStore_Txn be s clock txn = Inr (send_events s1 (ops_events H (branch H txn)),
      Inr (compares_hold H (txn_Compares txn), ops_reads H (branch H txn)))"
    using s1(1) assms(2)
    by (simp add: KVStore_Txn_def compares_eq [OF assms(1)] branch_def [symmetric] Let_def)
  with s1 that show ?thesis by simp
qed

lemma Txn_err:
  assumes "inv_store H s" and "txn_check_leases s clock 0 (branch H txn) = Some e"
  shows "KVStore_Txn be s clock txn = Inr (s, Inl e)"
  using assms(2)
  by (simp add: KVStore_Txn_def compares_eq [OF assms(1)] branch_def [symmetric] Let_def)

end

end
