(* ===== verification/KVWatch.thy ===== *)
theory KVWatch
  imports KVStore
begin

text \<open>
  \<^verbatim>\<open>internal/storage/mvcc/watcher.go\<close>: registration, cancellation and the dispatcher.

  A watcher is a cell of the heap; its channel is the list of the events sent and not yet
  received, with room for 16. A send in a \<^verbatim>\<open>select\<close> with a default branch is refused
  when the channel is full and panics when it is closed. The goroutine \<^verbatim>\<open>Watch\<close> starts
  runs on its own: its sends are separate steps over the backlog the call returns.
\<close>

section \<open>Operations\<close>

abbreviation (input) watcher_cap :: nat where "watcher_cap \<equiv> 16"

definition HasPrefix :: "gostring \<Rightarrow> gostring \<Rightarrow> bool" where
  "HasPrefix s p = (length p \<le> length s \<and> take (length p) s = p)"

definition refs_of :: "(gostring \<rightharpoonup> watcher_ref list) \<Rightarrow> gostring \<Rightarrow> watcher_ref list" where
  "refs_of T k = (case T k of None \<Rightarrow> [] | Some ws \<Rightarrow> ws)"

text \<open>The loop that collects the backlog and the last revision in it.\<close>

fun backlog_loop ::
  "gostring \<Rightarrow> bool \<Rightarrow> int \<Rightarrow> Event list \<Rightarrow> int \<Rightarrow> Event list \<Rightarrow> Event list \<times> int" where
  "backlog_loop key pre fromRev backlog lastSentRev [] = (backlog, lastSentRev)"
| "backlog_loop key pre fromRev backlog lastSentRev (e # es) =
     (if (if pre then HasPrefix (ev_Key e) key \<and> emain e \<ge> fromRev
          else ev_Key e = key \<and> emain e \<ge> fromRev)
      then backlog_loop key pre fromRev (backlog @ [e])
             (if emain e > lastSentRev then emain e else lastSentRev) es
      else backlog_loop key pre fromRev backlog lastSentRev es)"

text \<open>The result carries the identifier, which names the channel, and the backlog.\<close>

definition KVStore_Watch ::
  "'b Backend \<Rightarrow> 'b KVStore \<Rightarrow> gostring \<Rightarrow> int \<Rightarrow> bool \<Rightarrow>
     'b KVStore \<times> (go_error + int \<times> Event list)" where
  "KVStore_Watch be s key fromRev pre =
     (if fromRev \<le> be_CompactRev be (s_backend s) then (s, Inl ErrCompacted)
      else
        (let wid = s_nextWatcherID s;
             (backlog, lastSentRev) =
               backlog_loop key pre fromRev [] (fromRev - 1) (be_Events be (s_backend s));
             w = \<lparr>w_ID = wid, w_Key = key, w_Prefix = pre, w_StartRev = fromRev, w_Ch = [],
                  w_closed = False, w_lastSentRev = lastSentRev\<rparr>;
             s1 = s\<lparr>s_nextWatcherID := wid + 1, s_heap := (s_heap s)(wid \<mapsto> w)\<rparr>;
             s2 = (if pre then
                     s1\<lparr>s_prefixWatchers :=
                       (s_prefixWatchers s)(key \<mapsto> refs_of (s_prefixWatchers s) key @ [wid])\<rparr>
                   else
                     s1\<lparr>s_watchers := (s_watchers s)(key \<mapsto> refs_of (s_watchers s) key @ [wid])\<rparr>)
         in (s2\<lparr>s_watchersByID := (s_watchersByID s)(wid \<mapsto> wid)\<rparr>, Inr (wid, backlog))))"

text \<open>One send of the backlog goroutine, and one receive by the client.\<close>

definition backlog_send :: "'b KVStore \<Rightarrow> watcher_ref \<Rightarrow> Event \<Rightarrow> 'b KVStore outcome" where
  "backlog_send s r e =
     (case s_heap s r of
        None \<Rightarrow> Inl NilPointer
      | Some w \<Rightarrow>
          if w_closed w then Inl SendOnClosedChannel
          else if length (w_Ch w) < watcher_cap then
            Inr (s\<lparr>s_heap := (s_heap s)(r \<mapsto> w\<lparr>w_Ch := w_Ch w @ [e]\<rparr>)\<rparr>)
          else Inr s)"

fun backlog_sends :: "'b KVStore \<Rightarrow> watcher_ref \<Rightarrow> Event list \<Rightarrow> 'b KVStore outcome" where
  "backlog_sends s r [] = Inr s"
| "backlog_sends s r (e # es) =
     (case backlog_send s r e of Inl p \<Rightarrow> Inl p | Inr s1 \<Rightarrow> backlog_sends s1 r es)"

text \<open>The loop \<^verbatim>\<open>for i, x := range ws\<close> that takes the watcher out of its list.\<close>

fun remove_id :: "(watcher_ref \<rightharpoonup> Watcher) \<Rightarrow> int \<Rightarrow> watcher_ref list \<Rightarrow> watcher_ref list" where
  "remove_id heap wid [] = []"
| "remove_id heap wid (x # xs) =
     (if map_option w_ID (heap x) = Some wid then xs else x # remove_id heap wid xs)"

definition CancelWatcher :: "'b KVStore \<Rightarrow> int \<Rightarrow> 'b KVStore outcome" where
  "CancelWatcher s wid =
     (case s_watchersByID s wid of
        None \<Rightarrow> Inr s
      | Some r \<Rightarrow>
          (case s_heap s r of
             None \<Rightarrow> Inl NilPointer
           | Some w \<Rightarrow>
               (let s1 =
                  (if w_Prefix w then
                     (let ws = remove_id (s_heap s) wid (refs_of (s_prefixWatchers s) (w_Key w))
                      in s\<lparr>s_prefixWatchers := (s_prefixWatchers s)
                             (w_Key w := if length ws = 0 then None else Some ws)\<rparr>)
                   else
                     (let ws = remove_id (s_heap s) wid (refs_of (s_watchers s) (w_Key w))
                      in s\<lparr>s_watchers := (s_watchers s)
                             (w_Key w := if length ws = 0 then None else Some ws)\<rparr>));
                  s2 = s1\<lparr>s_watchersByID := (s_watchersByID s1)(wid := None)\<rparr>
                in if w_closed w then Inl CloseOfClosedChannel
                   else Inr (s2\<lparr>s_heap := (s_heap s2)(r \<mapsto> w\<lparr>w_closed := True\<rparr>)\<rparr>))))"

text \<open>The body of both inner loops of \<^verbatim>\<open>dispatcherLoop\<close>.\<close>

definition deliver :: "'b KVStore \<Rightarrow> Event \<Rightarrow> watcher_ref \<Rightarrow> 'b KVStore outcome" where
  "deliver s ev r =
     (case s_heap s r of
        None \<Rightarrow> Inl NilPointer
      | Some w \<Rightarrow>
          if emain ev \<le> w_lastSentRev w then Inr s
          else if w_closed w then Inl SendOnClosedChannel
          else if length (w_Ch w) < watcher_cap then
            Inr (s\<lparr>s_heap := (s_heap s)(r \<mapsto> w\<lparr>w_Ch := w_Ch w @ [ev], w_lastSentRev := emain ev\<rparr>)\<rparr>)
          else CancelWatcher s (w_ID w))"

fun deliver_all :: "'b KVStore \<Rightarrow> Event \<Rightarrow> watcher_ref list \<Rightarrow> 'b KVStore outcome" where
  "deliver_all s ev [] = Inr s"
| "deliver_all s ev (r # rs) =
     (case deliver s ev r of Inl p \<Rightarrow> Inl p | Inr s1 \<Rightarrow> deliver_all s1 ev rs)"

fun deliver_prefixes ::
  "'b KVStore \<Rightarrow> Event \<Rightarrow> (gostring \<rightharpoonup> watcher_ref list) \<Rightarrow> gostring list \<Rightarrow> 'b KVStore outcome" where
  "deliver_prefixes s ev pw [] = Inr s"
| "deliver_prefixes s ev pw (p # ps) =
     (if HasPrefix (ev_Key ev) p then
        (case deliver_all s ev (refs_of pw p) of
           Inl e \<Rightarrow> Inl e
         | Inr s1 \<Rightarrow> deliver_prefixes s1 ev pw ps)
      else deliver_prefixes s ev pw ps)"

definition dispatch_event ::
  "(gostring set \<Rightarrow> gostring list) \<Rightarrow> 'b KVStore \<Rightarrow> Event \<Rightarrow> 'b KVStore outcome" where
  "dispatch_event rng s ev =
     (case deliver_all s ev (refs_of (s_watchers s) (ev_Key ev)) of
        Inl p \<Rightarrow> Inl p
      | Inr s1 \<Rightarrow>
          deliver_prefixes s1 ev (s_prefixWatchers s1) (rng (dom (s_prefixWatchers s1))))"

text \<open>One turn of \<^verbatim>\<open>dispatcherLoop\<close>: it ends when the store is closed and waits on an empty queue.\<close>

definition dispatcher_step ::
  "(gostring set \<Rightarrow> gostring list) \<Rightarrow> 'b KVStore \<Rightarrow> 'b KVStore outcome" where
  "dispatcher_step rng s =
     (if s_closed s then Inr s
      else case s_eventCh s of
             [] \<Rightarrow> Inr s
           | ev # rest \<Rightarrow> dispatch_event rng (s\<lparr>s_eventCh := rest\<rparr>) ev)"

definition watcher_recv :: "'b KVStore \<Rightarrow> watcher_ref \<Rightarrow> 'b KVStore \<times> Event option" where
  "watcher_recv s r =
     (case s_heap s r of
        None \<Rightarrow> (s, None)
      | Some w \<Rightarrow>
          (case w_Ch w of
             [] \<Rightarrow> (s, None)
           | e # es \<Rightarrow> (s\<lparr>s_heap := (s_heap s)(r \<mapsto> w\<lparr>w_Ch := es\<rparr>)\<rparr>, Some e)))"

section \<open>Registration invariant\<close>

definition table_ok :: "(watcher_ref \<rightharpoonup> Watcher) \<Rightarrow> bool \<Rightarrow> (gostring \<rightharpoonup> watcher_ref list) \<Rightarrow> bool" where
  "table_ok heap pre T \<longleftrightarrow>
     finite (dom T) \<and>
     (\<forall>k. distinct (refs_of T k) \<and>
        set (refs_of T k) =
          {r. \<exists>w. heap r = Some w \<and> \<not> w_closed w \<and> w_Prefix w = pre \<and> w_Key w = k})"

definition watch_ok :: "'b KVStore \<Rightarrow> bool" where
  "watch_ok s \<longleftrightarrow>
     (\<forall>i. s_watchersByID s i =
        (case s_heap s i of None \<Rightarrow> None | Some w \<Rightarrow> if w_closed w then None else Some i)) \<and>
     (\<forall>r w. s_heap s r = Some w \<longrightarrow>
        w_ID w = r \<and> r < s_nextWatcherID s \<and> length (w_Ch w) \<le> watcher_cap) \<and>
     table_ok (s_heap s) False (s_watchers s) \<and> table_ok (s_heap s) True (s_prefixWatchers s)"

definition interested :: "Watcher \<Rightarrow> Event \<Rightarrow> bool" where
  "interested w ev \<longleftrightarrow>
     (if w_Prefix w then HasPrefix (ev_Key ev) (w_Key w) else ev_Key ev = w_Key w)"

text \<open>What an event does to one open, interested watcher.\<close>

definition deliver_to :: "Event \<Rightarrow> Watcher \<Rightarrow> Watcher" where
  "deliver_to ev w =
     (if emain ev \<le> w_lastSentRev w then w
      else if length (w_Ch w) < watcher_cap
        then w\<lparr>w_Ch := w_Ch w @ [ev], w_lastSentRev := emain ev\<rparr>
      else w\<lparr>w_closed := True\<rparr>)"

lemma watch_okD:
  assumes "watch_ok s"
  shows "s_watchersByID s i =
      (case s_heap s i of None \<Rightarrow> None | Some w \<Rightarrow> if w_closed w then None else Some i)"
    "s_heap s r = Some w \<Longrightarrow> w_ID w = r"
    "s_heap s r = Some w \<Longrightarrow> r < s_nextWatcherID s"
    "s_heap s r = Some w \<Longrightarrow> length (w_Ch w) \<le> watcher_cap"
    "table_ok (s_heap s) False (s_watchers s)" "table_ok (s_heap s) True (s_prefixWatchers s)"
  using assms by (auto simp: watch_ok_def)

lemma watch_okI:
  assumes "\<And>i. s_watchersByID s i =
      (case s_heap s i of None \<Rightarrow> None | Some w \<Rightarrow> if w_closed w then None else Some i)"
    and "\<And>r w. s_heap s r = Some w \<Longrightarrow> w_ID w = r \<and> r < s_nextWatcherID s \<and> length (w_Ch w) \<le> watcher_cap"
    and "table_ok (s_heap s) False (s_watchers s)" "table_ok (s_heap s) True (s_prefixWatchers s)"
  shows "watch_ok s"
  unfolding watch_ok_def using assms by blast

lemma watch_ok_new [inv_intros]: "watch_ok (NewKVStoreWithBackend b)"
  by (simp add: watch_ok_def NewKVStoreWithBackend_def table_ok_def refs_of_def)

text \<open>Only the registration tables, the identifiers and the heap matter.\<close>

lemma watch_ok_cong:
  "s_heap s' = s_heap s \<Longrightarrow> s_watchers s' = s_watchers s \<Longrightarrow>
   s_prefixWatchers s' = s_prefixWatchers s \<Longrightarrow> s_watchersByID s' = s_watchersByID s \<Longrightarrow>
   s_nextWatcherID s' = s_nextWatcherID s \<Longrightarrow> watch_ok s' = watch_ok s"
  by (simp add: watch_ok_def)

text \<open>Changing what is buffered in a channel keeps the tables.\<close>

lemma table_ok_same:
  assumes "table_ok heap pre T" and "heap r = Some w"
    and "w_closed w' = w_closed w" "w_Prefix w' = w_Prefix w" "w_Key w' = w_Key w"
  shows "table_ok (heap(r \<mapsto> w')) pre T"
proof -
  have "{x. \<exists>v. (heap(r \<mapsto> w')) x = Some v \<and> \<not> w_closed v \<and> w_Prefix v = pre \<and> w_Key v = k} =
      {x. \<exists>v. heap x = Some v \<and> \<not> w_closed v \<and> w_Prefix v = pre \<and> w_Key v = k}" for k
    using assms(2-5) by auto
  with assms(1) show ?thesis by (simp add: table_ok_def)
qed

lemma watch_ok_channel:
  assumes "watch_ok s" and "s_heap s r = Some w"
    and "w_closed w' = w_closed w" "w_Prefix w' = w_Prefix w" "w_Key w' = w_Key w"
    "w_ID w' = w_ID w" "length (w_Ch w') \<le> watcher_cap"
  shows "watch_ok (s\<lparr>s_heap := (s_heap s)(r \<mapsto> w')\<rparr>)"
proof (rule watch_okI)
  note ok = watch_okD [OF assms(1)]
  fix i
  show "s_watchersByID (s\<lparr>s_heap := (s_heap s)(r \<mapsto> w')\<rparr>) i =
      (case s_heap (s\<lparr>s_heap := (s_heap s)(r \<mapsto> w')\<rparr>) i of
         None \<Rightarrow> None | Some w \<Rightarrow> if w_closed w then None else Some i)"
    using assms(2,3) by (simp add: ok(1))
next
  note ok = watch_okD [OF assms(1)]
  fix x v assume "s_heap (s\<lparr>s_heap := (s_heap s)(r \<mapsto> w')\<rparr>) x = Some v"
  then show "w_ID v = x \<and> x < s_nextWatcherID (s\<lparr>s_heap := (s_heap s)(r \<mapsto> w')\<rparr>) \<and>
      length (w_Ch v) \<le> watcher_cap"
    using ok(2-4) assms(2,6,7) by (auto split: if_splits)
qed (use watch_okD(5,6) [OF assms(1)] table_ok_same [where heap = "s_heap s" and w = w and w' = w']
    assms(2-5) in auto)

section \<open>Cancelling\<close>

lemma remove_id_eq:
  "\<forall>x \<in> set xs. map_option w_ID (heap x) = Some x \<Longrightarrow> remove_id heap i xs = remove1 i xs"
  by (induction xs) auto

lemma refs_of_upd [simp]:
  "refs_of (T(k := if length ws = 0 then None else Some ws)) k' = (if k' = k then ws else refs_of T k')"
  by (simp add: refs_of_def)

lemma table_ok_close:
  assumes "table_ok heap pre T" and "heap r = Some w" and "\<not> w_closed w" and "w_Prefix w = pre"
  shows "table_ok (heap(r \<mapsto> w\<lparr>w_closed := True\<rparr>)) pre
    (T(w_Key w := if length (remove1 r (refs_of T (w_Key w))) = 0 then None
       else Some (remove1 r (refs_of T (w_Key w)))))"
proof -
  have T: "finite (dom T)" "\<And>k. distinct (refs_of T k)"
    "\<And>k. set (refs_of T k) = {r. \<exists>w. heap r = Some w \<and> \<not> w_closed w \<and> w_Prefix w = pre \<and> w_Key w = k}"
    using assms(1) by (auto simp: table_ok_def)
  show ?thesis
    unfolding table_ok_def refs_of_upd
  proof (intro conjI allI)
    fix k
    show "distinct (if k = w_Key w then remove1 r (refs_of T (w_Key w)) else refs_of T k)"
      using T(2) by (simp add: distinct_remove1)
    show "set (if k = w_Key w then remove1 r (refs_of T (w_Key w)) else refs_of T k) =
        {x. \<exists>v. (heap(r \<mapsto> w\<lparr>w_closed := True\<rparr>)) x = Some v \<and> \<not> w_closed v \<and> w_Prefix v = pre \<and> w_Key v = k}"
      using assms(2-4) by (auto simp: T(3) set_remove1_eq [OF T(2)])
  qed (use T(1) in simp)
qed

lemma table_ok_close_other:
  assumes "table_ok heap pre T" and "heap r = Some w" and "w_Prefix w \<noteq> pre"
  shows "table_ok (heap(r \<mapsto> w\<lparr>w_closed := True\<rparr>)) pre T"
proof -
  have "{x. \<exists>v. (heap(r \<mapsto> w\<lparr>w_closed := True\<rparr>)) x = Some v \<and> \<not> w_closed v \<and> w_Prefix v = pre \<and> w_Key v = k} =
      {x. \<exists>v. heap x = Some v \<and> \<not> w_closed v \<and> w_Prefix v = pre \<and> w_Key v = k}" for k
    using assms(2,3) by auto
  with assms(1) show ?thesis by (simp add: table_ok_def)
qed

text \<open>The fields neither the dispatcher nor a cancellation touches.\<close>

definition same_core :: "'b KVStore \<Rightarrow> 'b KVStore \<Rightarrow> bool" where
  "same_core s s' \<longleftrightarrow>
     s_backend s' = s_backend s \<and> s_leaseMgr s' = s_leaseMgr s \<and> s_keyLease s' = s_keyLease s \<and>
     s_eventCh s' = s_eventCh s \<and> s_closed s' = s_closed s \<and> s_nextWatcherID s' = s_nextWatcherID s"

lemma same_core_refl [simp]: "same_core s s"
  by (simp add: same_core_def)

lemma same_core_trans: "same_core s t \<Longrightarrow> same_core t u \<Longrightarrow> same_core s u"
  by (simp add: same_core_def)

lemma same_core_inv: "same_core s s' \<Longrightarrow> store_inv invar st H s' = store_inv invar st H s"
  by (simp add: same_core_def store_inv_def lease_ok_def)

lemma CancelWatcher_ok:
  assumes "watch_ok s" and "s_heap s r = Some w" and "\<not> w_closed w"
  obtains s' where "CancelWatcher s r = Inr s'" "watch_ok s'"
    "s_heap s' = (s_heap s)(r \<mapsto> w\<lparr>w_closed := True\<rparr>)"
    "same_core s s'" "\<not> w_Prefix w \<Longrightarrow> s_prefixWatchers s' = s_prefixWatchers s"
proof -
  note ok = watch_okD [OF assms(1)]
  let ?T = "if w_Prefix w then s_prefixWatchers s else s_watchers s"
  let ?ws = "remove1 r (refs_of ?T (w_Key w))"
  let ?T' = "?T(w_Key w := if length ?ws = 0 then None else Some ?ws)"
  define s' where "s' = (if w_Prefix w then s\<lparr>s_prefixWatchers := ?T'\<rparr> else s\<lparr>s_watchers := ?T'\<rparr>)
    \<lparr>s_watchersByID := (s_watchersByID s)(r := None),
     s_heap := (s_heap s)(r \<mapsto> w\<lparr>w_closed := True\<rparr>)\<rparr>"
  have tab: "table_ok (s_heap s) (w_Prefix w) ?T" using ok(5,6) by auto
  have "\<forall>x \<in> set (refs_of ?T (w_Key w)). map_option w_ID (s_heap s x) = Some x"
    using tab ok(2) by (auto simp: table_ok_def)
  note rem = remove_id_eq [OF this, of r]
  have "s_watchersByID s r = Some r" using assms(2,3) by (simp add: ok(1))
  then have "CancelWatcher s r = Inr s'"
    using assms(2,3) rem by (auto simp: CancelWatcher_def s'_def Let_def)
  moreover have "watch_ok s'"
  proof (rule watch_okI)
    fix i show "s_watchersByID s' i =
        (case s_heap s' i of None \<Rightarrow> None | Some w \<Rightarrow> if w_closed w then None else Some i)"
      by (simp add: s'_def ok(1))
  next
    fix x v assume "s_heap s' x = Some v"
    then show "w_ID v = x \<and> x < s_nextWatcherID s' \<and> length (w_Ch v) \<le> watcher_cap"
      using ok(2-4) assms(2) by (auto simp: s'_def split: if_splits)
  next
    show "table_ok (s_heap s') False (s_watchers s')"
      using ok(5) assms(2,3) table_ok_close [of "s_heap s" False "s_watchers s" r w]
        table_ok_close_other [of "s_heap s" False "s_watchers s" r w]
      by (cases "w_Prefix w") (auto simp: s'_def split: if_splits)
    show "table_ok (s_heap s') True (s_prefixWatchers s')"
      using ok(6) assms(2,3) table_ok_close [of "s_heap s" True "s_prefixWatchers s" r w]
        table_ok_close_other [of "s_heap s" True "s_prefixWatchers s" r w]
      by (cases "w_Prefix w") (auto simp: s'_def split: if_splits)
  qed
  ultimately show ?thesis
    by (rule that) (auto simp: s'_def same_core_def)
qed

section \<open>Dispatching\<close>

lemma deliver_ok:
  assumes "watch_ok s" and "s_heap s r = Some w" and "\<not> w_closed w"
  obtains s' where "deliver s ev r = Inr s'" "watch_ok s'"
    "s_heap s' = (s_heap s)(r \<mapsto> deliver_to ev w)"
    "same_core s s'" "\<not> w_Prefix w \<Longrightarrow> s_prefixWatchers s' = s_prefixWatchers s"
proof -
  consider "emain ev \<le> w_lastSentRev w"
    | "\<not> emain ev \<le> w_lastSentRev w" "length (w_Ch w) < watcher_cap"
    | "\<not> emain ev \<le> w_lastSentRev w" "\<not> length (w_Ch w) < watcher_cap" by blast
  then show ?thesis
  proof cases
    case 1
    with assms show ?thesis
      by (intro that [of s]) (simp_all add: deliver_def deliver_to_def fun_upd_idem)
  next
    case 2
    let ?w = "w\<lparr>w_Ch := w_Ch w @ [ev], w_lastSentRev := emain ev\<rparr>"
    have "watch_ok (s\<lparr>s_heap := (s_heap s)(r \<mapsto> ?w)\<rparr>)"
      by (rule watch_ok_channel [OF assms(1,2)]) (use 2 in auto)
    with 2 assms show ?thesis
      by (intro that [of "s\<lparr>s_heap := (s_heap s)(r \<mapsto> ?w)\<rparr>"])
        (simp_all add: deliver_def deliver_to_def same_core_def)
  next
    case 3
    obtain s' where s': "CancelWatcher s r = Inr s'" "watch_ok s'"
      "s_heap s' = (s_heap s)(r \<mapsto> w\<lparr>w_closed := True\<rparr>)"
      "same_core s s'" "\<not> w_Prefix w \<Longrightarrow> s_prefixWatchers s' = s_prefixWatchers s"
      by (rule CancelWatcher_ok [OF assms]) blast
    with 3 assms watch_okD(2) [OF assms(1,2)] show ?thesis
      by (intro that [of s']) (simp_all add: deliver_def deliver_to_def)
  qed
qed

lemma deliver_all_ok:
  assumes "watch_ok s" and "distinct rs"
    and "\<forall>r \<in> set rs. \<exists>w. s_heap s r = Some w \<and> \<not> w_closed w"
  shows "\<exists>s'. deliver_all s ev rs = Inr s' \<and> watch_ok s' \<and> same_core s s' \<and>
    s_heap s' = (\<lambda>r. if r \<in> set rs then map_option (deliver_to ev) (s_heap s r) else s_heap s r) \<and>
    ((\<forall>r \<in> set rs. \<exists>w. s_heap s r = Some w \<and> \<not> w_Prefix w) \<longrightarrow>
       s_prefixWatchers s' = s_prefixWatchers s)"
  using assms
proof (induction rs arbitrary: s)
  case (Cons r rs)
  obtain w where w: "s_heap s r = Some w" "\<not> w_closed w" using Cons.prems(3) by auto
  obtain s1 where s1: "deliver s ev r = Inr s1" "watch_ok s1"
    "s_heap s1 = (s_heap s)(r \<mapsto> deliver_to ev w)"
    "same_core s s1" "\<not> w_Prefix w \<Longrightarrow> s_prefixWatchers s1 = s_prefixWatchers s"
    by (rule deliver_ok [OF Cons.prems(1) w]) blast
  have other: "s_heap s1 x = s_heap s x" if "x \<in> set rs" for x
    using that Cons.prems(2) s1(3) by auto
  then obtain s' where s': "deliver_all s1 ev rs = Inr s'" "watch_ok s'" "same_core s1 s'"
    "s_heap s' = (\<lambda>x. if x \<in> set rs then map_option (deliver_to ev) (s_heap s1 x) else s_heap s1 x)"
    "(\<forall>x \<in> set rs. \<exists>w. s_heap s1 x = Some w \<and> \<not> w_Prefix w) \<longrightarrow>
       s_prefixWatchers s' = s_prefixWatchers s1"
    using Cons.IH [OF s1(2)] Cons.prems(2,3) by auto
  have "s_heap s' = (\<lambda>x. if x \<in> set (r # rs) then map_option (deliver_to ev) (s_heap s x) else s_heap s x)"
    using Cons.prems(2) w(1) by (auto simp: s'(4) s1(3) fun_eq_iff)
  moreover have "(\<forall>x \<in> set (r # rs). \<exists>w. s_heap s x = Some w \<and> \<not> w_Prefix w) \<longrightarrow>
       s_prefixWatchers s' = s_prefixWatchers s"
    using s'(5) s1(5) w(1) other by auto
  ultimately show ?case using s1(1) s'(1,2) same_core_trans [OF s1(4) s'(3)] by auto
qed auto

text \<open>One event reaches exactly the open watchers that asked for it.\<close>

lemma deliver_all_append:
  "deliver_all s ev (xs @ ys) =
     (case deliver_all s ev xs of Inl p \<Rightarrow> Inl p | Inr s1 \<Rightarrow> deliver_all s1 ev ys)"
  by (induction xs arbitrary: s) (auto split: sum.splits)

lemma deliver_prefixes_eq:
  "deliver_prefixes s ev pw ps =
     deliver_all s ev (concat (map (refs_of pw) (filter (HasPrefix (ev_Key ev)) ps)))"
  by (induction ps arbitrary: s) (auto simp: deliver_all_append split: sum.splits)

lemma distinct_prefix_refs:
  assumes "table_ok heap True T" and "distinct ps"
  shows "distinct (concat (map (refs_of T) ps))"
  using assms(2)
proof (induction ps)
  case (Cons p ps)
  have "set (refs_of T p) \<inter> set (refs_of T q) = {}" if "p \<noteq> q" for q
    using assms(1) that by (auto simp: table_ok_def)
  with Cons assms(1) show ?case by (fastforce simp: table_ok_def)
qed simp

lemma dispatch_event_ok:
  assumes "watch_ok s" and "range_order rng"
  shows "\<exists>s'. dispatch_event rng s ev = Inr s' \<and> watch_ok s' \<and> same_core s s' \<and>
    s_heap s' = (\<lambda>r. map_option
      (\<lambda>w. if \<not> w_closed w \<and> interested w ev then deliver_to ev w else w) (s_heap s r))"
proof -
  note ok = watch_okD [OF assms(1)]
  let ?E = "refs_of (s_watchers s) (ev_Key ev)"
  let ?ps = "filter (HasPrefix (ev_Key ev)) (rng (dom (s_prefixWatchers s)))"
  let ?P = "concat (map (refs_of (s_prefixWatchers s)) ?ps)"
  have fin: "finite (dom (s_prefixWatchers s))" using ok(6) by (simp add: table_ok_def)
  note rng = range_order_set [OF assms(2) fin] range_order_distinct [OF assms(2) fin]
  have setE: "r \<in> set ?E \<longleftrightarrow>
      (\<exists>w. s_heap s r = Some w \<and> \<not> w_closed w \<and> \<not> w_Prefix w \<and> w_Key w = ev_Key ev)" for r
    using ok(5) by (simp add: table_ok_def)
  have setT: "r \<in> set (refs_of (s_prefixWatchers s) p) \<longleftrightarrow>
      (\<exists>w. s_heap s r = Some w \<and> \<not> w_closed w \<and> w_Prefix w \<and> w_Key w = p)" for r p
    using ok(6) by (simp add: table_ok_def)
  have inT: "p \<in> dom (s_prefixWatchers s)" if "r \<in> set (refs_of (s_prefixWatchers s) p)" for r p
    using that by (cases "s_prefixWatchers s p") (auto simp: refs_of_def)
  have setP: "r \<in> set ?P \<longleftrightarrow> (\<exists>w. s_heap s r = Some w \<and> \<not> w_closed w \<and> w_Prefix w \<and>
      HasPrefix (ev_Key ev) (w_Key w))" for r
    using inT by (auto simp: rng(1) setT) (use setT in blast)
  have dist: "distinct (?E @ ?P)"
    using ok(5) distinct_prefix_refs [OF ok(6), of ?ps] rng(2) setE
    by (auto simp: table_ok_def setT)
  have openw: "\<forall>r \<in> set (?E @ ?P). \<exists>w. s_heap s r = Some w \<and> \<not> w_closed w"
    by (auto simp: setE setT)
  obtain s1 where s1: "deliver_all s ev ?E = Inr s1" "s_prefixWatchers s1 = s_prefixWatchers s"
    using deliver_all_ok [OF assms(1), of ?E ev] dist openw setE by auto
  have "dispatch_event rng s ev = deliver_all s ev (?E @ ?P)"
    by (simp add: dispatch_event_def s1 deliver_prefixes_eq deliver_all_append)
  moreover obtain s' where s': "deliver_all s ev (?E @ ?P) = Inr s'" "watch_ok s'" "same_core s s'"
    "s_heap s' = (\<lambda>r. if r \<in> set (?E @ ?P) then map_option (deliver_to ev) (s_heap s r) else s_heap s r)"
    using deliver_all_ok [OF assms(1) dist openw] by blast
  moreover have "(if r \<in> set (?E @ ?P) then map_option (deliver_to ev) (s_heap s r) else s_heap s r) =
      map_option (\<lambda>w. if \<not> w_closed w \<and> interested w ev then deliver_to ev w else w) (s_heap s r)" for r
    by (cases "s_heap s r")
      (auto simp: set_append Un_iff setE setP interested_def simp del: set_concat set_map set_filter)
  ultimately show ?thesis by auto
qed

section \<open>Registering\<close>

definition wants :: "gostring \<Rightarrow> bool \<Rightarrow> Event \<Rightarrow> bool" where
  "wants key pre e \<longleftrightarrow> (if pre then HasPrefix (ev_Key e) key else ev_Key e = key)"

lemma backlog_loop_eq:
  "backlog_loop key pre from b l es =
     (let bs = filter (\<lambda>e. wants key pre e \<and> from \<le> emain e) es
      in (b @ bs, fold (\<lambda>e m. max m (emain e)) bs l))"
  by (induction es arbitrary: b l) (auto simp: wants_def Let_def max_def)

lemma fold_max_bounds:
  fixes l :: int
  shows "l \<le> fold (\<lambda>e m. max m (emain e)) es l \<and>
    (\<forall>e \<in> set es. emain e \<le> fold (\<lambda>e m. max m (emain e)) es l) \<and>
    (fold (\<lambda>e m. max m (emain e)) es l = l \<or>
      (\<exists>e \<in> set es. fold (\<lambda>e m. max m (emain e)) es l = emain e))"
proof (induction es arbitrary: l)
  case (Cons e es)
  show ?case using Cons [of "max l (emain e)"] by (auto simp: max_def split: if_splits)
qed simp

lemma table_ok_insert:
  assumes "table_ok heap pre T" and "heap r = None" and "w_Prefix w = pre" "\<not> w_closed w"
  shows "table_ok (heap(r \<mapsto> w)) pre (T(w_Key w \<mapsto> refs_of T (w_Key w) @ [r]))"
proof -
  have T: "finite (dom T)" "\<And>k. distinct (refs_of T k)"
    "\<And>k. set (refs_of T k) = {r. \<exists>w. heap r = Some w \<and> \<not> w_closed w \<and> w_Prefix w = pre \<and> w_Key w = k}"
    using assms(1) by (auto simp: table_ok_def)
  have upd: "refs_of (T(w_Key w \<mapsto> refs_of T (w_Key w) @ [r])) k =
      refs_of T k @ (if k = w_Key w then [r] else [])" for k
    by (simp add: refs_of_def)
  show ?thesis
    unfolding table_ok_def upd using T assms(2-4) by (auto simp: T(3))
qed

lemma table_ok_insert_other:
  assumes "table_ok heap pre T" and "heap r = None" and "w_Prefix w \<noteq> pre"
  shows "table_ok (heap(r \<mapsto> w)) pre T"
proof -
  have "{x. \<exists>v. (heap(r \<mapsto> w)) x = Some v \<and> \<not> w_closed v \<and> w_Prefix v = pre \<and> w_Key v = k} =
      {x. \<exists>v. heap x = Some v \<and> \<not> w_closed v \<and> w_Prefix v = pre \<and> w_Key v = k}" for k
    using assms(2,3) by auto
  with assms(1) show ?thesis by (simp add: table_ok_def)
qed

text \<open>Adding a fresh watcher to its table.\<close>

lemma watch_ok_register:
  assumes "watch_ok s" and "wid = s_nextWatcherID s" and "w_ID w = wid" "\<not> w_closed w" "w_Ch w = []"
    and "s_heap s' = (s_heap s)(wid \<mapsto> w)" "s_nextWatcherID s' = wid + 1"
    "s_watchersByID s' = (s_watchersByID s)(wid \<mapsto> wid)"
    "s_prefixWatchers s' = (if w_Prefix w then (s_prefixWatchers s)
       (w_Key w \<mapsto> refs_of (s_prefixWatchers s) (w_Key w) @ [wid]) else s_prefixWatchers s)"
    "s_watchers s' = (if w_Prefix w then s_watchers s else (s_watchers s)
       (w_Key w \<mapsto> refs_of (s_watchers s) (w_Key w) @ [wid]))"
  shows "watch_ok s'"
proof -
  note ok = watch_okD [OF assms(1)]
  have fresh: "s_heap s wid = None"
    using ok(3) [of wid] assms(2) by (cases "s_heap s wid") auto
  show ?thesis
  proof (rule watch_okI)
    fix i show "s_watchersByID s' i =
        (case s_heap s' i of None \<Rightarrow> None | Some w \<Rightarrow> if w_closed w then None else Some i)"
      using assms(4) by (simp add: assms(6,8) ok(1))
  next
    fix x v assume "s_heap s' x = Some v"
    then show "w_ID v = x \<and> x < s_nextWatcherID s' \<and> length (w_Ch v) \<le> watcher_cap"
      using ok(2-4) assms(2,3,5) by (force simp: assms(6,7) split: if_splits)
  next
    show "table_ok (s_heap s') False (s_watchers s')"
      using ok(5) fresh assms(4) table_ok_insert [of "s_heap s" False "s_watchers s" wid w]
        table_ok_insert_other [of "s_heap s" False "s_watchers s" wid w]
      by (cases "w_Prefix w") (simp_all add: assms(6,10))
    show "table_ok (s_heap s') True (s_prefixWatchers s')"
      using ok(6) fresh assms(4) table_ok_insert [of "s_heap s" True "s_prefixWatchers s" wid w]
        table_ok_insert_other [of "s_heap s" True "s_prefixWatchers s" wid w]
      by (cases "w_Prefix w") (simp_all add: assms(6,9))
  qed
qed

context mvcc_backend
begin

lemma Watch_err:
  "inv_store H s \<Longrightarrow> from \<le> bs_CompactRev (st (s_backend s)) \<Longrightarrow>
     KVStore_Watch be s key from pre = (s, Inl ErrCompacted)"
  using invD(1) [of H s] by (simp add: KVStore_Watch_def)

text \<open>
  The backlog is the matching part of the history from the start revision on, and the new
  watcher's mark separates it from what the dispatcher will still send.
\<close>

lemma Watch_ok:
  assumes "inv_store H s" and "watch_ok s" and "bs_CompactRev (st (s_backend s)) < from"
  obtains s' w where
    "KVStore_Watch be s key from pre =
       (s', Inr (s_nextWatcherID s, filter (\<lambda>e. wants key pre e \<and> from \<le> emain e) H))"
    "inv_store H s'" "watch_ok s'" "s_eventCh s' = s_eventCh s" "s_closed s' = s_closed s"
    "s_heap s' = (s_heap s)(s_nextWatcherID s \<mapsto> w)"
    "w_Key w = key" "w_Prefix w = pre" "w_Ch w = []" "\<not> w_closed w" "from - 1 \<le> w_lastSentRev w"
    "\<forall>e \<in> set H. wants key pre e \<longrightarrow> emain e \<le> w_lastSentRev w"
    "w_lastSentRev w = from - 1 \<or> w_lastSentRev w \<le> int (length H)"
proof -
  note D = invD [OF assms(1)]
  let ?wid = "s_nextWatcherID s"
  define bs where "bs = filter (\<lambda>e. wants key pre e \<and> from \<le> emain e) H"
  define l where "l = fold (\<lambda>e m. max m (emain e)) bs (from - 1)"
  define w where "w = \<lparr>w_ID = ?wid, w_Key = key, w_Prefix = pre, w_StartRev = from, w_Ch = [],
      w_closed = False, w_lastSentRev = l\<rparr>"
  have "filter (\<lambda>e. wants key pre e \<and> from \<le> emain e) (bs_Events (st (s_backend s))) = bs"
    unfolding refines_basic(5) [OF D(2)] bs_def filter_filter
    using assms(3) by (intro filter_cong) auto
  then have loop: "backlog_loop key pre from [] (from - 1) (bs_Events (st (s_backend s))) = (bs, l)"
    by (simp add: backlog_loop_eq l_def)
  define s' where "s' = fst (KVStore_Watch be s key from pre)"
  have eq: "KVStore_Watch be s key from pre = (s', Inr (?wid, bs))"
    using D(1) assms(3) loop by (simp add: s'_def KVStore_Watch_def Let_def)
  have f: "s_heap s' = (s_heap s)(?wid \<mapsto> w)" "s_nextWatcherID s' = ?wid + 1"
    "s_watchersByID s' = (s_watchersByID s)(?wid \<mapsto> ?wid)"
    "s_prefixWatchers s' = (if w_Prefix w then (s_prefixWatchers s)
       (w_Key w \<mapsto> refs_of (s_prefixWatchers s) (w_Key w) @ [?wid]) else s_prefixWatchers s)"
    "s_watchers s' = (if w_Prefix w then s_watchers s else (s_watchers s)
       (w_Key w \<mapsto> refs_of (s_watchers s) (w_Key w) @ [?wid]))"
    "s_backend s' = s_backend s" "s_leaseMgr s' = s_leaseMgr s" "s_keyLease s' = s_keyLease s"
    "s_eventCh s' = s_eventCh s" "s_closed s' = s_closed s"
    using D(1) assms(3) loop by (simp_all add: s'_def KVStore_Watch_def Let_def w_def)
  have "watch_ok s'"
    by (rule watch_ok_register [OF assms(2) refl _ _ _ f(1-5)]) (simp_all add: w_def)
  moreover have "inv_store H s'" using D by (simp add: store_inv_def f lease_ok_def)
  moreover have "\<forall>e \<in> set H. wants key pre e \<longrightarrow> emain e \<le> l"
    using fold_max_bounds [of "from - 1" bs] unfolding l_def [symmetric]
    by (auto simp: bs_def)
  moreover have "l = from - 1 \<or> l \<le> int (length H)" "from - 1 \<le> l"
    using fold_max_bounds [of "from - 1" bs] history_ok_bound [OF refines_basic(1) [OF D(2)]]
    unfolding l_def [symmetric] by (auto simp: bs_def)
  ultimately show ?thesis
    using eq f(1,9,10) by (intro that [of s' w]) (auto simp: bs_def w_def)
qed

end

section \<open>What a watcher sees over time\<close>

text \<open>
  Any interleaving of dispatches, receives and cancellations after a watcher \<open>r\<close> has been
  registered; \<open>got\<close> is what its client has received and \<open>evs\<close> what was dispatched.
\<close>

inductive watch_run ::
  "(gostring set \<Rightarrow> gostring list) \<Rightarrow> watcher_ref \<Rightarrow> 'b KVStore \<Rightarrow> Event list \<Rightarrow> Event list \<Rightarrow>
     'b KVStore \<Rightarrow> bool" for rng r s0 where
  start: "watch_run rng r s0 [] [] s0"
| dispatch: "watch_run rng r s0 got evs s \<Longrightarrow> dispatch_event rng s ev = Inr s' \<Longrightarrow>
    watch_run rng r s0 got (evs @ [ev]) s'"
| recv: "watch_run rng r s0 got evs s \<Longrightarrow> watcher_recv s i = (s', eo) \<Longrightarrow>
    watch_run rng r s0 (if i = r then got @ (case eo of None \<Rightarrow> [] | Some e \<Rightarrow> [e]) else got) evs s'"
| cancel: "watch_run rng r s0 got evs s \<Longrightarrow> CancelWatcher s i = Inr s' \<Longrightarrow>
    watch_run rng r s0 got evs s'"

definition expected :: "Watcher \<Rightarrow> Event list \<Rightarrow> Event list" where
  "expected w evs = filter (\<lambda>e. interested w e \<and> w_lastSentRev w < emain e) evs"

text \<open>The state of one watcher relative to how it started.\<close>

definition on_track :: "Watcher \<Rightarrow> Event list \<Rightarrow> Event list \<Rightarrow> Watcher \<Rightarrow> bool" where
  "on_track w0 got evs w \<longleftrightarrow>
     w_Key w = w_Key w0 \<and> w_Prefix w = w_Prefix w0 \<and>
     w_lastSentRev w0 \<le> w_lastSentRev w \<and>
     (w_lastSentRev w = w_lastSentRev w0 \<or> (\<exists>e \<in> set evs. w_lastSentRev w = emain e)) \<and>
     (if w_closed w then \<exists>n. got @ w_Ch w = w_Ch w0 @ take n (expected w0 evs)
      else got @ w_Ch w = w_Ch w0 @ expected w0 evs)"

lemma expected_snoc:
  "expected w (evs @ [e]) =
     expected w evs @ (if interested w e \<and> w_lastSentRev w < emain e then [e] else [])"
  by (simp add: expected_def)

lemma on_track_dispatch:
  assumes "on_track w0 got evs w" and "\<forall>e \<in> set evs. emain e < emain ev"
  shows "on_track w0 got (evs @ [ev])
    (if \<not> w_closed w \<and> interested w ev then deliver_to ev w else w)"
proof -
  have int: "interested w ev \<longleftrightarrow> interested w0 ev"
    using assms(1) by (simp add: on_track_def interested_def)
  have closed: "\<exists>n. xs @ take m (expected w0 evs) = xs @ take n (expected w0 (evs @ [ev]))" for xs m
  proof -
    have "take m (expected w0 evs) = take (min m (length (expected w0 evs))) (expected w0 (evs @ [ev]))"
      by (simp add: expected_snoc min_def)
    then show ?thesis by metis
  qed
  have full: "\<exists>n. xs @ expected w0 evs = xs @ take n (expected w0 (evs @ [ev]))" for xs
    using closed [of xs "length (expected w0 evs)"] by simp
  show ?thesis
  proof (cases "\<not> w_closed w \<and> interested w ev")
    case False
    then show ?thesis
      using assms(1) int closed [of "w_Ch w0"]
      by (auto simp: on_track_def expected_snoc split: if_splits)
  next
    case True
    consider "emain ev \<le> w_lastSentRev w" | "w_lastSentRev w < emain ev" by linarith
    then show ?thesis
    proof cases
      case 1
      then have "\<not> w_lastSentRev w0 < emain ev"
        using assms by (force simp: on_track_def)
      with 1 True assms(1) show ?thesis
        by (auto simp: on_track_def expected_snoc deliver_to_def)
    next
      case 2
      then have "w_lastSentRev w0 < emain ev" using assms(1) by (simp add: on_track_def)
      with 2 True int assms(1) full [of "w_Ch w0"] show ?thesis
        by (auto simp: on_track_def expected_snoc deliver_to_def)
    qed
  qed
qed

lemma CancelWatcher_heap:
  assumes "watch_ok s" and "CancelWatcher s i = Inr s'"
  shows "watch_ok s' \<and> s_heap s' = (\<lambda>r. if r = i then map_option (w_closed_update (\<lambda>_. True)) (s_heap s r)
    else s_heap s r)"
proof (cases "s_watchersByID s i")
  case None
  then have "s' = s" using assms(2) by (simp add: CancelWatcher_def)
  moreover have "map_option (w_closed_update (\<lambda>_. True)) (s_heap s i) = s_heap s i"
    using None watch_okD(1) [OF assms(1), of i] by (cases "s_heap s i") (auto split: if_splits)
  ultimately show ?thesis using assms(1) by auto
next
  case (Some r)
  then obtain w where w: "s_heap s i = Some w" "\<not> w_closed w"
    using watch_okD(1) [OF assms(1), of i] by (auto split: option.splits if_splits)
  obtain s1 where "CancelWatcher s i = Inr s1" "watch_ok s1"
    "s_heap s1 = (s_heap s)(i \<mapsto> w\<lparr>w_closed := True\<rparr>)"
    by (rule CancelWatcher_ok [OF assms(1) w])
  with assms(2) w(1) show ?thesis by auto
qed

lemma watcher_recv_heap:
  assumes "watch_ok s" and "watcher_recv s i = (s', eo)"
  shows "watch_ok s' \<and> (\<forall>r. r \<noteq> i \<longrightarrow> s_heap s' r = s_heap s r) \<and>
    (\<forall>w. s_heap s i = Some w \<longrightarrow> (\<exists>w'. s_heap s' i = Some w' \<and> w' = w\<lparr>w_Ch := w_Ch w'\<rparr> \<and>
       w_Ch w = (case eo of None \<Rightarrow> [] | Some e \<Rightarrow> [e]) @ w_Ch w'))"
proof (cases "s_heap s i")
  case None
  with assms show ?thesis by (auto simp: watcher_recv_def)
next
  case (Some w)
  show ?thesis
  proof (cases "w_Ch w")
    case Nil
    with assms Some show ?thesis by (auto simp: watcher_recv_def)
  next
    case (Cons e es)
    have "watch_ok (s\<lparr>s_heap := (s_heap s)(i \<mapsto> w\<lparr>w_Ch := es\<rparr>)\<rparr>)"
      by (rule watch_ok_channel [OF assms(1) Some])
        (use watch_okD(4) [OF assms(1) Some] Cons in auto)
    with assms(2) Some Cons show ?thesis by (auto simp: watcher_recv_def)
  qed
qed

lemma watch_run_on_track:
  assumes "watch_run rng r s0 got evs s" and "range_order rng"
    and "watch_ok s0" "s_heap s0 r = Some w0" "\<not> w_closed w0" "sorted_wrt (<) (map emain evs)"
  shows "watch_ok s \<and> (\<exists>w. s_heap s r = Some w \<and> on_track w0 got evs w)"
  using assms(1,6)
proof (induction rule: watch_run.induct)
  case start
  show ?case using assms(3-5) by (auto simp: on_track_def expected_def)
next
  case (dispatch got evs s ev s')
  then have srt: "\<forall>e \<in> set evs. emain e < emain ev" by (auto simp: sorted_wrt_append)
  obtain w where w: "watch_ok s" "s_heap s r = Some w" "on_track w0 got evs w"
    using dispatch by (auto simp: sorted_wrt_append)
  with dispatch_event_ok [OF w(1) assms(2), of ev] dispatch.hyps(2) on_track_dispatch [OF w(3) srt]
  show ?case by auto
next
  case (recv got evs s i s' eo)
  then obtain w where w: "watch_ok s" "s_heap s r = Some w" "on_track w0 got evs w" by auto
  note h = watcher_recv_heap [OF w(1) recv.hyps(2)]
  show ?case
  proof (cases "i = r")
    case True
    then obtain w' where w': "s_heap s' r = Some w'" "w' = w\<lparr>w_Ch := w_Ch w'\<rparr>"
      "w_Ch w = (case eo of None \<Rightarrow> [] | Some e \<Rightarrow> [e]) @ w_Ch w'"
      using h w(2) by auto
    have "w_Key w' = w_Key w" "w_Prefix w' = w_Prefix w" "w_lastSentRev w' = w_lastSentRev w"
      "w_closed w' = w_closed w" by (subst w'(2), simp)+
    with w(3) w'(3) have "on_track w0 (got @ (case eo of None \<Rightarrow> [] | Some e \<Rightarrow> [e])) evs w'"
      by (cases "w_closed w") (simp_all add: on_track_def)
    with True w'(1) h show ?thesis by simp
  next
    case False
    with h w show ?thesis by auto
  qed
next
  case (cancel got evs s i s')
  then obtain w where w: "watch_ok s" "s_heap s r = Some w" "on_track w0 got evs w" by auto
  have "\<exists>n. expected w0 evs = take n (expected w0 evs)" by (metis order_refl take_all)
  then have "on_track w0 got evs (w\<lparr>w_closed := True\<rparr>)"
    using w(3) by (auto simp: on_track_def split: if_splits)
  with CancelWatcher_heap [OF w(1) cancel.hyps(2)] w show ?case by auto
qed

text \<open>
  The backlog goroutine on its own: with no reader only the first 16 events fit, the rest
  are dropped without a trace.
\<close>

lemma backlog_sends_eq:
  assumes "s_heap s r = Some w" and "\<not> w_closed w" and "length (w_Ch w) \<le> watcher_cap"
  shows "backlog_sends s r es = Inr (s\<lparr>s_heap := (s_heap s)(r \<mapsto>
    w\<lparr>w_Ch := take watcher_cap (w_Ch w @ es)\<rparr>)\<rparr>)"
  using assms
proof (induction es arbitrary: s w)
  case Nil
  then show ?case by (simp add: fun_upd_idem)
next
  case (Cons e es)
  show ?case
  proof (cases "length (w_Ch w) < watcher_cap")
    case True
    let ?w = "w\<lparr>w_Ch := w_Ch w @ [e]\<rparr>"
    have "backlog_send s r e = Inr (s\<lparr>s_heap := (s_heap s)(r \<mapsto> ?w)\<rparr>)"
      using True Cons.prems by (simp add: backlog_send_def)
    with Cons.IH [of "s\<lparr>s_heap := (s_heap s)(r \<mapsto> ?w)\<rparr>" ?w] True Cons.prems show ?thesis
      by (simp del: fun_upd_apply add: fun_upd_same)
  next
    case False
    then have "backlog_send s r e = Inr s" using Cons.prems by (simp add: backlog_send_def)
    with Cons.IH [OF Cons.prems] False Cons.prems(3) show ?thesis by simp
  qed
qed

end
