(* ===== verification/KVServer.thy ===== *)
theory KVServer
  imports ServerTypes KVRange KVTxn KVWatch
begin

text \<open>
  The server of \<^verbatim>\<open>internal/server/kvserver\<close>: applying committed commands (\<^verbatim>\<open>apply.go\<close>),
  snapshots (\<^verbatim>\<open>snapshot.go\<close>), waiting requests (\<^verbatim>\<open>wait.go\<close>), the request handlers and the
  lease reaper (\<^verbatim>\<open>server.go\<close>) and shutting down (\<^verbatim>\<open>close.go\<close>).

  The code between two lock operations is one definition. A handler is the composition of
  its critical sections; what the other goroutines of the process do while it is outside
  the lock is an argument, a \<open>schedule\<close>, which also says how its waits end. A handler whose
  wait has not ended returns \<^const>\<open>None\<close>.
\<close>

section \<open>What the server calls\<close>

record ('b, 'p) ServerIO =
  sio_backend :: "'b Backend"
  sio_raft :: "'p RaftIO"
  sio_MarshalCommand :: "pb_Command option \<Rightarrow> go_error + bytes"
  sio_UnmarshalCommand :: "bytes \<Rightarrow> go_error + pb_Command"
  sio_MarshalSnapshot :: "snap_ServerSnapshot \<Rightarrow> go_error + bytes"
  sio_UnmarshalSnapshot :: "bytes \<Rightarrow> go_error + snap_ServerSnapshot"
  sio_MarshalMvcc :: "pb_MvccSnapshot \<Rightarrow> bytes option"
  sio_UnmarshalMvcc :: "bytes \<Rightarrow> pb_MvccSnapshot option"
  sio_lease_order :: "int set \<Rightarrow> int list"
  sio_key_order :: "gostring set \<Rightarrow> gostring list"
  sio_wait_order :: "int set \<Rightarrow> int list"

section \<open>Waiting requests\<close>

text \<open>The loop of \<^verbatim>\<open>clearWaitCh\<close>: a channel that is closed already is left alone.\<close>

fun clear_loop :: "go_error \<Rightarrow> ('b, 'p) Server \<Rightarrow> int list \<Rightarrow> ('b, 'p) Server" where
  "clear_loop err s [] = s"
| "clear_loop err s (i # is) =
     (case sv_waitCh s i of
        None \<Rightarrow> clear_loop err s is
      | Some r \<Rightarrow>
          clear_loop err
            (s\<lparr>sv_entries := (sv_entries s)(r := map_option
                 (\<lambda>ch. ch\<lparr>we_Result := (we_Result ch)\<lparr>res_Err := Some err\<rparr>, we_Notify := True\<rparr>)
                 (sv_entries s r)),
               sv_waitCh := (sv_waitCh s)(i := None)\<rparr>) is)"

definition clearWaitCh :: "('b, 'p) ServerIO \<Rightarrow> go_error \<Rightarrow> ('b, 'p) Server \<Rightarrow> ('b, 'p) Server" where
  "clearWaitCh io err s = clear_loop err s (sio_wait_order io (dom (sv_waitCh s)))"

text \<open>
  The block that both critical sections of \<^verbatim>\<open>applyLoop\<close> share: the waiter of the index is
  woken if it waits for this command, and forgotten in any case.
\<close>

definition notify_waiter ::
  "('b, 'p) Server \<Rightarrow> int \<Rightarrow> Command \<Rightarrow> Result \<Rightarrow> ('b, 'p) Server outcome" where
  "notify_waiter s index env result =
     (case sv_waitCh s index of
        None \<Rightarrow> Inr s
      | Some r \<Rightarrow>
          (case sv_entries s r of
             None \<Rightarrow> Inl NilPointer
           | Some ch \<Rightarrow>
               let s1 = s\<lparr>sv_waitCh := (sv_waitCh s)(index := None)\<rparr>
               in if match ch env then
                    (if we_Notify ch then Inl CloseOfClosedChannel
                     else Inr (s1\<lparr>sv_entries := (sv_entries s)
                            (r \<mapsto> ch\<lparr>we_Result := result, we_Notify := True\<rparr>)\<rparr>))
                  else Inr s1))"

section \<open>Applying commands\<close>

text \<open>\<open>clock k\<close> is the time of the \<open>k\<close>-th \<^verbatim>\<open>time.Now()\<close> of the call.\<close>

definition applyKV ::
  "('b, 'p) ServerIO \<Rightarrow> (nat \<Rightarrow> int) \<Rightarrow> 'b KVStore \<Rightarrow> KVCommand option \<Rightarrow> 'b KVStore \<times> Result" where
  "applyKV io clock st cmd =
     (case cmd of
        None \<Rightarrow> (st, zero_Result\<lparr>res_Err := Some (NilCommand (str ''kv''))\<rparr>)
      | Some c \<Rightarrow>
          if kc_Type c = CmdPut then
            (case KVStore_Put (sio_backend io) st (clock 0) (kc_Key c) (kc_Value c) (kc_LeaseID c) of
               (st1, Inl err) \<Rightarrow> (st1, zero_Result\<lparr>res_Err := Some err\<rparr>)
             | (st1, Inr rv) \<Rightarrow> (st1, zero_Result\<lparr>res_Rev := Some rv\<rparr>))
          else if kc_Type c = CmdDelete then
            (case KVStore_Delete (sio_backend io) st (kc_Key c) of
               (st1, rv) \<Rightarrow> (st1, zero_Result\<lparr>res_Rev := Some rv\<rparr>))
          else (st, zero_Result\<lparr>res_Err := Some (UnsupportedKVType (kc_Type c))\<rparr>))"

definition applyTxn ::
  "('b, 'p) ServerIO \<Rightarrow> (nat \<Rightarrow> int) \<Rightarrow> 'b KVStore \<Rightarrow> TxnCommand option \<Rightarrow>
     ('b KVStore \<times> Result) outcome" where
  "applyTxn io clock st cmd =
     (case cmd of
        None \<Rightarrow> Inr (st, zero_Result\<lparr>res_Err := Some (NilCommand (str ''txn''))\<rparr>)
      | Some c \<Rightarrow>
          (case KVStore_Txn (sio_backend io) st clock (toMVCCTxn c) of
             Inl p \<Rightarrow> Inl p
           | Inr (st1, Inl err) \<Rightarrow> Inr (st1, zero_Result\<lparr>res_Err := Some err\<rparr>)
           | Inr (st1, Inr (succeeded, kvs)) \<Rightarrow>
               Inr (st1, zero_Result\<lparr>res_TxnSucceeded := succeeded,
                      res_TxnResults := fromMVCCKeyValues kvs\<rparr>)))"

definition applyLeaseGrant ::
  "(nat \<Rightarrow> int) \<Rightarrow> 'b KVStore \<Rightarrow> LeaseGrantCommand option \<Rightarrow> 'b KVStore \<times> Result" where
  "applyLeaseGrant clock st cmd =
     (case cmd of
        None \<Rightarrow> (st, zero_Result\<lparr>res_Err := Some (NilCommand (str ''lease grant''))\<rparr>)
      | Some c \<Rightarrow>
          (case LeaseGrant st (clock 0) (lg_TTL c) of
             (st1, i) \<Rightarrow> (st1, zero_Result\<lparr>res_LeaseID := i, res_LeaseTTL := lg_TTL c\<rparr>)))"

definition applyLeaseRevoke ::
  "('b, 'p) ServerIO \<Rightarrow> 'b KVStore \<Rightarrow> LeaseRevokeCommand option \<Rightarrow> 'b KVStore \<times> Result" where
  "applyLeaseRevoke io st cmd =
     (case cmd of
        None \<Rightarrow> (st, zero_Result\<lparr>res_Err := Some (NilCommand (str ''lease revoke''))\<rparr>)
      | Some c \<Rightarrow>
          (case LeaseRevoke (sio_key_order io) (sio_backend io) st (lr_ID c) of
             (st1, Some err) \<Rightarrow> (st1, zero_Result\<lparr>res_Err := Some err\<rparr>)
           | (st1, None) \<Rightarrow> (st1, zero_Result)))"

definition applyLeaseKeepAlive ::
  "(nat \<Rightarrow> int) \<Rightarrow> 'b KVStore \<Rightarrow> LeaseKeepAliveCommand option \<Rightarrow> 'b KVStore \<times> Result" where
  "applyLeaseKeepAlive clock st cmd =
     (case cmd of
        None \<Rightarrow> (st, zero_Result\<lparr>res_Err := Some (NilCommand (str ''lease keepalive''))\<rparr>)
      | Some c \<Rightarrow>
          (case LeaseKeepAlive st (clock 0) (lk_ID c) of
             (st1, Inl err) \<Rightarrow> (st1, zero_Result\<lparr>res_Err := Some err\<rparr>)
           | (st1, Inr ttl) \<Rightarrow> (st1, zero_Result\<lparr>res_LeaseTTL := ttl, res_LeaseID := lk_ID c\<rparr>)))"

definition applyCommand ::
  "('b, 'p) ServerIO \<Rightarrow> (nat \<Rightarrow> int) \<Rightarrow> 'b KVStore \<Rightarrow> Command \<Rightarrow> ('b KVStore \<times> Result) outcome" where
  "applyCommand io clock st env =
     (if c_Kind env = KindKV then Inr (applyKV io clock st (c_KV env))
      else if c_Kind env = KindTxn then applyTxn io clock st (c_Txn env)
      else if c_Kind env = KindLeaseGrant then Inr (applyLeaseGrant clock st (c_LeaseGrant env))
      else if c_Kind env = KindLeaseRevoke then Inr (applyLeaseRevoke io st (c_LeaseRevoke env))
      else if c_Kind env = KindLeaseKeepAlive then
        Inr (applyLeaseKeepAlive clock st (c_LeaseKeepAlive env))
      else Inr (st, zero_Result\<lparr>res_Err := Some (UnknownCommandKind (c_Kind env))\<rparr>))"

section \<open>Snapshots\<close>

definition makeSnapshot :: "('b, 'p) ServerIO \<Rightarrow> ('b, 'p) Server \<Rightarrow> bytes outcome" where
  "makeSnapshot io s =
     (case KVStore_Snapshot (sio_lease_order io) (sio_backend io) (sio_MarshalMvcc io) (sv_store s) of
        Inl p \<Rightarrow> Inl p
      | Inr kvSnap \<Rightarrow>
          (let snap = \<lparr>ss_KVSnapshot = kvSnap, ss_ClientLastSeq = cloneSeqMap (sv_clientLastSeq s),
                       ss_ClientLastResult = cloneResultMap (sv_clientLastResult s)\<rparr>
           in case sio_MarshalSnapshot io (toPBServerSnapshot snap) of
                Inl err \<Rightarrow> Inl (ExplicitPanic (Error_text err))
              | Inr data \<Rightarrow> Inr data))"

definition needSnapshot :: "('b, 'p) ServerIO \<Rightarrow> ('b, 'p) Server \<Rightarrow> bool" where
  "needSnapshot io s \<longleftrightarrow> RaftStateSize (sio_raft io) (sv_raft s) > sv_maxraftstate s"

text \<open>The maps of the snapshot are never nil, as \<^verbatim>\<open>fromPBServerSnapshot\<close> makes them.\<close>

definition restoreSnapshot :: "('b, 'p) ServerIO \<Rightarrow> ('b, 'p) Server \<Rightarrow> bytes \<Rightarrow> ('b, 'p) Server outcome" where
  "restoreSnapshot io s data =
     (case sio_UnmarshalSnapshot io data of
        Inl err \<Rightarrow> Inl (ExplicitPanic (Error_text err))
      | Inr pbsnap \<Rightarrow>
          (let snap = fromPBServerSnapshot (Some pbsnap);
               s1 = clearWaitCh io ErrNotLeader s
           in case KVStore_Restore (sio_backend io) (sio_UnmarshalMvcc io) (sv_store s1) (ss_KVSnapshot snap) of
                Inl p \<Rightarrow> Inl p
              | Inr st \<Rightarrow>
                  Inr (s1\<lparr>sv_store := st, sv_clientLastSeq := ss_ClientLastSeq snap,
                    sv_clientLastResult := ss_ClientLastResult snap,
                    sv_LastResult := Map.empty, sv_waitCh := Map.empty\<rparr>)))"

section \<open>The apply loop\<close>

definition last_seq :: "('b, 'p) Server \<Rightarrow> int \<Rightarrow> int" where
  "last_seq s c = (case sv_clientLastSeq s c of None \<Rightarrow> 0 | Some q \<Rightarrow> q)"

definition last_result :: "('b, 'p) Server \<Rightarrow> int \<Rightarrow> Result" where
  "last_result s c = (case sv_clientLastResult s c of None \<Rightarrow> zero_Result | Some r \<Rightarrow> r)"

text \<open>The first critical section; the flag says that the command still has to be applied.\<close>

definition apply_dedup :: "('b, 'p) Server \<Rightarrow> int \<Rightarrow> Command \<Rightarrow> (('b, 'p) Server \<times> bool) outcome" where
  "apply_dedup s index env =
     (let clientID = Command_ClientID env; seq = Command_Seq env; lastSeq = last_seq s clientID
      in if seq < lastSeq then Inr (s, False)
         else if seq = lastSeq then
           (case notify_waiter s index env (last_result s clientID) of
              Inl p \<Rightarrow> Inl p
            | Inr s1 \<Rightarrow> Inr (s1, False))
         else Inr (s, True))"

text \<open>The second critical section.\<close>

definition apply_record ::
  "('b, 'p) Server \<Rightarrow> int \<Rightarrow> Command \<Rightarrow> Result \<Rightarrow> ('b, 'p) Server outcome" where
  "apply_record s index env result =
     (let clientID = Command_ClientID env;
          s1 = s\<lparr>sv_clientLastSeq := (sv_clientLastSeq s)(clientID \<mapsto> Command_Seq env),
                 sv_clientLastResult := (sv_clientLastResult s)(clientID \<mapsto> result)\<rparr>
      in if sv_waitCh s1 index \<noteq> None then notify_waiter s1 index env result
         else Inr (s1\<lparr>sv_LastResult := (sv_LastResult s1)(index \<mapsto> result)\<rparr>))"

definition apply_snapshot :: "('b, 'p) ServerIO \<Rightarrow> ('b, 'p) Server \<Rightarrow> int \<Rightarrow> ('b, 'p) Server outcome" where
  "apply_snapshot io s commandIndex =
     (if needSnapshot io s then
        (case makeSnapshot io s of
           Inl p \<Rightarrow> Inl p
         | Inr snapshot \<Rightarrow>
             (case Snapshot (sio_raft io) (sv_raft s) commandIndex snapshot of
                Inl p \<Rightarrow> Inl p
              | Inr rf \<Rightarrow> Inr (s\<lparr>sv_raft := rf\<rparr>)))
      else Inr s)"

text \<open>A command that passed the test: execute, record, and perhaps compact the log.\<close>

definition apply_fresh ::
  "('b, 'p) ServerIO \<Rightarrow> (nat \<Rightarrow> int) \<Rightarrow> ('b, 'p) Server \<Rightarrow> int \<Rightarrow> Command \<Rightarrow> ('b, 'p) Server outcome" where
  "apply_fresh io clock s commandIndex env =
     (case applyCommand io clock (sv_store s) env of
        Inl p \<Rightarrow> Inl p
      | Inr (st, r) \<Rightarrow>
          (let result = r\<lparr>res_Kind := c_Kind env, res_ClientID := Command_ClientID env,
                          res_Seq := Command_Seq env\<rparr>
           in case apply_record (s\<lparr>sv_store := st\<rparr>) (change commandIndex) env result of
                Inl p \<Rightarrow> Inl p
              | Inr s1 \<Rightarrow> apply_snapshot io s1 commandIndex))"

text \<open>One message; nobody else takes the lock between the sections.\<close>

definition apply_msg ::
  "('b, 'p) ServerIO \<Rightarrow> (nat \<Rightarrow> int) \<Rightarrow> ('b, 'p) Server \<Rightarrow> ApplyMsg \<Rightarrow> ('b, 'p) Server outcome" where
  "apply_msg io clock s msg =
     (if am_SnapshotValid msg then restoreSnapshot io s (am_Snapshot msg)
      else if \<not> am_CommandValid msg then Inr s
      else
        (case Decode (sio_UnmarshalCommand io) (am_Command msg) of
           Inl err \<Rightarrow> Inl (ExplicitPanic (Error_text err))
         | Inr env \<Rightarrow>
             (case apply_dedup s (change (am_CommandIndex msg)) env of
                Inl p \<Rightarrow> Inl p
              | Inr (s1, fresh) \<Rightarrow>
                  if fresh then apply_fresh io clock s1 (am_CommandIndex msg) env else Inr s1)))"

text \<open>
  A turn of \<^verbatim>\<open>applyLoop\<close> that receives from the apply channel, and the turn of the raft
  applier that feeds it. Leaving the loop on the closed channel changes nothing.
\<close>

definition applyLoop_turn ::
  "('b, 'p) ServerIO \<Rightarrow> (nat \<Rightarrow> int) \<Rightarrow> ('b, 'p) Server \<Rightarrow> ('b, 'p) Server outcome" where
  "applyLoop_turn io clock s =
     (case sv_applyCh s of
        [] \<Rightarrow> Inr s
      | msg # rest \<Rightarrow> apply_msg io clock (s\<lparr>sv_applyCh := rest\<rparr>) msg)"

definition applier_turn :: "('b, 'p) Server \<Rightarrow> ('b, 'p) Server" where
  "applier_turn s =
     (case applier_step (sv_raft s) of
        (rf, msgs) \<Rightarrow> s\<lparr>sv_raft := rf, sv_applyCh := sv_applyCh s @ msgs\<rparr>)"

section \<open>Start and stop\<close>

definition NewServer ::
  "('b, 'p) ServerIO \<Rightarrow> int \<Rightarrow> 'p Raft \<Rightarrow> 'b KVStore \<Rightarrow> ApplyMsg list \<Rightarrow> ('b, 'p) Server outcome" where
  "NewServer io i rf store applyCh =
     (let s = \<lparr>sv_id = i, sv_raft = rf, sv_store = store, sv_applyCh = applyCh, sv_closeCh = False,
               sv_waitCh = Map.empty, sv_entries = Map.empty, sv_nextEntry = 0,
               sv_LastResult = Map.empty, sv_clientLastSeq = Map.empty,
               sv_clientLastResult = Map.empty, sv_maxraftstate = 100, sv_watchers = Map.empty\<rparr>;
          snap = SnapshotBytes rf
      in if length snap > 0 then restoreSnapshot io s snap else Inr s)"

text \<open>A turn of the goroutine that follows the role of the node.\<close>

definition role_turn :: "('b, 'p) ServerIO \<Rightarrow> ('b, 'p) Server \<Rightarrow> ('b, 'p) Server" where
  "role_turn io s =
     (case rf_roleCh (sv_raft s) of
        [] \<Rightarrow> s
      | event # rest \<Rightarrow>
          (let s1 = s\<lparr>sv_raft := (sv_raft s)\<lparr>rf_roleCh := rest\<rparr>\<rparr>
           in if \<not> re_IsLeader event then clearWaitCh io ErrNotLeader s1 else s1))"

text \<open>\<^verbatim>\<open>closeOnce\<close> makes the second call return at once.\<close>

definition Server_Close :: "('b, 'p) ServerIO \<Rightarrow> ('b, 'p) Server \<Rightarrow> ('b, 'p) Server" where
  "Server_Close io s =
     (if sv_closeCh s then s
      else (let s1 = clearWaitCh io ErrClosed (s\<lparr>sv_closeCh := True\<rparr>)
            in s1\<lparr>sv_store := KVStore_Close (sv_store s1)\<rparr>))"

definition addWatcher :: "('b, 'p) Server \<Rightarrow> watcher \<Rightarrow> ('b, 'p) Server" where
  "addWatcher s w =
     s\<lparr>sv_watchers := (sv_watchers s)(wt_key w \<mapsto>
         (case sv_watchers s (wt_key w) of None \<Rightarrow> [] | Some ws \<Rightarrow> ws) @ [w])\<rparr>"

end
