(* ===== verification/KVHandlers.thy ===== *)
theory KVHandlers
  imports KVServer
begin

text \<open>
  The request handlers of \<^verbatim>\<open>server.go\<close>, the lease reaper, and the gRPC adapter
  (\<^verbatim>\<open>rpc_adapter.go\<close>) in front of them.

  A \<open>schedule\<close> fixes what a handler cannot know: \<open>sch_other k\<close> is what the other goroutines do
  to the server before the handler's section \<open>k\<close>, and the remaining fields say how its waits
  end (the select of \<^verbatim>\<open>submit\<close>, the confirmation of a read, the number of polls of
  \<^verbatim>\<open>LastApplied\<close> before the context ends).
\<close>

section \<open>Submitting a command\<close>

datatype wake = Notified | ServerClosed | ContextDone go_error | TimedOut

record ('b, 'p) schedule =
  sch_other :: "nat \<Rightarrow> ('b, 'p) Server \<Rightarrow> ('b, 'p) Server"
  sch_wake :: wake
  sch_confirmed :: bool
  sch_polls :: nat
  sch_ctx :: go_error

text \<open>Up to the call of \<^verbatim>\<open>Start\<close>: the index of the new log entry, or why there is none.\<close>

definition submit_start ::
  "('b, 'p) ServerIO \<Rightarrow> ('b, 'p) Server \<Rightarrow> Command \<Rightarrow> ('b, 'p) Server \<times> (go_error + int)" where
  "submit_start io s env =
     (if sv_closeCh s then (s, Inl ErrClosed)
      else
        (case Encode (sio_MarshalCommand io) (Some env) of
           Inl err \<Rightarrow> (s, Inl err)
         | Inr data \<Rightarrow>
             (case Start (sio_raft io) (sv_raft s) data of
                (rf, indexRaft, _, isLeader) \<Rightarrow>
                  let s1 = s\<lparr>sv_raft := rf\<rparr>
                  in if \<not> isLeader then (s1, Inl ErrNotLeader) else (s1, Inr (change indexRaft)))))"

definition new_waitEntry :: "Command \<Rightarrow> waitEntry" where
  "new_waitEntry env =
     \<lparr>we_Notify = False, we_ClientID = Command_ClientID env, we_Seq = Command_Seq env,
      we_Kind = c_Kind env, we_Result = zero_Result\<rparr>"

text \<open>The critical section: a result that is there already, or the entry to wait on.\<close>

definition submit_register ::
  "('b, 'p) Server \<Rightarrow> int \<Rightarrow> Command \<Rightarrow> ('b, 'p) Server \<times> (Result + wait_ref)" where
  "submit_register s index env =
     (let ch = new_waitEntry env; r = sv_nextEntry s;
          s1 = s\<lparr>sv_waitCh := (sv_waitCh s)(index \<mapsto> r), sv_entries := (sv_entries s)(r \<mapsto> ch),
                 sv_nextEntry := r + 1\<rparr>
      in case sv_LastResult s index of
           Some res \<Rightarrow>
             if match ch env then (s\<lparr>sv_LastResult := (sv_LastResult s)(index := None)\<rparr>, Inl res)
             else (s1, Inr r)
         | None \<Rightarrow> (s1, Inr r))"

text \<open>A case of the select is ready.\<close>

definition wake_ready :: "('b, 'p) Server \<Rightarrow> wait_ref \<Rightarrow> wake \<Rightarrow> bool" where
  "wake_ready s r w =
     (case w of
        Notified \<Rightarrow> (case sv_entries s r of None \<Rightarrow> False | Some ch \<Rightarrow> we_Notify ch)
      | ServerClosed \<Rightarrow> sv_closeCh s
      | ContextDone _ \<Rightarrow> True
      | TimedOut \<Rightarrow> True)"

definition submit_finish ::
  "('b, 'p) Server \<Rightarrow> int \<Rightarrow> wait_ref \<Rightarrow> wake \<Rightarrow> ('b, 'p) Server \<times> Result \<times> go_error option" where
  "submit_finish s index r w =
     (let s1 = s\<lparr>sv_waitCh := (sv_waitCh s)(index := None)\<rparr>
      in case w of
           Notified \<Rightarrow>
             (let result = (case sv_entries s r of None \<Rightarrow> zero_Result | Some ch \<Rightarrow> we_Result ch)
              in (s, result, res_Err result))
         | ServerClosed \<Rightarrow> (s1, zero_Result, Some ErrClosed)
         | ContextDone err \<Rightarrow> (s1, zero_Result, Some err)
         | TimedOut \<Rightarrow> (s1, zero_Result, Some ErrTimeout))"

definition submit ::
  "('b, 'p) ServerIO \<Rightarrow> ('b, 'p) schedule \<Rightarrow> ('b, 'p) Server \<Rightarrow> Command \<Rightarrow>
     (('b, 'p) Server \<times> Result \<times> go_error option) option" where
  "submit io sch s env =
     (case submit_start io s env of
        (s1, Inl err) \<Rightarrow> Some (s1, zero_Result, Some err)
      | (s1, Inr index) \<Rightarrow>
          (case submit_register (sch_other sch 0 s1) index env of
             (s2, Inl res) \<Rightarrow> Some (s2, res, res_Err res)
           | (s2, Inr r) \<Rightarrow>
               (let s3 = sch_other sch 1 s2
                in if wake_ready s3 r (sch_wake sch) then Some (submit_finish s3 index r (sch_wake sch))
                   else None)))"

section \<open>Writes\<close>

text \<open>\<^verbatim>\<open>resp.Err\<close> is set when \<^verbatim>\<open>submit\<close> returns an error.\<close>

definition err_text :: "go_error option \<Rightarrow> gostring" where
  "err_text err = (case err of None \<Rightarrow> [] | Some e \<Rightarrow> Error_text e)"

definition put_command :: "PutRequest \<Rightarrow> Command" where
  "put_command req = zero_Command\<lparr>c_Kind := KindKV, c_KV := Some
     \<lparr>kc_Type = CmdPut, kc_Key = pq_Key req, kc_Value = pq_Value req, kc_ClientID = pq_ClientID req,
      kc_Seq = pq_Seq req, kc_Rev = 0, kc_LeaseID = pq_LeaseID req\<rparr>\<rparr>"

definition Put ::
  "('b, 'p) ServerIO \<Rightarrow> ('b, 'p) schedule \<Rightarrow> ('b, 'p) Server \<Rightarrow> PutRequest option \<Rightarrow>
     (('b, 'p) Server \<times> PutResponse \<times> go_error option) option outcome" where
  "Put io sch s req =
     (case req of
        None \<Rightarrow> Inl NilPointer
      | Some q \<Rightarrow> Inr (map_option (\<lambda>(s1, result, err).
          (s1, \<lparr>pp_Revision = (case res_Rev result of None \<Rightarrow> 0 | Some rv \<Rightarrow> Main rv),
                pp_Err = err_text err\<rparr>, err)) (submit io sch s (put_command q))))"

definition delete_command :: "DeleteRequest \<Rightarrow> Command" where
  "delete_command req = zero_Command\<lparr>c_Kind := KindKV, c_KV := Some
     \<lparr>kc_Type = CmdDelete, kc_Key = dq_Key req, kc_Value = [], kc_ClientID = dq_ClientID req,
      kc_Seq = dq_Seq req, kc_Rev = 0, kc_LeaseID = dq_LeaseID req\<rparr>\<rparr>"

definition Delete ::
  "('b, 'p) ServerIO \<Rightarrow> ('b, 'p) schedule \<Rightarrow> ('b, 'p) Server \<Rightarrow> DeleteRequest option \<Rightarrow>
     (('b, 'p) Server \<times> DeleteResponse \<times> go_error option) option outcome" where
  "Delete io sch s req =
     (case req of
        None \<Rightarrow> Inl NilPointer
      | Some q \<Rightarrow> Inr (map_option (\<lambda>(s1, result, err).
          (s1, \<lparr>dp_Revision = (case res_Rev result of None \<Rightarrow> 0 | Some rv \<Rightarrow> Main rv),
                dp_Deleted = (res_Rev result \<noteq> None), dp_Err = err_text err\<rparr>, err))
          (submit io sch s (delete_command q))))"

text \<open>A nil request becomes a command without a transaction.\<close>

definition txn_command :: "TxnRequest option \<Rightarrow> Command" where
  "txn_command req = zero_Command\<lparr>c_Kind := KindTxn, c_Txn := toTxnCommand req\<rparr>"

definition Txn_handler ::
  "('b, 'p) ServerIO \<Rightarrow> ('b, 'p) schedule \<Rightarrow> ('b, 'p) Server \<Rightarrow> TxnRequest option \<Rightarrow>
     (('b, 'p) Server \<times> TxnResponse \<times> go_error option) option outcome" where
  "Txn_handler io sch s req =
     Inr (map_option (\<lambda>(s1, result, err).
       (s1, \<lparr>tp_Succeeded = res_TxnSucceeded result, tp_Results = cloneKeyValues (res_TxnResults result),
             tp_Err = err_text err\<rparr>, err)) (submit io sch s (txn_command req)))"

definition lease_grant_command :: "LeaseGrantRequest \<Rightarrow> Command" where
  "lease_grant_command req = zero_Command\<lparr>c_Kind := KindLeaseGrant, c_LeaseGrant := Some
     \<lparr>lg_TTL = lgq_TTL req, lg_ClientID = lgq_ClientID req, lg_Seq = lgq_Seq req\<rparr>\<rparr>"

definition LeaseGrant_handler ::
  "('b, 'p) ServerIO \<Rightarrow> ('b, 'p) schedule \<Rightarrow> ('b, 'p) Server \<Rightarrow> LeaseGrantRequest option \<Rightarrow>
     (('b, 'p) Server \<times> LeaseGrantResponse \<times> go_error option) option outcome" where
  "LeaseGrant_handler io sch s req =
     (case req of
        None \<Rightarrow> Inl NilPointer
      | Some q \<Rightarrow> Inr (map_option (\<lambda>(s1, result, err).
          (s1, \<lparr>lgp_ID = res_LeaseID result, lgp_TTL = res_LeaseTTL result, lgp_Err = err_text err\<rparr>, err))
          (submit io sch s (lease_grant_command q))))"

definition lease_revoke_command :: "LeaseRevokeRequest \<Rightarrow> Command" where
  "lease_revoke_command req = zero_Command\<lparr>c_Kind := KindLeaseRevoke, c_LeaseRevoke := Some
     \<lparr>lr_ID = lrq_ID req, lr_ClientID = lrq_ClientID req, lr_Seq = lrq_Seq req\<rparr>\<rparr>"

definition LeaseRevoke_handler ::
  "('b, 'p) ServerIO \<Rightarrow> ('b, 'p) schedule \<Rightarrow> ('b, 'p) Server \<Rightarrow> LeaseRevokeRequest option \<Rightarrow>
     (('b, 'p) Server \<times> LeaseRevokeResponse \<times> go_error option) option outcome" where
  "LeaseRevoke_handler io sch s req =
     (case req of
        None \<Rightarrow> Inl NilPointer
      | Some q \<Rightarrow> Inr (map_option (\<lambda>(s1, result, err). (s1, \<lparr>lrp_Err = err_text err\<rparr>, err))
          (submit io sch s (lease_revoke_command q))))"

definition lease_keepalive_command :: "LeaseKeepAliveRequest \<Rightarrow> Command" where
  "lease_keepalive_command req = zero_Command\<lparr>c_Kind := KindLeaseKeepAlive, c_LeaseKeepAlive := Some
     \<lparr>lk_ID = lkq_ID req, lk_ClientID = lkq_ClientID req, lk_Seq = lkq_Seq req\<rparr>\<rparr>"

definition LeaseKeepAlive_handler ::
  "('b, 'p) ServerIO \<Rightarrow> ('b, 'p) schedule \<Rightarrow> ('b, 'p) Server \<Rightarrow> LeaseKeepAliveRequest option \<Rightarrow>
     (('b, 'p) Server \<times> LeaseKeepAliveResponse \<times> go_error option) option outcome" where
  "LeaseKeepAlive_handler io sch s req =
     (case req of
        None \<Rightarrow> Inl NilPointer
      | Some q \<Rightarrow> Inr (map_option (\<lambda>(s1, result, err).
          (s1, \<lparr>lkp_ID = res_LeaseID result, lkp_TTL = res_LeaseTTL result, lkp_Err = err_text err\<rparr>, err))
          (submit io sch s (lease_keepalive_command q))))"

text \<open>
  One tick of \<^verbatim>\<open>leaseReaperLoop\<close>; each submission has its own schedule. \<^const>\<open>None\<close> means
  that a submission has not returned.
\<close>

definition reaper_command :: "int \<Rightarrow> Command" where
  "reaper_command leaseID = zero_Command\<lparr>c_Kind := KindLeaseRevoke, c_LeaseRevoke := Some
     \<lparr>lr_ID = leaseID, lr_ClientID = internalLeaseRevokeClientID leaseID, lr_Seq = 1\<rparr>\<rparr>"

fun reaper_loop ::
  "('b, 'p) ServerIO \<Rightarrow> (int \<Rightarrow> ('b, 'p) schedule) \<Rightarrow> ('b, 'p) Server \<Rightarrow> int list \<Rightarrow>
     ('b, 'p) Server option" where
  "reaper_loop io sch s [] = Some s"
| "reaper_loop io sch s (leaseID # expired) =
     (case submit io (sch leaseID) s (reaper_command leaseID) of
        None \<Rightarrow> None
      | Some (s1, _, err) \<Rightarrow>
          if err = Some ErrNotLeader then Some s1 else reaper_loop io sch s1 expired)"

definition reaper_tick ::
  "('b, 'p) ServerIO \<Rightarrow> (int \<Rightarrow> ('b, 'p) schedule) \<Rightarrow> int \<Rightarrow> ('b, 'p) Server \<Rightarrow>
     ('b, 'p) Server option" where
  "reaper_tick io sch now s =
     (if \<not> snd (GetState (sv_raft s)) then Some s
      else reaper_loop io sch s (ExpiredLeaseIDs (sio_lease_order io) (sv_store s) now 1))"

section \<open>Reads\<close>

datatype gate = GateNotLeader | GateContext go_error | GateApplied

text \<open>The loop on \<^verbatim>\<open>LastApplied\<close>; the context is done after the given number of polls.\<close>

fun wait_applied ::
  "('b, 'p) schedule \<Rightarrow> nat \<Rightarrow> nat \<Rightarrow> ('b, 'p) Server \<Rightarrow> int \<Rightarrow> ('b, 'p) Server \<times> gate" where
  "wait_applied sch k 0 s index =
     (if LastApplied (sv_raft s) \<ge> index then (s, GateApplied) else (s, GateContext (sch_ctx sch)))"
| "wait_applied sch k (Suc n) s index =
     (if LastApplied (sv_raft s) \<ge> index then (s, GateApplied)
      else wait_applied sch (k + 1) n (sch_other sch k s) index)"

text \<open>
  What \<^verbatim>\<open>Get\<close> and \<^verbatim>\<open>Range\<close> do before they lock: the role, the read index, and the wait until
  it is applied. A confirmation needs a token in the channel of the pending read.
\<close>

definition read_gate :: "('b, 'p) schedule \<Rightarrow> ('b, 'p) Server \<Rightarrow> ('b, 'p) Server \<times> gate" where
  "read_gate sch s =
     (if \<not> snd (GetState (sv_raft s)) then (s, GateNotLeader)
      else
        (case ReadIndex_begin (sv_raft s) of
           (rf, None) \<Rightarrow> (s\<lparr>sv_raft := rf\<rparr>, GateNotLeader)
         | (rf, Some it) \<Rightarrow>
             (let s1 = sch_other sch 0 (s\<lparr>sv_raft := rf\<rparr>);
                  token = (case rf_pendingReadCh (sv_raft s1) of None \<Rightarrow> False | Some n \<Rightarrow> 0 < n)
              in case (if sch_confirmed sch \<and> token then ReadIndex_confirmed (sv_raft s1) it
                       else ReadIndex_timeout (sv_raft s1)) of
                   (rf1, None) \<Rightarrow> (s1\<lparr>sv_raft := rf1\<rparr>, GateNotLeader)
                 | (rf1, Some index) \<Rightarrow>
                     wait_applied sch 1 (sch_polls sch) (s1\<lparr>sv_raft := rf1\<rparr>) index)))"

definition Get_locked ::
  "('b, 'p) ServerIO \<Rightarrow> ('b, 'p) Server \<Rightarrow> GetRequest \<Rightarrow> (('b, 'p) Server \<times> GetResponse) outcome" where
  "Get_locked io s req =
     (let lastSeq = last_seq s (gq_ClientID req)
      in if gq_Seq req < lastSeq then Inr (s, zero_GetResponse)
         else if gq_Seq req = lastSeq then
           (let result = last_result s (gq_ClientID req)
            in case res_Rev result of
                 None \<Rightarrow> Inl NilPointer
               | Some rv \<Rightarrow> Inr (s, \<lparr>gp_Value = res_Value result, gp_Revision = Main rv,
                                   gp_Found = res_Found result, gp_Err = []\<rparr>))
         else
           (case KVStore_Get (sio_backend io) (sv_store s) (gq_Key req) (gq_Revision req) of
              (v, rv, ok) \<Rightarrow>
                (let valCopy = (if ok then v else []);
                     cached = zero_Result\<lparr>res_Rev := Some (Revision rv 0), res_Value := valCopy,
                                res_Found := ok\<rparr>
                 in Inr (s\<lparr>sv_clientLastSeq := (sv_clientLastSeq s)(gq_ClientID req \<mapsto> gq_Seq req),
                           sv_clientLastResult := (sv_clientLastResult s)(gq_ClientID req \<mapsto> cached)\<rparr>,
                         \<lparr>gp_Value = (if ok then v else []), gp_Revision = rv, gp_Found = ok,
                          gp_Err = []\<rparr>))))"

text \<open>A nil response is \<^const>\<open>None\<close>.\<close>

definition Get ::
  "('b, 'p) ServerIO \<Rightarrow> ('b, 'p) schedule \<Rightarrow> ('b, 'p) Server \<Rightarrow> GetRequest option \<Rightarrow>
     (('b, 'p) Server \<times> GetResponse option \<times> go_error option) outcome" where
  "Get io sch s req =
     (case read_gate sch s of
        (s1, GateNotLeader) \<Rightarrow> Inr (s1, None, Some ErrNotLeader)
      | (s1, GateContext err) \<Rightarrow>
          Inr (s1, Some (zero_GetResponse\<lparr>gp_Err := Error_text err\<rparr>), Some err)
      | (s1, GateApplied) \<Rightarrow>
          (case req of
             None \<Rightarrow> Inl NilPointer
           | Some q \<Rightarrow>
               (case Get_locked io (sch_other sch (sch_polls sch + 1) s1) q of
                  Inl p \<Rightarrow> Inl p
                | Inr (s2, resp) \<Rightarrow> Inr (s2, Some resp, None))))"

definition Range_locked ::
  "('b, 'p) ServerIO \<Rightarrow> ('b, 'p) Server \<Rightarrow> RangeRequest \<Rightarrow> ('b, 'p) Server \<times> RangeResponse" where
  "Range_locked io s req =
     (let lastSeq = last_seq s (rq_ClientID req)
      in if rq_Seq req < lastSeq then (s, zero_RangeResponse)
         else if rq_Seq req = lastSeq then
           (let result = last_result s (rq_ClientID req)
            in (s, zero_RangeResponse
                 \<lparr>rp_Revision := (case res_Rev result of None \<Rightarrow> 0 | Some rv \<Rightarrow> Main rv),
                  rp_KVs := cloneKeyValues (res_RangeResults result)\<rparr>))
         else
           (let readRev = (if rq_Revision req = 0 then KVStore_CurrentRevision (sio_backend io) (sv_store s)
                           else rq_Revision req);
                kvs = fromMVCCKeyValues
                  (if rq_Prefix req then
                     KVStore_PrefixRange (sio_backend io) (sv_store s) (rq_Key req) readRev
                   else KVStore_Range (sio_backend io) (sv_store s) (rq_Key req) (rq_Key req @ [0]) readRev);
                cached = zero_Result\<lparr>res_Rev := Some (Revision readRev 0),
                           res_RangeResults := cloneKeyValues kvs\<rparr>
            in (s\<lparr>sv_clientLastSeq := (sv_clientLastSeq s)(rq_ClientID req \<mapsto> rq_Seq req),
                  sv_clientLastResult := (sv_clientLastResult s)(rq_ClientID req \<mapsto> cached)\<rparr>,
                zero_RangeResponse\<lparr>rp_Revision := readRev, rp_KVs := cloneKeyValues kvs\<rparr>)))"

definition Range ::
  "('b, 'p) ServerIO \<Rightarrow> ('b, 'p) schedule \<Rightarrow> ('b, 'p) Server \<Rightarrow> RangeRequest option \<Rightarrow>
     (('b, 'p) Server \<times> RangeResponse option \<times> go_error option) outcome" where
  "Range io sch s req =
     (case read_gate sch s of
        (s1, GateNotLeader) \<Rightarrow> Inr (s1, None, Some ErrNotLeader)
      | (s1, GateContext err) \<Rightarrow>
          Inr (s1, Some (zero_RangeResponse\<lparr>rp_Err := Error_text err\<rparr>), Some err)
      | (s1, GateApplied) \<Rightarrow>
          (case req of
             None \<Rightarrow> Inl NilPointer
           | Some q \<Rightarrow>
               (case Range_locked io (sch_other sch (sch_polls sch + 1) s1) q of
                  (s2, resp) \<Rightarrow> Inr (s2, Some resp, None))))"

section \<open>The gRPC adapter\<close>

text \<open>An error of the handler overwrites the message's error text; gRPC itself sees none.\<close>

definition RPCAdapter_Put ::
  "('b, 'p) ServerIO \<Rightarrow> ('b, 'p) schedule \<Rightarrow> ('b, 'p) Server \<Rightarrow> pb_PutRequest option \<Rightarrow>
     (('b, 'p) Server \<times> pb_PutResponse) option outcome" where
  "RPCAdapter_Put io sch s req =
     map_sum id (map_option (\<lambda>(s1, resp, err).
       (let out = toPBPutResponse (Some resp)
        in (s1, case err of None \<Rightarrow> out | Some e \<Rightarrow> out\<lparr>bpp_Err := Error_text e\<rparr>))))
       (Put io sch s (fromPBPutRequest req))"

definition RPCAdapter_Get ::
  "('b, 'p) ServerIO \<Rightarrow> ('b, 'p) schedule \<Rightarrow> ('b, 'p) Server \<Rightarrow> pb_GetRequest option \<Rightarrow>
     (('b, 'p) Server \<times> pb_GetResponse) outcome" where
  "RPCAdapter_Get io sch s req =
     map_sum id (\<lambda>(s1, resp, err).
       (let out = toPBGetResponse resp
        in (s1, case err of None \<Rightarrow> out | Some e \<Rightarrow> out\<lparr>bgp_Err := Error_text e\<rparr>)))
       (Get io sch s (fromPBGetRequest req))"

definition RPCAdapter_Delete ::
  "('b, 'p) ServerIO \<Rightarrow> ('b, 'p) schedule \<Rightarrow> ('b, 'p) Server \<Rightarrow> pb_DeleteRequest option \<Rightarrow>
     (('b, 'p) Server \<times> pb_DeleteResponse) option outcome" where
  "RPCAdapter_Delete io sch s req =
     map_sum id (map_option (\<lambda>(s1, resp, err).
       (let out = toPBDeleteResponse (Some resp)
        in (s1, case err of None \<Rightarrow> out | Some e \<Rightarrow> out\<lparr>bdp_Err := Error_text e\<rparr>))))
       (Delete io sch s (fromPBDeleteRequest req))"

definition RPCAdapter_Txn ::
  "('b, 'p) ServerIO \<Rightarrow> ('b, 'p) schedule \<Rightarrow> ('b, 'p) Server \<Rightarrow> pb_TxnRequest option \<Rightarrow>
     (('b, 'p) Server \<times> pb_TxnResponse) option outcome" where
  "RPCAdapter_Txn io sch s req =
     map_sum id (map_option (\<lambda>(s1, resp, err).
       (let out = toPBTxnResponse (Some resp)
        in (s1, case err of None \<Rightarrow> out | Some e \<Rightarrow> out\<lparr>btp_Err := Error_text e\<rparr>))))
       (Txn_handler io sch s (fromPBTxnRequest req))"

definition RPCAdapter_LeaseGrant ::
  "('b, 'p) ServerIO \<Rightarrow> ('b, 'p) schedule \<Rightarrow> ('b, 'p) Server \<Rightarrow> pb_LeaseGrantRequest option \<Rightarrow>
     (('b, 'p) Server \<times> pb_LeaseGrantResponse) option outcome" where
  "RPCAdapter_LeaseGrant io sch s req =
     map_sum id (map_option (\<lambda>(s1, resp, err).
       (let out = toPBLeaseGrantResponse (Some resp)
        in (s1, case err of None \<Rightarrow> out | Some e \<Rightarrow> out\<lparr>blgp_Err := Error_text e\<rparr>))))
       (LeaseGrant_handler io sch s (fromPBLeaseGrantRequest req))"

definition RPCAdapter_LeaseRevoke ::
  "('b, 'p) ServerIO \<Rightarrow> ('b, 'p) schedule \<Rightarrow> ('b, 'p) Server \<Rightarrow> pb_LeaseRevokeRequest option \<Rightarrow>
     (('b, 'p) Server \<times> pb_LeaseRevokeResponse) option outcome" where
  "RPCAdapter_LeaseRevoke io sch s req =
     map_sum id (map_option (\<lambda>(s1, resp, err).
       (let out = toPBLeaseRevokeResponse (Some resp)
        in (s1, case err of None \<Rightarrow> out | Some e \<Rightarrow> out\<lparr>blrp_Err := Error_text e\<rparr>))))
       (LeaseRevoke_handler io sch s (fromPBLeaseRevokeRequest req))"

text \<open>One request of the \<^verbatim>\<open>LeaseKeepAlive\<close> stream.\<close>

definition RPCAdapter_LeaseKeepAlive ::
  "('b, 'p) ServerIO \<Rightarrow> ('b, 'p) schedule \<Rightarrow> ('b, 'p) Server \<Rightarrow> pb_LeaseKeepAliveRequest option \<Rightarrow>
     (('b, 'p) Server \<times> pb_LeaseKeepAliveResponse) option outcome" where
  "RPCAdapter_LeaseKeepAlive io sch s req =
     map_sum id (map_option (\<lambda>(s1, resp, err).
       (let out = toPBLeaseKeepAliveResponse (Some resp)
        in (s1, case err of None \<Rightarrow> out | Some e \<Rightarrow> out\<lparr>blkp_Err := Error_text e\<rparr>))))
       (LeaseKeepAlive_handler io sch s (fromPBLeaseKeepAliveRequest req))"

definition RPCAdapter_Range ::
  "('b, 'p) ServerIO \<Rightarrow> ('b, 'p) schedule \<Rightarrow> ('b, 'p) Server \<Rightarrow> pb_RangeRequest option \<Rightarrow>
     (('b, 'p) Server \<times> pb_RangeResponse) outcome" where
  "RPCAdapter_Range io sch s req =
     map_sum id (\<lambda>(s1, resp, err).
       (let out = toPBRangeResponse resp
        in (s1, case err of None \<Rightarrow> out | Some e \<Rightarrow> out\<lparr>brp_Err := Error_text e\<rparr>)))
       (Range io sch s (fromPBRangeRequest req))"

text \<open>
  \<^verbatim>\<open>Watch\<close>: opening the watcher, with the status code of a refusal; one event of its stream;
  and the deferred cancellation.
\<close>

datatype watch_status = FailedPrecondition gostring | Internal gostring

definition RPCAdapter_Watch_open ::
  "('b, 'p) ServerIO \<Rightarrow> ('b, 'p) Server \<Rightarrow> pb_WatchRequest \<Rightarrow>
     ('b, 'p) Server \<times> (watch_status + int \<times> Event list)" where
  "RPCAdapter_Watch_open io s req =
     (case KVStore_Watch (sio_backend io) (sv_store s) (bwq_Key req) (bwq_Revision req) (bwq_Prefix req) of
        (st, Inl err) \<Rightarrow>
          (s\<lparr>sv_store := st\<rparr>,
           Inl (if err = ErrCompacted then FailedPrecondition (Error_text err)
                else Internal (Error_text err)))
      | (st, Inr w) \<Rightarrow> (s\<lparr>sv_store := st\<rparr>, Inr w))"

definition RPCAdapter_Watch_send :: "Event \<Rightarrow> pb_WatchResponse" where
  "RPCAdapter_Watch_send e =
     (let ev = convert_event e
      in \<lparr>bwp_Events = [toPBEvent (Some ev)], bwp_Revision = kev_Rev ev, bwp_Err = []\<rparr>)"

definition RPCAdapter_Watch_end :: "('b, 'p) Server \<Rightarrow> int \<Rightarrow> ('b, 'p) Server outcome" where
  "RPCAdapter_Watch_end s i = map_sum id (\<lambda>st. s\<lparr>sv_store := st\<rparr>) (CancelWatcher (sv_store s) i)"

end
