(* ===== verification/KVCompact.thy ===== *)
theory KVCompact
  imports KVStore
begin

text \<open>
  \<^verbatim>\<open>internal/storage/mvcc/compact.go\<close>: dropping what no read above the compaction point
  can see. The store refines the same history before and after, so every read that is
  still answered gives the same answer.
\<close>

section \<open>Operations\<close>

definition rewriteCompactedHistory ::
  "'b Backend \<Rightarrow> 'b \<Rightarrow> gostring \<Rightarrow> ValueRevision list \<Rightarrow> int \<Rightarrow> 'b" where
  "rewriteCompactedHistory be b key versions firstAfter =
     (if firstAfter = 0 then b
      else
        (let keepFrom = (if firstAfter > 0 then firstAfter - 1 else int (length versions) - 1);
             kept = cloneValueRevisions (drop (nat keepFrom) versions)
         in be_SetRevisions be b key kept))"

text \<open>The loop over all keys.\<close>

fun compact_loop :: "'b Backend \<Rightarrow> int \<Rightarrow> 'b \<Rightarrow> gostring list \<Rightarrow> 'b" where
  "compact_loop be rv b [] = b"
| "compact_loop be rv b (key # keys) =
     (case be_GetRevisions be b key of
        None \<Rightarrow> compact_loop be rv b keys
      | Some versions \<Rightarrow>
          if length versions \<le> 1 then compact_loop be rv b keys
          else compact_loop be rv
                 (rewriteCompactedHistory be b key versions (firstRevisionAfter versions rv)) keys)"

definition KVStore_Compact :: "'b Backend \<Rightarrow> 'b KVStore \<Rightarrow> int \<Rightarrow> 'b KVStore \<times> go_error option" where
  "KVStore_Compact be s rv =
     (let b = s_backend s;
          compactRev = be_CompactRev be b;
          currentRev = be_CurrentRev be b
      in if rv \<le> compactRev \<or> rv > currentRev then (s, Some ErrCompacted)
         else
           (let b1 = compact_loop be rv b (be_RangeKeys be b [] []);
                newEvents = filter (\<lambda>e. emain e > rv) (be_Events be b1);
                b2 = be_SetCompactRev be (be_SetEvents be b1 newEvents) rv
            in (s\<lparr>s_backend := b2\<rparr>, None)))"

section \<open>What is left of a key\<close>

definition compacted :: "int \<Rightarrow> ValueRevision list \<Rightarrow> ValueRevision list" where
  "compacted rv vs =
     (let n = length (upto_rev vs rv) in if n = 0 then vs else drop (n - 1) vs)"

lemma compacted_nonempty [simp]: "compacted rv vs = [] \<longleftrightarrow> vs = []"
proof -
  have le: "length (upto_rev vs rv) \<le> length vs" by (rule length_filter_le)
  have "length (upto_rev vs rv) - 1 < length vs" if "upto_rev vs rv \<noteq> []"
    using that le by (metis diff_less length_greater_0_conv less_le_trans zero_less_one)
  then show ?thesis
    by (cases "upto_rev vs rv = []") (auto simp: compacted_def Let_def not_less [symmetric])
qed

lemma compacted_retained:
  assumes "versions_sorted vs"
  shows "retained rv vs (compacted rv vs)"
proof (cases "length (upto_rev vs rv) = 0")
  case True
  then show ?thesis by (simp add: compacted_def retained_refl)
next
  case False
  let ?n = "length (upto_rev vs rv) - 1"
  have "vmain (vs ! ?n) \<le> rv" using upto_rev_prefix(2) [OF assms, of ?n rv] False by simp
  moreover have "?n < length vs" using False length_filter_le [of "\<lambda>v. vmain v \<le> rv" vs] by linarith
  ultimately show ?thesis
    using False by (auto simp: compacted_def retained_def Let_def)
qed

text \<open>Compaction keeps at most one version not above the compaction point.\<close>

lemma compacted_upto: "versions_sorted vs \<Longrightarrow> length (upto_rev (compacted rv vs) rv) \<le> 1"
proof -
  assume s: "versions_sorted vs"
  let ?u = "upto_rev vs rv"
  have "vs = ?u @ drop (length ?u) vs" using upto_rev_prefix(1) [OF s, of rv] by (metis append_take_drop_id)
  then have "upto_rev (drop (length ?u - 1) vs) rv =
      upto_rev (drop (length ?u - 1) ?u) rv @ upto_rev (drop (length ?u - (length ?u - 1) - 1) []) rv @
      upto_rev (drop (length ?u - 1 - length ?u) (drop (length ?u) vs)) rv"
    by (metis append_Nil drop_Nil drop_append filter.simps(1) filter_append)
  moreover have "upto_rev (drop (length ?u) vs) rv = []"
    using upto_rev_prefix(3) [OF s, where rv = rv]
    by (auto simp: filter_empty_conv in_set_conv_nth not_le)
  ultimately show ?thesis
    by (auto simp: compacted_def Let_def intro: order_trans [OF length_filter_le])
qed

lemma rewrite_compacted:
  assumes "versions_sorted vs" and "vs \<noteq> []"
  shows "rewriteCompactedHistory be b key vs (firstRevisionAfter vs rv) =
    (if upto_rev vs rv = [] then b else be_SetRevisions be b key (compacted rv vs))"
proof -
  have "upto_rev vs rv = vs \<Longrightarrow> length (upto_rev vs rv) = length vs" by simp
  then show ?thesis
    using assms
    by (auto simp: rewriteCompactedHistory_def firstRevisionAfter_eq [OF assms(1)] compacted_def
        Let_def nat_minus_as_int)
qed

lemma compacted_short:
  assumes "length vs \<le> 1"
  shows "compacted rv vs = vs"
proof -
  have "length (upto_rev vs rv) \<le> 1" using assms length_filter_le order_trans by blast
  then show ?thesis by (auto simp: compacted_def Let_def)
qed

context mvcc_backend
begin

lemma compact_loop_data:
  assumes "invar b" and "distinct keys"
    and "\<forall>k vs. bs_Data (st b) k = Some vs \<longrightarrow> vs \<noteq> [] \<and> versions_sorted vs"
  shows "invar (compact_loop be rv b keys) \<and>
    st (compact_loop be rv b keys) =
      (st b)\<lparr>bs_Data := (\<lambda>k. if k \<in> set keys then map_option (compacted rv) (bs_Data (st b) k)
                         else bs_Data (st b) k)\<rparr>"
  using assms
proof (induction keys arbitrary: b)
  case (Cons key keys)
  define b' where "b' = (case bs_Data (st b) key of None \<Rightarrow> b | Some versions \<Rightarrow>
      if length versions \<le> 1 then b
      else rewriteCompactedHistory be b key versions (firstRevisionAfter versions rv))"
  have loop: "compact_loop be rv b (key # keys) = compact_loop be rv b' keys"
    using Cons.prems(1) by (auto simp: b'_def split: option.splits)
  have b': "invar b' \<and> st b' =
      (st b)\<lparr>bs_Data := (bs_Data (st b))(key := map_option (compacted rv) (bs_Data (st b) key))\<rparr>"
  proof (cases "bs_Data (st b) key")
    case None
    then have "(bs_Data (st b))(key := None) = bs_Data (st b)" by (simp add: fun_upd_idem)
    with None Cons.prems(1) show ?thesis by (simp add: b'_def)
  next
    case (Some vs)
    then have vs: "vs \<noteq> []" "versions_sorted vs" using Cons.prems(3) by auto
    have idem: "compacted rv vs = vs \<Longrightarrow> (bs_Data (st b))(key := Some (compacted rv vs)) = bs_Data (st b)"
      using Some by (simp add: fun_upd_idem)
    have emp: "upto_rev vs rv = [] \<Longrightarrow> compacted rv vs = vs" by (simp add: compacted_def)
    show ?thesis
      using Some Cons.prems(1) idem emp vs
      by (auto simp: b'_def rewrite_compacted compacted_short)
  qed
  have "\<forall>k vs. bs_Data (st b') k = Some vs \<longrightarrow> vs \<noteq> [] \<and> versions_sorted vs"
    using b' Cons.prems(3) retained_sorted [OF compacted_retained] by (auto split: if_splits)
  then have IH: "invar (compact_loop be rv b' keys) \<and> st (compact_loop be rv b' keys) =
      (st b')\<lparr>bs_Data := (\<lambda>k. if k \<in> set keys then map_option (compacted rv) (bs_Data (st b') k)
                          else bs_Data (st b') k)\<rparr>"
    using Cons.IH [of b'] b' Cons.prems(2) by simp
  have "(\<lambda>k. if k \<in> set keys then map_option (compacted rv) (bs_Data (st b') k)
      else bs_Data (st b') k) = (\<lambda>k. if k \<in> set (key # keys)
      then map_option (compacted rv) (bs_Data (st b) k) else bs_Data (st b) k)"
    using b' Cons.prems(2) by (auto simp: fun_eq_iff)
  with IH b' show ?case unfolding loop by simp
qed simp

lemma Compact_err:
  "inv_store H s \<Longrightarrow> rv \<le> bs_CompactRev (st (s_backend s)) \<or> int (length H) < rv \<Longrightarrow>
     KVStore_Compact be s rv = (s, Some ErrCompacted)"
  using invD [of H s] by (auto simp: KVStore_Compact_def)

lemma Compact_ok:
  assumes "inv_store H s" and "bs_CompactRev (st (s_backend s)) < rv" "rv \<le> int (length H)"
  obtains b where "KVStore_Compact be s rv = (s\<lparr>s_backend := b\<rparr>, None)"
    "inv_store H (s\<lparr>s_backend := b\<rparr>)" "bs_CompactRev (st b) = rv"
    "bs_Data (st b) = (\<lambda>k. map_option (compacted rv) (bs_Data (st (s_backend s)) k))"
proof -
  note D = invD [OF assms(1)]
  let ?b = "s_backend s"
  define b1 where "b1 = compact_loop be rv ?b (be_RangeKeys be ?b [] [])"
  define b where "b = be_SetCompactRev be (be_SetEvents be b1
      (filter (\<lambda>e. emain e > rv) (be_Events be b1))) rv"
  have fin: "finite (dom (bs_Data (st ?b)))" using state_ok [OF D(1)] by (simp add: state_ok_def)
  have "invar b1 \<and> st b1 = (st ?b)\<lparr>bs_Data := (\<lambda>k. if k \<in> set (be_RangeKeys be ?b [] [])
      then map_option (compacted rv) (bs_Data (st ?b) k) else bs_Data (st ?b) k)\<rparr>"
    unfolding b1_def
    by (rule compact_loop_data [OF D(1)])
      (use D(1) refines_nonempty [OF D(2)] refines_sorted [OF D(2)] in auto)
  moreover have "(\<lambda>k. if k \<in> set (be_RangeKeys be ?b [] [])
      then map_option (compacted rv) (bs_Data (st ?b) k) else bs_Data (st ?b) k) =
      (\<lambda>k. map_option (compacted rv) (bs_Data (st ?b) k))"
    using fin D(1) by (auto simp: fun_eq_iff dom_def)
  ultimately have b1: "invar b1"
    "st b1 = (st ?b)\<lparr>bs_Data := (\<lambda>k. map_option (compacted rv) (bs_Data (st ?b) k))\<rparr>"
    by simp_all
  have b: "invar b" "st b = (st ?b)\<lparr>bs_Data := (\<lambda>k. map_option (compacted rv) (bs_Data (st ?b) k)),
      bs_Events := filter (\<lambda>e. rv < emain e) (bs_Events (st ?b)), bs_CompactRev := rv\<rparr>"
    using b1 by (simp_all add: b_def)
  have "refines H (st b)"
    unfolding b(2)
    by (rule refines_compact [OF D(2)])
      (use assms(2,3) D(4) compacted_retained [OF refines_sorted [OF D(2)]]
        refines_nonempty [OF D(2)] in auto)
  then have "inv_store H (s\<lparr>s_backend := b\<rparr>)"
    using D(3) b(1) by (simp add: store_inv_def lease_ok_def)
  moreover have "KVStore_Compact be s rv = (s\<lparr>s_backend := b\<rparr>, None)"
    using assms(2,3) D(1,4) by (auto simp: KVStore_Compact_def Let_def b_def b1_def)
  ultimately show ?thesis using that b(2) by simp
qed

end

end
