(* ===== verification/StoreRun.thy ===== *)
theory StoreRun
  imports KVRange KVCompact KVTxn KVWatch KVSnapshot
begin

text \<open>
  The store on the in-memory backend as a transition system: one rule per public operation
  and per background step, in any order. Every step keeps the invariant of the data, the
  leases and the watchers and only appends to the history, so a revision that can still be
  read reads the same for ever.
\<close>

section \<open>Steps\<close>

definition mem_store :: "Event list \<Rightarrow> MemoryBackend KVStore \<Rightarrow> bool" where
  "mem_store H s \<longleftrightarrow> store_inv mem_inv MemoryBackend_SnapshotState H s \<and> watch_ok s"

definition NewKVStore :: "MemoryBackend KVStore" where
  "NewKVStore = NewKVStoreWithBackend NewMemoryBackend"

inductive store_step :: "MemoryBackend KVStore \<Rightarrow> MemoryBackend KVStore \<Rightarrow> bool" where
  put: "store_step s (fst (KVStore_Put memory_backend s now k v lid))"
| delete: "store_step s (fst (KVStore_Delete memory_backend s k))"
| txn: "KVStore_Txn memory_backend s clock t = Inr (s', r) \<Longrightarrow> store_step s s'"
| compact: "store_step s (fst (KVStore_Compact memory_backend s rv))"
| grant: "store_step s (fst (LeaseGrant s now ttl))"
| keepalive: "store_step s (fst (LeaseKeepAlive s now lid))"
| attach: "store_step s (fst (AttachKey s now k lid))"
| revoke: "range_order rng \<Longrightarrow> store_step s (fst (LeaseRevoke rng memory_backend s lid))"
| tick: "range_order rng \<Longrightarrow> store_step s (expiration_tick rng_id rng memory_backend s now)"
| watch: "store_step s (fst (KVStore_Watch memory_backend s k rv pre))"
| cancel: "CancelWatcher s i = Inr s' \<Longrightarrow> store_step s s'"
| backlog: "backlog_send s i e = Inr s' \<Longrightarrow> store_step s s'"
| recv: "store_step s (fst (watcher_recv s i))"
| dispatch: "range_order rng \<Longrightarrow> dispatcher_step rng s = Inr s' \<Longrightarrow> store_step s s'"
| close: "store_step s (KVStore_Close s)"

abbreviation store_steps :: "MemoryBackend KVStore \<Rightarrow> MemoryBackend KVStore \<Rightarrow> bool" where
  "store_steps \<equiv> store_step\<^sup>*\<^sup>*"

section \<open>Data operations leave the watchers alone\<close>

definition same_watch :: "'b KVStore \<Rightarrow> 'b KVStore \<Rightarrow> bool" where
  "same_watch s s' \<longleftrightarrow>
     s_heap s' = s_heap s \<and> s_watchers s' = s_watchers s \<and>
     s_prefixWatchers s' = s_prefixWatchers s \<and> s_watchersByID s' = s_watchersByID s \<and>
     s_nextWatcherID s' = s_nextWatcherID s"

lemma same_watch_refl [simp]: "same_watch s s"
  by (simp add: same_watch_def)

lemma same_watch_trans: "same_watch s t \<Longrightarrow> same_watch t u \<Longrightarrow> same_watch s u"
  by (simp add: same_watch_def)

lemma same_watch_ok: "same_watch s s' \<Longrightarrow> watch_ok s' = watch_ok s"
  unfolding same_watch_def by (rule watch_ok_cong) simp_all

lemma same_watch_locked:
  "putLocked be s k v = (s1, rv, ev) \<Longrightarrow> same_watch s s1"
  "deleteLocked be s k = (s2, rv, ev) \<Longrightarrow> same_watch s s2"
  by (auto simp: putLocked_def deleteLocked_def Let_def same_watch_def)

lemma same_watch_prims [simp]:
  "same_watch s (send_events t evs) = same_watch s t"
  "same_watch s (detachKeyLocked t k) = same_watch s t"
  "same_watch s (bindKeyToLeaseLocked t k i l) = same_watch s t"
  "same_watch (detachKeyLocked t k) s = same_watch t s"
  "same_watch (bindKeyToLeaseLocked t k i l) s = same_watch t s"
  by (simp_all add: same_watch_def)

lemma same_watch_put: "same_watch s (fst (KVStore_Put be s now k v lid))"
  by (auto simp: KVStore_Put_def KVStore_Put_crit_def split: prod.splits sum.splits
      intro: same_watch_locked dest: same_watch_locked(1))

lemma same_watch_delete: "same_watch s (fst (KVStore_Delete be s k))"
  by (auto simp: KVStore_Delete_def KVStore_Delete_crit_def split: prod.splits
      dest: same_watch_locked(2))

lemma same_watch_compact: "same_watch s (fst (KVStore_Compact be s rv))"
  by (auto simp: KVStore_Compact_def Let_def same_watch_def)

lemma same_watch_lease:
  "same_watch s (fst (LeaseGrant s now ttl))" "same_watch s (fst (LeaseKeepAlive s now lid))"
  "same_watch s (fst (AttachKey s now k lid))"
proof -
  show "same_watch s (fst (LeaseGrant s now ttl))"
    by (simp add: LeaseGrant_def Let_def same_watch_def)
  show "same_watch s (fst (LeaseKeepAlive s now lid))"
    by (auto simp: LeaseKeepAlive_def Let_def same_watch_def split: option.splits)
  show "same_watch s (fst (AttachKey s now k lid))"
    by (auto simp: AttachKey_def split: sum.splits)
qed

lemma same_watch_revoke_keys: "revoke_keys be s evs ks = (s', evs') \<Longrightarrow> same_watch s s'"
proof (induction be s evs ks rule: revoke_keys.induct)
  case (2 be s evs k ks)
  then show ?case by (auto split: prod.splits dest!: same_watch_locked(2) intro: same_watch_trans)
qed simp

lemma same_watch_revoke: "same_watch s (fst (LeaseRevoke rng be s lid))"
  by (auto simp: LeaseRevoke_def LeaseRevoke_crit_def Let_def same_watch_def
      split: option.splits prod.splits dest!: same_watch_revoke_keys)

lemma same_watch_tick: "same_watch s (expiration_tick rng_id rng be s now)"
proof -
  have "same_watch s (foldl (\<lambda>s i. fst (LeaseRevoke rng be s i)) s ids)" for ids
    by (induction ids rule: rev_induct) (auto intro: same_watch_trans same_watch_revoke)
  then show ?thesis by (simp add: expiration_tick_def)
qed

lemma same_watch_txn_ops: "txn_ops be s r evs ops = Inr (s', r', evs') \<Longrightarrow> same_watch s s'"
proof (induction be s r evs ops rule: txn_ops.induct)
  case (2 be s r evs opr ops)
  then show ?case
    by (auto split: prod.splits option.splits sum.splits if_splits dest!: same_watch_locked
        intro: same_watch_trans)
qed simp

lemma same_watch_txn: "KVStore_Txn be s clock t = Inr (s', r) \<Longrightarrow> same_watch s s'"
  by (auto simp: KVStore_Txn_def Let_def split: sum.splits option.splits
      dest!: same_watch_txn_ops)

section \<open>Every step extends the history\<close>

lemma mem_storeD: "mem_store H s \<Longrightarrow> store_inv mem_inv MemoryBackend_SnapshotState H s"
  "mem_store H s \<Longrightarrow> watch_ok s"
  by (simp_all add: mem_store_def)

lemma mem_store_new: "mem_store [] NewKVStore"
  by (simp add: mem_store_def NewKVStore_def watch_ok_new store_inv_def lease_ok_new)
    (simp add: NewKVStoreWithBackend_def mem_inv_new [unfolded NewMemoryBackend_def]
      MemoryBackend_SnapshotState_def NewMemoryBackend_def refines_empty)

lemma mem_store_same:
  "mem_store H s \<Longrightarrow> same_watch s s' \<Longrightarrow> store_inv mem_inv MemoryBackend_SnapshotState H' s' \<Longrightarrow>
     mem_store H' s'"
  by (simp add: mem_store_def same_watch_ok)

lemma mem_store_core:
  "mem_store H s \<Longrightarrow> same_core s s' \<Longrightarrow> watch_ok s' \<Longrightarrow> mem_store H s'"
  by (simp add: mem_store_def same_core_inv)

lemma step_put:
  assumes "mem_store H s"
  shows "\<exists>H'. mem_store (H @ H') (fst (KVStore_Put memory_backend s now k v lid))"
proof (cases "lid = 0 \<or> (\<exists>l. lookupLeaseLocked s now lid = Inr l)")
  case True
  obtain s' where "KVStore_Put memory_backend s now k v lid = (s', Inr (Revision (int (length H) + 1) 0))"
    "store_inv mem_inv MemoryBackend_SnapshotState (H @ [put_event H k v]) s'"
    by (rule mem.Put_ok [OF mem_storeD(1) [OF assms] True])
  with mem_store_same [OF assms same_watch_put] show ?thesis by (metis fst_conv)
next
  case False
  then obtain e where "lookupLeaseLocked s now lid = Inl e" "lid \<noteq> 0" by (metis sum.exhaust)
  then have "fst (KVStore_Put memory_backend s now k v lid) = s"
    by (simp add: KVStore_Put_def KVStore_Put_crit_def send_events_def)
  with assms show ?thesis by (metis append_Nil2)
qed

lemma step_txn:
  assumes "mem_store H s" and "KVStore_Txn memory_backend s clock t = Inr (s', r)"
  shows "\<exists>H'. mem_store (H @ H') s'"
proof (cases "txn_check_leases s clock 0 (branch H t)")
  case None
  obtain s1 r1 where "KVStore_Txn memory_backend s clock t = Inr (s1, r1)"
    "store_inv mem_inv MemoryBackend_SnapshotState (H @ ops_events H (branch H t)) s1"
    by (rule mem.Txn_ok [OF mem_storeD(1) [OF assms(1)] None])
  with assms mem_store_same [OF assms(1) same_watch_txn [OF assms(2)]] show ?thesis by auto
next
  case (Some e)
  with mem.Txn_err [OF mem_storeD(1) [OF assms(1)] Some] assms show ?thesis
    by (metis Pair_inject append_Nil2 sum.inject(2))
qed

lemma step_compact:
  assumes "mem_store H s"
  shows "mem_store H (fst (KVStore_Compact memory_backend s rv))"
proof (cases "bs_CompactRev (MemoryBackend_SnapshotState (s_backend s)) < rv \<and> rv \<le> int (length H)")
  case True
  obtain b where "KVStore_Compact memory_backend s rv = (s\<lparr>s_backend := b\<rparr>, None)"
    "store_inv mem_inv MemoryBackend_SnapshotState H (s\<lparr>s_backend := b\<rparr>)"
    by (rule mem.Compact_ok [OF mem_storeD(1) [OF assms]]) (use True in auto)
  with mem_store_same [OF assms same_watch_compact] show ?thesis by (metis fst_conv)
next
  case False
  then have "KVStore_Compact memory_backend s rv = (s, Some ErrCompacted)"
    by (intro mem.Compact_err [OF mem_storeD(1) [OF assms]]) auto
  with assms show ?thesis by simp
qed

lemma step_lease:
  assumes "mem_store H s"
  shows "mem_store H (fst (LeaseGrant s now ttl))" "mem_store H (fst (LeaseKeepAlive s now lid))"
    "mem_store H (fst (AttachKey s now k lid))"
proof -
  have lok: "lease_ok s" using mem_storeD(1) [OF assms] by (simp add: store_inv_def)
  have bk: "s_backend (fst (LeaseGrant s now ttl)) = s_backend s"
    "s_backend (fst (LeaseKeepAlive s now lid)) = s_backend s"
    "s_backend (fst (AttachKey s now k lid)) = s_backend s"
    by (auto simp: LeaseGrant_def LeaseKeepAlive_def AttachKey_def Let_def
        split: option.splits sum.splits)
  note inv = store_inv_lease_ops [OF _ _ mem_storeD(1) [OF assms]]
  show "mem_store H (fst (LeaseGrant s now ttl))"
    by (rule mem_store_same [OF assms same_watch_lease(1) inv [OF bk(1) lease_ok_grant [OF lok]]])
  show "mem_store H (fst (LeaseKeepAlive s now lid))"
    by (rule mem_store_same [OF assms same_watch_lease(2) inv [OF bk(2) lease_ok_keepalive [OF lok]]])
  show "mem_store H (fst (AttachKey s now k lid))"
    by (rule mem_store_same [OF assms same_watch_lease(3) inv [OF bk(3) lease_ok_attach [OF lok]]])
qed

lemma step_revokes:
  assumes "mem_store H s" and "range_order rng"
  shows "\<exists>H'. mem_store (H @ H') (fst (LeaseRevoke rng memory_backend s lid))"
    "\<exists>H'. mem_store (H @ H') (expiration_tick rng_id rng memory_backend s now)"
proof -
  show "\<exists>H'. mem_store (H @ H') (expiration_tick rng_id rng memory_backend s now)"
    using mem.revoke_list [OF mem_storeD(1) [OF assms(1)] assms(2)]
      mem_store_same [OF assms(1) same_watch_tick]
    by (metis expiration_tick_def)
  show "\<exists>H'. mem_store (H @ H') (fst (LeaseRevoke rng memory_backend s lid))"
  proof (cases "leases_of s lid")
    case None
    with assms(1) mem.Revoke_missing [OF None] show ?thesis by (metis append_Nil2 fst_conv)
  next
    case (Some l)
    obtain s' where "LeaseRevoke rng memory_backend s lid = (s', None)"
      "store_inv mem_inv MemoryBackend_SnapshotState (H @ delete_events H (rng (le_Keys l))) s'"
      by (rule mem.Revoke_ok [OF mem_storeD(1) [OF assms(1)] Some assms(2)])
    with mem_store_same [OF assms(1) same_watch_revoke] show ?thesis by (metis fst_conv)
  qed
qed

lemma step_watch:
  assumes "mem_store H s"
  shows "mem_store H (fst (KVStore_Watch memory_backend s k rv pre))"
proof (cases "bs_CompactRev (MemoryBackend_SnapshotState (s_backend s)) < rv")
  case True
  obtain s' i where "KVStore_Watch memory_backend s k rv pre = (s', i)"
    "store_inv mem_inv MemoryBackend_SnapshotState H s'" "watch_ok s'"
    by (rule mem.Watch_ok [OF mem_storeD [OF assms] True])
  then show ?thesis by (simp add: mem_store_def)
next
  case False
  with mem.Watch_err [OF mem_storeD(1) [OF assms]] assms show ?thesis by simp
qed

lemma same_core_heap [simp]: "same_core s (s\<lparr>s_heap := h\<rparr>)"
  by (simp add: same_core_def)

lemma step_watchers:
  assumes "mem_store H s"
  shows "CancelWatcher s i = Inr s' \<Longrightarrow> mem_store H s'"
    "backlog_send s i e = Inr s' \<Longrightarrow> mem_store H s'"
    "mem_store H (fst (watcher_recv s i))"
proof -
  note ok = mem_storeD(2) [OF assms]
  show "mem_store H s'" if c: "CancelWatcher s i = Inr s'"
  proof (cases "s_watchersByID s i")
    case None
    with c assms show ?thesis by (simp add: CancelWatcher_def)
  next
    case (Some r)
    then obtain w where w: "s_heap s i = Some w" "\<not> w_closed w"
      using watch_okD(1) [OF ok, of i] by (auto split: option.splits if_splits)
    obtain s1 where "CancelWatcher s i = Inr s1" "watch_ok s1" "same_core s s1"
      by (rule CancelWatcher_ok [OF ok w])
    with c mem_store_core [OF assms] show ?thesis by simp
  qed
  show "mem_store H s'" if "backlog_send s i e = Inr s'"
    using that assms watch_okD(4) [OF ok]
    by (auto simp: backlog_send_def split: option.splits if_splits
        intro!: mem_store_core [OF assms] watch_ok_channel [OF ok])
  show "mem_store H (fst (watcher_recv s i))"
    using watcher_recv_heap [OF ok, of i "fst (watcher_recv s i)" "snd (watcher_recv s i)"]
    by (intro mem_store_core [OF assms])
      (auto simp: watcher_recv_def same_core_def split: option.splits list.splits)
qed

lemma dispatcher_step_ok:
  assumes "mem_store H s" and "range_order rng"
  shows "\<exists>s'. dispatcher_step rng s = Inr s' \<and> mem_store H s'"
proof (cases "s_closed s \<or> s_eventCh s = []")
  case True
  with assms show ?thesis by (auto simp: dispatcher_step_def)
next
  case False
  then obtain ev rest where q: "s_eventCh s = ev # rest" by (cases "s_eventCh s") auto
  let ?s = "s\<lparr>s_eventCh := rest\<rparr>"
  have "mem_store H ?s"
    using assms(1) by (simp add: mem_store_def store_inv_def lease_ok_def watch_ok_def)
  moreover obtain s' where "dispatch_event rng ?s ev = Inr s'" "watch_ok s'" "same_core ?s s'"
    using dispatch_event_ok [OF mem_storeD(2) [OF \<open>mem_store H ?s\<close>] assms(2)] by blast
  ultimately show ?thesis using False q mem_store_core by (auto simp: dispatcher_step_def)
qed

lemma history_kept: "mem_store H s \<Longrightarrow> \<exists>H'. mem_store (H @ H') s"
  by (metis append_Nil2)

lemma store_step_history:
  assumes "store_step s s'" and "mem_store H s"
  shows "\<exists>H'. mem_store (H @ H') s'"
  using assms
proof (induction rule: store_step.induct)
  case (delete s k)
  obtain s1 where "KVStore_Delete memory_backend s k = (s1, Revision (int (length H) + 1) 0)"
    "store_inv mem_inv MemoryBackend_SnapshotState (H @ [delete_event H k]) s1"
    by (rule mem.Delete_ok [OF mem_storeD(1) [OF delete]])
  with mem_store_same [OF delete same_watch_delete] show ?case by (metis fst_conv)
next
  case (dispatch rng s s')
  then show ?case using dispatcher_step_ok by (metis append_Nil2 sum.inject(2))
next
  case (close s)
  then have "mem_store H (KVStore_Close s)"
    by (simp add: mem_store_def store_inv_def lease_ok_def watch_ok_def KVStore_Close_def)
  then show ?case by (metis append_Nil2)
qed (blast intro: step_put step_txn step_revokes history_kept step_compact step_lease step_watch
    step_watchers)+

lemma store_steps_history:
  assumes "store_steps s s'" and "mem_store H s"
  shows "\<exists>H'. mem_store (H @ H') s'"
  using assms
proof (induction rule: rtranclp_induct)
  case base
  then show ?case by (metis append_Nil2)
next
  case (step s1 s2)
  then show ?case using store_step_history by (metis append.assoc)
qed

lemma history_ok_mem: "mem_store H s \<Longrightarrow> history_ok H"
  by (auto simp: mem_store_def store_inv_def dest: refines_basic(1))

end
