(* ===== verification/ServerSpec.thy ===== *)
theory ServerSpec
  imports KVHandlers StoreRun RaftSpec RaftWire
begin

text \<open>
  What the server's apply loop promises. The abstract machine executes a list of commands on
  a store and keeps, per client, the last sequence number and its result; a command whose
  number is not above its client's last one is skipped. The apply loop refines the machine
  whatever requests are waiting, the commands that do get executed are distinct, and on a
  store whose commands cannot panic (the contract \<open>command_executor\<close>, interpreted for the
  in-memory store) the loop never panics.
\<close>

section \<open>The replicated machine\<close>

type_synonym ('st, 'r) executor = "(nat \<Rightarrow> int) \<Rightarrow> 'st \<Rightarrow> Command \<Rightarrow> ('st \<times> 'r) outcome"
type_synonym 'st machine = "'st \<times> (int \<rightharpoonup> int) \<times> (int \<rightharpoonup> Result)"
type_synonym timed = "(nat \<Rightarrow> int) \<times> Command"

definition seq_in :: "(int \<rightharpoonup> int) \<Rightarrow> int \<Rightarrow> int" where
  "seq_in seqs c = (case seqs c of None \<Rightarrow> 0 | Some q \<Rightarrow> q)"

text \<open>The table after a command of a client.\<close>

definition advance :: "Command \<Rightarrow> (int \<rightharpoonup> int) \<Rightarrow> (int \<rightharpoonup> int)" where
  "advance env seqs = seqs(Command_ClientID env \<mapsto> Command_Seq env)"

lemma seq_in_advance [simp]:
  "seq_in (advance env seqs) c = (if c = Command_ClientID env then Command_Seq env else seq_in seqs c)"
  by (simp add: seq_in_def advance_def)

definition stamp :: "Command \<Rightarrow> Result \<Rightarrow> Result" where
  "stamp env r =
     r\<lparr>res_Kind := c_Kind env, res_ClientID := Command_ClientID env, res_Seq := Command_Seq env\<rparr>"

definition machine_step :: "('st, Result) executor \<Rightarrow> timed \<Rightarrow> 'st machine \<Rightarrow> 'st machine outcome" where
  "machine_step exec = (\<lambda>(clock, env) (st, seqs, ress).
     if Command_Seq env \<le> seq_in seqs (Command_ClientID env) then Inr (st, seqs, ress)
     else case exec clock st env of
            Inl p \<Rightarrow> Inl p
          | Inr (st1, r) \<Rightarrow>
              Inr (st1, advance env seqs,
                   ress(Command_ClientID env \<mapsto> stamp env r)))"

fun machine_run :: "('st, Result) executor \<Rightarrow> timed list \<Rightarrow> 'st machine \<Rightarrow> 'st machine outcome" where
  "machine_run exec [] m = Inr m"
| "machine_run exec (t # ts) m =
     (case machine_step exec t m of Inl p \<Rightarrow> Inl p | Inr m1 \<Rightarrow> machine_run exec ts m1)"

text \<open>The commands that are not skipped, and their plain execution.\<close>

fun fresh :: "(int \<rightharpoonup> int) \<Rightarrow> timed list \<Rightarrow> timed list" where
  "fresh seqs [] = []"
| "fresh seqs ((clock, env) # ts) =
     (if Command_Seq env \<le> seq_in seqs (Command_ClientID env) then fresh seqs ts
      else (clock, env) # fresh (advance env seqs) ts)"

fun execute :: "('st, Result) executor \<Rightarrow> timed list \<Rightarrow> 'st \<Rightarrow> ('st \<times> Result list) outcome" where
  "execute exec [] st = Inr (st, [])"
| "execute exec ((clock, env) # ts) st =
     (case exec clock st env of
        Inl p \<Rightarrow> Inl p
      | Inr (st1, r) \<Rightarrow>
          (case execute exec ts st1 of
             Inl p \<Rightarrow> Inl p
           | Inr (st2, rs) \<Rightarrow> Inr (st2, stamp env r # rs)))"

definition seqs_after :: "timed list \<Rightarrow> (int \<rightharpoonup> int) \<Rightarrow> (int \<rightharpoonup> int)" where
  "seqs_after ts seqs = fold (\<lambda>(_, env). advance env) ts seqs"

definition results_after :: "timed list \<Rightarrow> Result list \<Rightarrow> (int \<rightharpoonup> Result) \<Rightarrow> (int \<rightharpoonup> Result)" where
  "results_after ts rs ress = fold (\<lambda>((_, env), r) m. m(Command_ClientID env \<mapsto> r)) (zip ts rs) ress"

abbreviation command_id :: "timed \<Rightarrow> int \<times> int" where
  "command_id t \<equiv> (Command_ClientID (snd t), Command_Seq (snd t))"

lemma machine_run_fresh:
  "machine_run exec ts (st, seqs, ress) =
     (case execute exec (fresh seqs ts) st of
        Inl p \<Rightarrow> Inl p
      | Inr (st', rs) \<Rightarrow> Inr (st', seqs_after (fresh seqs ts) seqs, results_after (fresh seqs ts) rs ress))"
proof (induction ts arbitrary: st seqs ress)
  case (Cons t ts)
  obtain clock env where [simp]: "t = (clock, env)" by (cases t)
  show ?case
    by (auto simp: machine_step_def Cons.IH seqs_after_def results_after_def
        split: sum.splits prod.splits)
qed (simp add: seqs_after_def results_after_def)

lemma fresh_above: "t \<in> set (fresh seqs ts) \<Longrightarrow> seq_in seqs (Command_ClientID (snd t)) < Command_Seq (snd t)"
proof (induction seqs ts rule: fresh.induct)
  case (2 seqs clock env ts)
  show ?case
  proof (cases "Command_Seq env \<le> seq_in seqs (Command_ClientID env)")
    case True
    with 2 show ?thesis by simp
  next
    case False
    let ?seqs = "advance env seqs"
    from 2(3) False consider "t = (clock, env)" | "t \<in> set (fresh ?seqs ts)" by auto
    then show ?thesis
    proof cases
      case 2
      from "2.IH"(2) [OF False 2] False show ?thesis
        by (auto split: if_splits)
    qed (use False in simp)
  qed
qed simp

lemma fresh_distinct: "distinct (map command_id (fresh seqs ts))"
proof (induction seqs ts rule: fresh.induct)
  case (2 seqs clock env ts)
  let ?seqs = "advance env seqs"
  have "(Command_ClientID env, Command_Seq env) \<notin> set (map command_id (fresh ?seqs ts))"
    using fresh_above [of _ ?seqs ts] by fastforce
  with 2 show ?case by auto
qed simp

text \<open>A command with a new number is executed unless its client went past it before.\<close>

lemma fresh_complete:
  "t \<in> set ts \<Longrightarrow> seq_in seqs (Command_ClientID (snd t)) < Command_Seq (snd t) \<Longrightarrow>
     \<exists>t' \<in> set (fresh seqs ts). Command_ClientID (snd t') = Command_ClientID (snd t) \<and>
       Command_Seq (snd t) \<le> Command_Seq (snd t')"
proof (induction seqs ts rule: fresh.induct)
  case (2 seqs clock env ts)
  show ?case
  proof (cases "Command_Seq env \<le> seq_in seqs (Command_ClientID env)")
    case True
    with 2 show ?thesis by auto
  next
    case new: False
    let ?seqs = "advance env seqs"
    show ?thesis
    proof (cases "Command_ClientID (snd t) = Command_ClientID env \<and> Command_Seq (snd t) \<le> Command_Seq env")
      case True
      with new show ?thesis by (intro bexI [of _ "(clock, env)"]) auto
    next
      case False
      with 2(3) have "t \<in> set ts" by auto
      moreover have "seq_in ?seqs (Command_ClientID (snd t)) < Command_Seq (snd t)"
        using 2(4) False by auto
      ultimately show ?thesis using "2.IH"(2) [OF new] new by auto
    qed
  qed
qed simp

section \<open>Executors that cannot fail\<close>

locale command_executor =
  fixes exec :: "('st, Result) executor" and ok :: "'st \<Rightarrow> bool"
  assumes exec_total: "ok st \<Longrightarrow> \<exists>st' r. exec clock st env = Inr (st', r) \<and> ok st'"
begin

lemma execute_total:
  "ok st \<Longrightarrow> \<exists>st' rs. execute exec ts st = Inr (st', rs) \<and> ok st' \<and> length rs = length ts"
proof (induction ts arbitrary: st)
  case (Cons t ts)
  obtain clock env where [simp]: "t = (clock, env)" by (cases t)
  obtain st1 r where e: "exec clock st env = Inr (st1, r)" "ok st1"
    using exec_total [OF Cons.prems, of clock env] by auto
  obtain st2 rs where "execute exec ts st1 = Inr (st2, rs)" "ok st2" "length rs = length ts"
    using Cons.IH [OF e(2)] by auto
  with e(1) show ?case by simp
qed simp

lemma machine_total:
  assumes "ok st"
  shows "\<exists>st' seqs' ress'. machine_step exec t (st, seqs, ress) = Inr (st', seqs', ress') \<and> ok st'"
proof -
  obtain clock env where [simp]: "t = (clock, env)" by (cases t)
  obtain st1 r where "exec clock st env = Inr (st1, r)" "ok st1"
    using exec_total [OF assms, of clock env] by auto
  with assms show ?thesis by (simp add: machine_step_def)
qed

end

definition store_ok :: "MemoryBackend KVStore \<Rightarrow> bool" where
  "store_ok st \<longleftrightarrow> (\<exists>H. mem_store H st)"

lemma store_ok_step: "store_ok st \<Longrightarrow> store_step st st' \<Longrightarrow> store_ok st'"
  unfolding store_ok_def using store_step_history by blast

lemma store_ok_txn:
  assumes "store_ok st"
  shows "\<exists>st' r. KVStore_Txn memory_backend st clock t = Inr (st', r) \<and> store_ok st'"
proof -
  obtain H where H: "mem_store H st" using assms by (auto simp: store_ok_def)
  have "\<exists>st' r. KVStore_Txn memory_backend st clock t = Inr (st', r)"
  proof (cases "txn_check_leases st clock 0 (branch H t)")
    case None
    show ?thesis by (rule mem.Txn_ok [OF mem_storeD(1) [OF H] None]) blast
  next
    case (Some e)
    with mem.Txn_err [OF mem_storeD(1) [OF H] Some] show ?thesis by blast
  qed
  then show ?thesis using store_ok_step [OF assms store_step.txn] by blast
qed

lemma store_ok_kv:
  assumes "store_ok st" and "sio_backend io = memory_backend"
  shows "store_ok (fst (applyKV io clock st c))"
  using assms(1) store_ok_step [OF assms(1) store_step.put] store_ok_step [OF assms(1) store_step.delete]
  by (auto simp: applyKV_def assms(2) split: option.splits prod.splits sum.splits) (metis fst_conv)+

lemma store_ok_lease:
  assumes "store_ok st" and "sio_backend io = memory_backend" and "range_order (sio_key_order io)"
  shows "store_ok (fst (applyLeaseGrant clock st g))" "store_ok (fst (applyLeaseKeepAlive clock st k))"
    "store_ok (fst (applyLeaseRevoke io st r))"
proof -
  show "store_ok (fst (applyLeaseGrant clock st g))"
    using assms(1) store_ok_step [OF assms(1) store_step.grant]
    by (auto simp: applyLeaseGrant_def split: option.splits prod.splits) (metis fst_conv)
  show "store_ok (fst (applyLeaseKeepAlive clock st k))"
    using assms(1) store_ok_step [OF assms(1) store_step.keepalive]
    by (auto simp: applyLeaseKeepAlive_def split: option.splits prod.splits sum.splits) (metis fst_conv)+
  show "store_ok (fst (applyLeaseRevoke io st r))"
    using assms(1) store_ok_step [OF assms(1) store_step.revoke [OF assms(3)]]
    by (auto simp: applyLeaseRevoke_def assms(2) split: option.splits prod.splits) (metis fst_conv)+
qed

lemma memory_executor:
  assumes "sio_backend io = memory_backend" and "range_order (sio_key_order io)"
  shows "command_executor (applyCommand io) store_ok"
proof
  fix clock :: "nat \<Rightarrow> int" and st and env :: Command
  assume ok: "store_ok st"
  have txn: "\<exists>st' r. applyTxn io clock st (c_Txn env) = Inr (st', r) \<and> store_ok st'"
  proof (cases "c_Txn env")
    case (Some c)
    obtain st' r where "KVStore_Txn memory_backend st clock (toMVCCTxn c) = Inr (st', r)" "store_ok st'"
      using store_ok_txn [OF ok] by blast
    with Some show ?thesis by (cases r) (auto simp: applyTxn_def assms(1) split: prod.splits)
  qed (use ok in \<open>simp add: applyTxn_def\<close>)
  note ok' = store_ok_kv [OF ok assms(1)] store_ok_lease [OF ok assms]
  show "\<exists>st' r. applyCommand io clock st env = Inr (st', r) \<and> store_ok st'"
    unfolding applyCommand_def using txn ok ok' by (simp del: split_paired_Ex) (metis prod.collapse)
qed

text \<open>The server a node runs by default, for given codecs.\<close>

definition memory_server ::
  "(pb_Command option \<Rightarrow> go_error + bytes) \<Rightarrow> (bytes \<Rightarrow> go_error + pb_Command) \<Rightarrow>
   (snap_ServerSnapshot \<Rightarrow> go_error + bytes) \<Rightarrow> (bytes \<Rightarrow> go_error + snap_ServerSnapshot) \<Rightarrow>
   (pb_MvccSnapshot \<Rightarrow> bytes option) \<Rightarrow> (bytes \<Rightarrow> pb_MvccSnapshot option) \<Rightarrow>
   (MemoryBackend, MemoryPersister) ServerIO" where
  "memory_server mc uc ms us mm um =
     \<lparr>sio_backend = memory_backend, sio_raft = memory_io, sio_MarshalCommand = mc,
      sio_UnmarshalCommand = uc, sio_MarshalSnapshot = ms, sio_UnmarshalSnapshot = us,
      sio_MarshalMvcc = mm, sio_UnmarshalMvcc = um, sio_lease_order = sorted_list_of_set,
      sio_key_order = sorted_list_of_set, sio_wait_order = sorted_list_of_set\<rparr>"

lemma memory_server_simps [simp]:
  "sio_backend (memory_server mc uc ms us mm um) = memory_backend"
  "sio_raft (memory_server mc uc ms us mm um) = memory_io"
  "sio_MarshalCommand (memory_server mc uc ms us mm um) = mc"
  "sio_UnmarshalCommand (memory_server mc uc ms us mm um) = uc"
  "sio_MarshalSnapshot (memory_server mc uc ms us mm um) = ms"
  "sio_UnmarshalSnapshot (memory_server mc uc ms us mm um) = us"
  "sio_MarshalMvcc (memory_server mc uc ms us mm um) = mm"
  "sio_UnmarshalMvcc (memory_server mc uc ms us mm um) = um"
  "sio_lease_order (memory_server mc uc ms us mm um) = sorted_list_of_set"
  "sio_key_order (memory_server mc uc ms us mm um) = sorted_list_of_set"
  "sio_wait_order (memory_server mc uc ms us mm um) = sorted_list_of_set"
  by (simp_all add: memory_server_def)

interpretation memexec: command_executor "applyCommand (memory_server mc uc ms us mm um)" store_ok
  for mc uc ms us mm um
  by (rule memory_executor) (simp_all add: range_order_sorted)

end
