(* ===== verification/ServerApply.thy ===== *)
theory ServerApply
  imports ServerSpec
begin

text \<open>
  The apply loop of the server against the replicated machine of \<^verbatim>\<open>ServerSpec\<close>: the table of
  waiting requests keeps its invariant, so that no channel is closed twice; one message of the
  apply channel is one step of the machine; and a round of the raft applier followed by the
  turns of the loop executes the newly committed entries of the log.
\<close>

section \<open>The table of waiting requests\<close>

definition wait_ok :: "('b, 'p) Server \<Rightarrow> bool" where
  "wait_ok s \<longleftrightarrow>
     finite (dom (sv_waitCh s)) \<and>
     (\<forall>i r. sv_waitCh s i = Some r \<longrightarrow> (\<exists>ch. sv_entries s r = Some ch \<and> \<not> we_Notify ch)) \<and>
     (\<forall>i j r. sv_waitCh s i = Some r \<longrightarrow> sv_waitCh s j = Some r \<longrightarrow> i = j) \<and>
     (\<forall>r. sv_nextEntry s \<le> r \<longrightarrow> sv_entries s r = None)"

lemma wait_ok_cong:
  assumes "sv_waitCh s' = sv_waitCh s" "sv_entries s' = sv_entries s" "sv_nextEntry s' = sv_nextEntry s"
  shows "wait_ok s' = wait_ok s"
  using assms by (simp add: wait_ok_def)

lemma wait_ok_entry:
  assumes "wait_ok s" "sv_waitCh s i = Some r"
  obtains ch where "sv_entries s r = Some ch" "\<not> we_Notify ch"
  using assms unfolding wait_ok_def by blast

lemma wait_ok_remove:
  assumes "wait_ok s"
  shows "wait_ok (s\<lparr>sv_waitCh := (sv_waitCh s)(i := None)\<rparr>)"
  using assms unfolding wait_ok_def by (auto split: if_splits)

lemma notify_waiter_cases:
  assumes "wait_ok s"
  obtains (absent) "sv_waitCh s i = None" "notify_waiter s i env result = Inr s"
  | (other) r ch where "sv_waitCh s i = Some r" "sv_entries s r = Some ch" "\<not> match ch env"
      "notify_waiter s i env result = Inr (s\<lparr>sv_waitCh := (sv_waitCh s)(i := None)\<rparr>)"
  | (woken) r ch where "sv_waitCh s i = Some r" "sv_entries s r = Some ch" "match ch env" "\<not> we_Notify ch"
      "notify_waiter s i env result = Inr (s\<lparr>sv_waitCh := (sv_waitCh s)(i := None),
         sv_entries := (sv_entries s)(r \<mapsto> ch\<lparr>we_Result := result, we_Notify := True\<rparr>)\<rparr>)"
proof (cases "sv_waitCh s i")
  case None
  then show ?thesis using absent by (simp add: notify_waiter_def)
next
  case (Some r)
  obtain ch where ch: "sv_entries s r = Some ch" "\<not> we_Notify ch"
    by (rule wait_ok_entry [OF assms Some])
  show ?thesis
  proof (cases "match ch env")
    case True
    with Some ch show ?thesis by (intro woken [OF Some ch(1) True ch(2)]) (simp add: notify_waiter_def Let_def)
  next
    case False
    with Some ch show ?thesis by (intro other [OF Some ch(1) False]) (simp add: notify_waiter_def Let_def)
  qed
qed

lemma wait_ok_wake:
  assumes "wait_ok s" "sv_waitCh s i = Some r" "sv_entries s r = Some ch"
  shows "wait_ok (s\<lparr>sv_waitCh := (sv_waitCh s)(i := None), sv_entries := (sv_entries s)(r \<mapsto> ch')\<rparr>)"
  using assms unfolding wait_ok_def by (auto split: if_splits)

lemma notify_waiter_ok:
  assumes "wait_ok s"
  shows "\<exists>s'. notify_waiter s i env result = Inr s' \<and> wait_ok s' \<and>
    (\<exists>w e. s' = s\<lparr>sv_waitCh := w, sv_entries := e\<rparr>)"
proof (rule notify_waiter_cases [OF assms, of i env result])
  assume "notify_waiter s i env result = Inr s"
  with assms show ?thesis by (intro exI [of _ s] conjI exI [of _ "sv_waitCh s"] exI [of _ "sv_entries s"]) simp_all
next
  assume "notify_waiter s i env result = Inr (s\<lparr>sv_waitCh := (sv_waitCh s)(i := None)\<rparr>)"
  with wait_ok_remove [OF assms, of i] show ?thesis
    by (intro exI [of _ "s\<lparr>sv_waitCh := (sv_waitCh s)(i := None)\<rparr>"] conjI
        exI [of _ "(sv_waitCh s)(i := None)"] exI [of _ "sv_entries s"]) simp_all
next
  fix r ch
  assume a: "sv_waitCh s i = Some r" "sv_entries s r = Some ch"
    "notify_waiter s i env result = Inr (s\<lparr>sv_waitCh := (sv_waitCh s)(i := None),
         sv_entries := (sv_entries s)(r \<mapsto> ch\<lparr>we_Result := result, we_Notify := True\<rparr>)\<rparr>)"
  then show ?thesis using wait_ok_wake [OF assms a(1,2)] by blast
qed

text \<open>Clearing the table.\<close>

definition fail_entry :: "go_error \<Rightarrow> waitEntry \<Rightarrow> waitEntry" where
  "fail_entry err ch = ch\<lparr>we_Result := (we_Result ch)\<lparr>res_Err := Some err\<rparr>, we_Notify := True\<rparr>"

lemma fail_entry_idem [simp]: "fail_entry err (fail_entry err ch) = fail_entry err ch"
  by (simp add: fail_entry_def)

lemma clear_loop_eq:
  "clear_loop err s is = s\<lparr>sv_waitCh := (\<lambda>i. if i \<in> set is then None else sv_waitCh s i),
     sv_entries := (\<lambda>r. if \<exists>i \<in> set is. sv_waitCh s i = Some r
        then map_option (fail_entry err) (sv_entries s r) else sv_entries s r)\<rparr>"
proof (induction "is" arbitrary: s)
  case (Cons i "is")
  show ?case
  proof (cases "sv_waitCh s i")
    case None
    with Cons.IH show ?thesis by (auto simp: fun_eq_iff)
  next
    case (Some r)
    let ?e = "map_option (\<lambda>ch. ch\<lparr>we_Result := (we_Result ch)\<lparr>res_Err := Some err\<rparr>, we_Notify := True\<rparr>)"
    have e: "?e = map_option (fail_entry err)"
      by (rule arg_cong [of _ _ map_option]) (simp add: fun_eq_iff fail_entry_def)
    let ?w = "(sv_waitCh s)(i := None)" and ?h = "(sv_entries s)(r := map_option (fail_entry err) (sv_entries s r))"
    have w: "(\<lambda>j. if j \<in> set is then None else ?w j) =
        (\<lambda>j. if j \<in> set (i # is) then None else sv_waitCh s j)" by (auto simp: fun_eq_iff)
    have h: "(\<lambda>x. if \<exists>j \<in> set is. ?w j = Some x then map_option (fail_entry err) (?h x) else ?h x) =
        (\<lambda>x. if \<exists>j \<in> set (i # is). sv_waitCh s j = Some x then map_option (fail_entry err) (sv_entries s x)
           else sv_entries s x)"
      using Some by (auto simp: fun_eq_iff option.map_comp o_def split: if_splits)
    have "clear_loop err s (i # is) =
        clear_loop err (s\<lparr>sv_entries := ?h, sv_waitCh := ?w\<rparr>) is" by (simp add: Some e)
    also have "\<dots> = s\<lparr>sv_waitCh := (\<lambda>j. if j \<in> set is then None else ?w j), sv_entries :=
        (\<lambda>x. if \<exists>j \<in> set is. ?w j = Some x then map_option (fail_entry err) (?h x) else ?h x)\<rparr>"
      by (subst Cons.IH) (simp cong: if_cong)
    finally show ?thesis unfolding w h .
  qed
qed simp

lemma clearWaitCh_eq:
  assumes "wait_ok s" and "range_order (sio_wait_order io)"
  shows "clearWaitCh io err s = s\<lparr>sv_waitCh := Map.empty,
    sv_entries := (\<lambda>r. if r \<in> ran (sv_waitCh s) then map_option (fail_entry err) (sv_entries s r)
       else sv_entries s r)\<rparr>"
proof -
  have "set (sio_wait_order io (dom (sv_waitCh s))) = dom (sv_waitCh s)"
    using range_order_set [OF assms(2)] assms(1) by (auto simp: wait_ok_def)
  then have "sv_waitCh s i = None" if "i \<notin> set (sio_wait_order io (dom (sv_waitCh s)))" for i
    using that by (auto simp: dom_def)
  moreover have "(\<exists>i \<in> dom (sv_waitCh s). sv_waitCh s i = Some r) \<longleftrightarrow> r \<in> ran (sv_waitCh s)" for r
    by (auto simp: ran_def)
  ultimately show ?thesis
    unfolding clearWaitCh_def clear_loop_eq
    using \<open>set _ = dom _\<close> by (auto simp: fun_eq_iff)
qed

lemma wait_ok_clear:
  assumes "wait_ok s" and "range_order (sio_wait_order io)"
  shows "wait_ok (clearWaitCh io err s)"
  unfolding clearWaitCh_eq [OF assms] using assms(1) by (auto simp: wait_ok_def)

lemma wait_ok_register:
  assumes "wait_ok s"
  shows "wait_ok (fst (submit_register s index env))"
proof -
  have "wait_ok (s\<lparr>sv_waitCh := (sv_waitCh s)(index \<mapsto> sv_nextEntry s),
      sv_entries := (sv_entries s)(sv_nextEntry s \<mapsto> new_waitEntry env), sv_nextEntry := sv_nextEntry s + 1\<rparr>)"
    using assms unfolding wait_ok_def by (force simp: new_waitEntry_def)
  moreover have "wait_ok (s\<lparr>sv_LastResult := l\<rparr>)" for l
    using assms by (simp add: wait_ok_def)
  ultimately show ?thesis
    by (auto simp: submit_register_def Let_def split: option.splits)
qed

lemma wait_ok_finish: "wait_ok s \<Longrightarrow> wait_ok (fst (submit_finish s index r w))"
  using wait_ok_remove [of s index] by (cases w) (auto simp: submit_finish_def Let_def)

section \<open>One message is one step\<close>

definition replica :: "('b, 'p) Server \<Rightarrow> 'b KVStore machine" where
  "replica s = (sv_store s, sv_clientLastSeq s, sv_clientLastResult s)"

lemma replica_frame [simp]:
  "replica (s\<lparr>sv_waitCh := w, sv_entries := e\<rparr>) = replica s" "replica (s\<lparr>sv_raft := rf\<rparr>) = replica s"
  "replica (s\<lparr>sv_applyCh := q\<rparr>) = replica s" "replica (s\<lparr>sv_LastResult := l\<rparr>) = replica s"
  "replica (s\<lparr>sv_waitCh := w\<rparr>) = replica s"
  by (simp_all add: replica_def)

text \<open>
  What taking a snapshot needs: codecs that do not fail, and an index inside the log.
\<close>

definition snapshots_total :: "('b, 'p) ServerIO \<Rightarrow> bool" where
  "snapshots_total io \<longleftrightarrow>
     (\<forall>m. \<exists>d. sio_MarshalSnapshot io m = Inr d) \<and> (\<forall>m. \<exists>d. sio_MarshalMvcc io m = Some d)"

definition is_command :: "('b, 'p) ServerIO \<Rightarrow> ApplyMsg \<Rightarrow> Command \<Rightarrow> bool" where
  "is_command io msg env \<longleftrightarrow>
     am_CommandValid msg \<and> \<not> am_SnapshotValid msg \<and> Decode (sio_UnmarshalCommand io) (am_Command msg) = Inr env"

lemma makeSnapshot_total: "snapshots_total io \<Longrightarrow> \<exists>d. makeSnapshot io s = Inr d"
  by (auto simp: snapshots_total_def makeSnapshot_def KVStore_Snapshot_def Let_def
      split: option.splits sum.splits) (metis option.distinct(1) sum.distinct(1))+

lemma apply_snapshot_ok:
  assumes "snapshots_total io" "raft_inv (sv_raft s)" "index \<le> lastLogIndex (sv_raft s)"
  shows "\<exists>rf. apply_snapshot io s index = Inr (s\<lparr>sv_raft := rf\<rparr>) \<and> raft_inv rf \<and>
    lastLogIndex rf = lastLogIndex (sv_raft s)"
proof (cases "needSnapshot io s")
  case True
  obtain d where d: "makeSnapshot io s = Inr d" using makeSnapshot_total [OF assms(1)] by blast
  obtain rf where rf: "Snapshot (sio_raft io) (sv_raft s) index d = Inr rf"
    using Snapshot_ok [OF assms(2,3)] by blast
  have "lastLogIndex rf = lastLogIndex (sv_raft s)"
    by (rule Snapshot_lastLogIndex [OF assms(2) rf])
  moreover have "apply_snapshot io s index = Inr (s\<lparr>sv_raft := rf\<rparr>)"
    using True d rf by (simp add: apply_snapshot_def)
  ultimately show ?thesis using Snapshot_inv [OF assms(2) rf] by blast
next
  case False
  then have "apply_snapshot io s index = Inr (s\<lparr>sv_raft := sv_raft s\<rparr>)" by (simp add: apply_snapshot_def)
  with assms(2) show ?thesis by blast
qed

lemma apply_dedup_old:
  assumes "Command_Seq env \<le> seq_in (sv_clientLastSeq s) (Command_ClientID env)" "wait_ok s"
  shows "\<exists>s'. apply_dedup s i env = Inr (s', False) \<and> wait_ok s' \<and>
    (\<exists>w e. s' = s\<lparr>sv_waitCh := w, sv_entries := e\<rparr>)"
proof (cases "Command_Seq env < seq_in (sv_clientLastSeq s) (Command_ClientID env)")
  case True
  then have "apply_dedup s i env = Inr (s, False)"
    by (simp add: apply_dedup_def Let_def last_seq_def seq_in_def)
  moreover have "s = s\<lparr>sv_waitCh := sv_waitCh s, sv_entries := sv_entries s\<rparr>" by simp
  ultimately show ?thesis using assms(2) by blast
next
  case False
  obtain s' where "notify_waiter s i env (last_result s (Command_ClientID env)) = Inr s'" "wait_ok s'"
    "\<exists>w e. s' = s\<lparr>sv_waitCh := w, sv_entries := e\<rparr>"
    using notify_waiter_ok [OF assms(2)] by blast
  with False assms(1) show ?thesis
    by (simp add: apply_dedup_def Let_def last_seq_def seq_in_def)
qed

lemma apply_dedup_new:
  assumes "\<not> Command_Seq env \<le> seq_in (sv_clientLastSeq s) (Command_ClientID env)"
  shows "apply_dedup s i env = Inr (s, True)"
  using assms by (simp add: apply_dedup_def Let_def last_seq_def seq_in_def)

lemma apply_record_ok:
  assumes "wait_ok s"
  shows "\<exists>s'. apply_record s i env result = Inr s' \<and> wait_ok s' \<and>
    replica s' = (sv_store s, advance env (sv_clientLastSeq s),
      (sv_clientLastResult s)(Command_ClientID env \<mapsto> result)) \<and>
    sv_raft s' = sv_raft s \<and> sv_applyCh s' = sv_applyCh s"
proof -
  let ?s = "s\<lparr>sv_clientLastSeq := (sv_clientLastSeq s)(Command_ClientID env \<mapsto> Command_Seq env),
    sv_clientLastResult := (sv_clientLastResult s)(Command_ClientID env \<mapsto> result)\<rparr>"
  have ok: "wait_ok ?s" using assms by (simp add: wait_ok_def)
  have ab: "replica ?s = (sv_store s, advance env (sv_clientLastSeq s),
      (sv_clientLastResult s)(Command_ClientID env \<mapsto> result))" by (simp add: replica_def advance_def)
  show ?thesis
  proof (cases "sv_waitCh s i")
    case None
    let ?s' = "?s\<lparr>sv_LastResult := (sv_LastResult s)(i \<mapsto> result)\<rparr>"
    have "apply_record s i env result = Inr ?s'" using None by (simp add: apply_record_def Let_def)
    moreover have "wait_ok ?s'" using ok by (simp add: wait_ok_def)
    moreover have "replica ?s' = replica ?s" by (simp add: replica_def)
    ultimately show ?thesis using ab by (intro exI [of _ ?s']) simp
  next
    case (Some r)
    obtain s' where s': "notify_waiter ?s i env result = Inr s'" "wait_ok s'"
      "\<exists>w e. s' = ?s\<lparr>sv_waitCh := w, sv_entries := e\<rparr>"
      using notify_waiter_ok [OF ok] by blast
    have "apply_record s i env result = Inr s'"
      using Some s'(1) by (simp add: apply_record_def Let_def)
    moreover have "replica s' = replica ?s" "sv_raft s' = sv_raft s" "sv_applyCh s' = sv_applyCh s"
      using s'(3) by (auto simp: replica_def)
    ultimately show ?thesis using s'(2) ab by auto
  qed
qed

lemma apply_msg_refines:
  assumes "is_command io msg env" "wait_ok s" "raft_inv (sv_raft s)" "snapshots_total io"
    and "am_CommandIndex msg \<le> lastLogIndex (sv_raft s)"
    and "machine_step (applyCommand io) (clock, env) (replica s) = Inr m"
  shows "\<exists>s'. apply_msg io clock s msg = Inr s' \<and> replica s' = m \<and> wait_ok s' \<and> raft_inv (sv_raft s') \<and>
    lastLogIndex (sv_raft s') = lastLogIndex (sv_raft s) \<and> sv_applyCh s' = sv_applyCh s"
proof (cases "Command_Seq env \<le> seq_in (sv_clientLastSeq s) (Command_ClientID env)")
  case True
  obtain s' w e where s': "apply_dedup s (change (am_CommandIndex msg)) env = Inr (s', False)" "wait_ok s'"
    "s' = s\<lparr>sv_waitCh := w, sv_entries := e\<rparr>" using apply_dedup_old [OF True assms(2)] by blast
  have "apply_msg io clock s msg = Inr s'" using assms(1) s'(1) by (simp add: apply_msg_def is_command_def)
  moreover have "m = replica s" using assms(6) True by (simp add: machine_step_def replica_def)
  ultimately show ?thesis using s'(2,3) assms(3) by simp
next
  case False
  obtain st r where st: "applyCommand io clock (sv_store s) env = Inr (st, r)"
    and m: "m = (st, advance env (sv_clientLastSeq s),
      (sv_clientLastResult s)(Command_ClientID env \<mapsto> stamp env r))"
    using assms(6) False by (auto simp: machine_step_def replica_def split: sum.splits)
  have "wait_ok (s\<lparr>sv_store := st\<rparr>)" using assms(2) by (simp add: wait_ok_def)
  from apply_record_ok [OF this, of "change (am_CommandIndex msg)" env "stamp env r"]
  obtain s1 where s1: "apply_record (s\<lparr>sv_store := st\<rparr>) (change (am_CommandIndex msg)) env (stamp env r) = Inr s1"
    "wait_ok s1" "replica s1 = m" "sv_raft s1 = sv_raft s" "sv_applyCh s1 = sv_applyCh s"
    by (auto simp: m)
  obtain rf where rf: "apply_snapshot io s1 (am_CommandIndex msg) = Inr (s1\<lparr>sv_raft := rf\<rparr>)" "raft_inv rf"
    "lastLogIndex rf = lastLogIndex (sv_raft s)"
    using apply_snapshot_ok [OF assms(4), of s1 "am_CommandIndex msg"] s1(4) assms(3,5) by auto
  have "apply_msg io clock s msg = Inr (s1\<lparr>sv_raft := rf\<rparr>)"
    using assms(1) apply_dedup_new [OF False] st s1(1) rf(1)
    by (simp add: apply_msg_def is_command_def apply_fresh_def Let_def stamp_def)
  moreover have "wait_ok (s1\<lparr>sv_raft := rf\<rparr>)" using s1(2) by (simp add: wait_ok_def)
  ultimately show ?thesis using s1 rf by simp
qed

section \<open>Who is woken\<close>

lemma notify_waiter_woken:
  assumes "wait_ok s" "notify_waiter s i env result = Inr s'"
    and "sv_entries s r = Some ch" "\<not> we_Notify ch" "sv_entries s' r = Some ch'" "we_Notify ch'"
  shows "sv_waitCh s i = Some r \<and> match ch env \<and> we_Result ch' = result"
  using notify_waiter_cases [OF assms(1), of i env result] assms(2-)
  by (cases rule: notify_waiter_cases [OF assms(1), of i env result])
    (auto split: if_splits)

lemma apply_snapshot_raft: "apply_snapshot io s i = Inr s' \<Longrightarrow> \<exists>rf. s' = s\<lparr>sv_raft := rf\<rparr>"
proof -
  assume "apply_snapshot io s i = Inr s'"
  moreover have "\<exists>rf. s = s\<lparr>sv_raft := rf\<rparr>" by (rule exI [of _ "sv_raft s"]) simp
  ultimately show ?thesis by (auto simp: apply_snapshot_def split: if_splits sum.splits)
qed

lemma apply_fresh_woken:
  assumes "wait_ok s" "apply_fresh io clock s i env = Inr s'"
    and "sv_entries s r = Some ch" "\<not> we_Notify ch" "sv_entries s' r = Some ch'" "we_Notify ch'"
  shows "sv_waitCh s i = Some r \<and> match ch env \<and> last_seq s' (Command_ClientID env) = Command_Seq env \<and>
    we_Result ch' = last_result s' (Command_ClientID env)"
proof -
  obtain st res s1 where s1: "apply_record (s\<lparr>sv_store := st\<rparr>) i env res = Inr s1"
    "apply_snapshot io s1 i = Inr s'"
    using assms(2) by (auto simp: apply_fresh_def Let_def change_def split: sum.splits)
  obtain rf where s': "s' = s1\<lparr>sv_raft := rf\<rparr>" using apply_snapshot_raft [OF s1(2)] by blast
  let ?s = "s\<lparr>sv_store := st, sv_clientLastSeq := (sv_clientLastSeq s)(Command_ClientID env \<mapsto> Command_Seq env),
    sv_clientLastResult := (sv_clientLastResult s)(Command_ClientID env \<mapsto> res)\<rparr>"
  have ok: "wait_ok ?s" using assms(1) by (simp add: wait_ok_def)
  have some: "sv_waitCh s i \<noteq> None"
    using s1(1) assms(3-6) s' by (auto simp: apply_record_def Let_def split: if_splits)
  then have n: "notify_waiter ?s i env res = Inr s1" using s1(1) by (simp add: apply_record_def Let_def)
  from notify_waiter_woken [OF ok n] assms(3-6) s'
  have "sv_waitCh s i = Some r \<and> match ch env \<and> we_Result ch' = res" by auto
  moreover obtain w e where "s1 = ?s\<lparr>sv_waitCh := w, sv_entries := e\<rparr>"
    using notify_waiter_ok [OF ok, of i env res] n by auto
  ultimately show ?thesis by (simp add: s' last_seq_def last_result_def)
qed

lemma restoreSnapshot_woken:
  assumes "wait_ok s" "range_order (sio_wait_order io)" "restoreSnapshot io s d = Inr s'"
    and "sv_entries s r = Some ch" "\<not> we_Notify ch" "sv_entries s' r = Some ch'" "we_Notify ch'"
  shows "res_Err (we_Result ch') = Some ErrNotLeader"
  using assms(3-)
  by (auto simp: restoreSnapshot_def Let_def clearWaitCh_eq [OF assms(1,2)] fail_entry_def
      split: sum.splits if_splits)

text \<open>A fresh command wakes the request that waits for it with the result of its execution.\<close>

lemma apply_msg_wakes:
  assumes "is_command io msg env" "snapshots_total io" "raft_inv (sv_raft s)"
    and "am_CommandIndex msg \<le> lastLogIndex (sv_raft s)"
    and "seq_in (sv_clientLastSeq s) (Command_ClientID env) < Command_Seq env"
    and "applyCommand io clock (sv_store s) env = Inr (st, r)"
    and "sv_waitCh s (am_CommandIndex msg) = Some w" "sv_entries s w = Some ch" "match ch env" "\<not> we_Notify ch"
  shows "\<exists>s'. apply_msg io clock s msg = Inr s' \<and> sv_store s' = st \<and>
    sv_entries s' w = Some (ch\<lparr>we_Result := stamp env r, we_Notify := True\<rparr>)"
proof -
  let ?i = "am_CommandIndex msg"
  let ?s1 = "s\<lparr>sv_store := st, sv_clientLastSeq := (sv_clientLastSeq s)(Command_ClientID env \<mapsto> Command_Seq env),
    sv_clientLastResult := (sv_clientLastResult s)(Command_ClientID env \<mapsto> stamp env r),
    sv_waitCh := (sv_waitCh s)(?i := None),
    sv_entries := (sv_entries s)(w \<mapsto> ch\<lparr>we_Result := stamp env r, we_Notify := True\<rparr>)\<rparr>"
  have rec: "apply_record (s\<lparr>sv_store := st\<rparr>) ?i env (stamp env r) = Inr ?s1"
    using assms(7-10) by (simp add: apply_record_def notify_waiter_def Let_def)
  obtain rf where rf: "apply_snapshot io ?s1 ?i = Inr (?s1\<lparr>sv_raft := rf\<rparr>)"
    using apply_snapshot_ok [OF assms(2), of ?s1 ?i] assms(3,4) by auto
  have "apply_dedup s (change ?i) env = Inr (s, True)"
    by (rule apply_dedup_new) (use assms(5) in simp)
  then have "apply_msg io clock s msg = Inr (?s1\<lparr>sv_raft := rf\<rparr>)"
    using assms(1,6) rec rf
    by (simp add: apply_msg_def is_command_def apply_fresh_def Let_def stamp_def change_def)
  then show ?thesis by simp
qed

section \<open>Draining the channel\<close>

text \<open>Turns of the apply loop, one for each reading of the clock.\<close>

fun apply_turns ::
  "('b, 'p) ServerIO \<Rightarrow> (nat \<Rightarrow> int) list \<Rightarrow> ('b, 'p) Server \<Rightarrow> ('b, 'p) Server outcome" where
  "apply_turns io [] s = Inr s"
| "apply_turns io (clock # clocks) s =
     (case applyLoop_turn io clock s of Inl p \<Rightarrow> Inl p | Inr s1 \<Rightarrow> apply_turns io clocks s1)"

lemma apply_turns_refine:
  assumes "command_executor (applyCommand io) ok" "ok (sv_store s)" "wait_ok s" "raft_inv (sv_raft s)"
    and "snapshots_total io" "length clocks = length (sv_applyCh s)"
    and "list_all2 (is_command io) (sv_applyCh s) envs"
    and "\<forall>msg \<in> set (sv_applyCh s). am_CommandIndex msg \<le> lastLogIndex (sv_raft s)"
  shows "\<exists>s'. apply_turns io clocks s = Inr s' \<and>
    machine_run (applyCommand io) (zip clocks envs) (replica s) = Inr (replica s') \<and> ok (sv_store s') \<and>
    wait_ok s' \<and> raft_inv (sv_raft s') \<and> lastLogIndex (sv_raft s') = lastLogIndex (sv_raft s) \<and>
    sv_applyCh s' = []"
  using assms(2-)
proof (induction clocks arbitrary: s envs)
  case Nil
  then show ?case by simp
next
  case (Cons clock clocks)
  then obtain msg rest where q: "sv_applyCh s = msg # rest" by (cases "sv_applyCh s") auto
  with Cons.prems(6) obtain env envs' where env: "envs = env # envs'" "is_command io msg env"
    "list_all2 (is_command io) rest envs'" by (cases envs) auto
  let ?s = "s\<lparr>sv_applyCh := rest\<rparr>"
  obtain m where m: "machine_step (applyCommand io) (clock, env) (replica ?s) = Inr m" "ok (fst m)"
    using command_executor.machine_total [OF assms(1) Cons.prems(1), of "(clock, env)"
        "sv_clientLastSeq s" "sv_clientLastResult s"] by (auto simp: replica_def)
  have "wait_ok ?s" using Cons.prems(2) by (simp add: wait_ok_def)
  from apply_msg_refines [OF env(2) this _ Cons.prems(4) _ m(1)]
  obtain s1 where s1: "apply_msg io clock ?s msg = Inr s1" "replica s1 = m" "wait_ok s1" "raft_inv (sv_raft s1)"
    "lastLogIndex (sv_raft s1) = lastLogIndex (sv_raft s)" "sv_applyCh s1 = rest"
    using Cons.prems(3,7) q by auto
  have "ok (sv_store s1)" using m(2) s1(2) by (auto simp: replica_def)
  from Cons.IH [OF this s1(3,4) Cons.prems(4)] s1(5,6) Cons.prems(5,7) q env(3)
  obtain s2 where "apply_turns io clocks s1 = Inr s2"
    "machine_run (applyCommand io) (zip clocks envs') (replica s1) = Inr (replica s2)"
    "ok (sv_store s2)" "wait_ok s2" "raft_inv (sv_raft s2)"
    "lastLogIndex (sv_raft s2) = lastLogIndex (sv_raft s)" "sv_applyCh s2 = []" by auto
  with s1(1,2) m(1) q env(1) show ?case by (auto simp: applyLoop_turn_def)
qed

end
