(* ===== verification/ServerProps.thy ===== *)
theory ServerProps
  imports ServerApply
begin

text \<open>
  The properties of the server: committed commands are executed once and in order, a waiting
  request gets the answer to its own command, and a write on a single node completes.
\<close>

section \<open>Concrete servers\<close>

text \<open>
  The domain of a map is not computed: the runs below do not need it, and rewriting with the
  code equations leaves it alone.
\<close>

declare dom_def [code del]

text \<open>A codec for the messages of a short list: the position of the message.\<close>

definition table_marshal :: "'m list \<Rightarrow> 'm option \<Rightarrow> go_error + bytes" where
  "table_marshal ms m =
     (case m of
        None \<Rightarrow> Inl (ErrorString (str ''nil message''))
      | Some x \<Rightarrow>
          if x \<in> set ms then Inr [word_of_nat (length (takeWhile (\<lambda>y. y \<noteq> x) ms))]
          else Inl (ErrorString (str ''unknown message'')))"

definition table_unmarshal :: "'m list \<Rightarrow> bytes \<Rightarrow> go_error + 'm" where
  "table_unmarshal ms d =
     (case d of
        [b] \<Rightarrow> if unat b < length ms then Inr (ms ! unat b) else Inl (ErrorString (str ''bad message''))
      | _ \<Rightarrow> Inl (ErrorString (str ''bad message'')))"

lemma table_codec:
  assumes "length ms \<le> 256"
  shows "codec_ok (table_marshal ms) (table_unmarshal ms) m"
proof -
  have "table_unmarshal ms [word_of_nat (length (takeWhile (\<lambda>y. y \<noteq> m) ms))] = Inr m" if "m \<in> set ms"
  proof -
    let ?n = "length (takeWhile (\<lambda>y. y \<noteq> m) ms)"
    have n: "?n < length ms" using that by (induction ms) auto
    then have "unat (word_of_nat ?n :: byte) = ?n" using assms by (simp add: unat_of_nat)
    moreover have "ms ! ?n = m" using nth_length_takeWhile [OF n] by simp
    ultimately show ?thesis using n by (simp add: table_unmarshal_def)
  qed
  then show ?thesis by (auto simp: codec_ok_def table_marshal_def split: if_splits)
qed

definition demo_io :: "Command list \<Rightarrow> (MemoryBackend, MemoryPersister) ServerIO" where
  "demo_io cs = memory_server
     (table_marshal (map (\<lambda>c. the (toPBCommand (Some c))) cs))
     (table_unmarshal (map (\<lambda>c. the (toPBCommand (Some c))) cs))
     (\<lambda>_. Inr [1]) (\<lambda>_. Inl (ErrorString (str ''snapshot''))) (\<lambda>_. Some [1]) (\<lambda>_. None)"

lemma demo_io_total: "snapshots_total (demo_io cs)"
  by (simp add: snapshots_total_def demo_io_def)

definition demo_put :: "int \<Rightarrow> int \<Rightarrow> gostring \<Rightarrow> bytes \<Rightarrow> Command" where
  "demo_put client seq k v = put_command
     \<lparr>pq_Key = k, pq_Value = v, pq_LeaseID = 0, pq_ClientID = client, pq_Seq = seq\<rparr>"

text \<open>A new server on a node of a cluster of the given size.\<close>

definition fresh_node :: "nat \<Rightarrow> MemoryPersister Raft" where
  "fresh_node n = (case Make memory_io n 0 MakePersister of Inl _ \<Rightarrow> undefined | Inr rf \<Rightarrow> rf)"

definition lone_node :: "MemoryPersister Raft" where
  "lone_node = fresh_node 1"

definition fresh_server :: "MemoryPersister Raft \<Rightarrow> (MemoryBackend, MemoryPersister) Server" where
  "fresh_server rf = (case NewServer (demo_io []) 0 rf NewKVStore [] of Inl _ \<Rightarrow> undefined | Inr s \<Rightarrow> s)"

section \<open>Exactly once\<close>

text \<open>
  A server between two rounds of its applier: well-formed, nothing queued, and \<open>envs\<close> the
  commands of the entries that are committed and not applied.
\<close>

definition about_to_apply :: "('b, 'p) ServerIO \<Rightarrow> ('b, 'p) Server \<Rightarrow> Command list \<Rightarrow> bool" where
  "about_to_apply io s envs \<longleftrightarrow>
     wait_ok s \<and> raft_inv (sv_raft s) \<and> sv_applyCh s = [] \<and>
     list_all2 (\<lambda>k env. Decode (sio_UnmarshalCommand io) (e_Command (entry_at (sv_raft s) k)) = Inr env)
       [rf_lastApplied (sv_raft s) + 1..min (rf_commitIndex (sv_raft s)) (lastLogIndex (sv_raft s))] envs"

lemma round_refines:
  assumes "command_executor (applyCommand io) ok" and "snapshots_total io" and "about_to_apply io s envs"
    and "ok (sv_store s)" and "length clocks = length envs"
  shows "\<exists>s'. apply_turns io clocks (applier_turn s) = Inr s' \<and>
    machine_run (applyCommand io) (zip clocks envs) (replica s) = Inr (replica s') \<and>
    ok (sv_store s') \<and> wait_ok s' \<and> sv_applyCh s' = []"
proof -
  note a = assms(3) [unfolded about_to_apply_def]
  let ?ks = "[rf_lastApplied (sv_raft s) + 1..min (rf_commitIndex (sv_raft s)) (lastLogIndex (sv_raft s))]"
  let ?rf = "(sv_raft s)\<lparr>rf_lastApplied := max (rf_lastApplied (sv_raft s))
    (min (rf_commitIndex (sv_raft s)) (lastLogIndex (sv_raft s)))\<rparr>"
  let ?s = "applier_turn s"
  have run: "applier_step (sv_raft s) = (?rf, map (command_msg (sv_raft s)) ?ks)"
    using applier_step_run a by blast
  then have turn: "?s = s\<lparr>sv_raft := ?rf, sv_applyCh := map (command_msg (sv_raft s)) ?ks\<rparr>"
    using a by (simp add: applier_turn_def)
  have cmds: "list_all2 (is_command io) (sv_applyCh ?s) envs"
    using a by (simp add: turn list_all2_conv_all_nth is_command_def command_msg_def)
  have inv: "raft_inv (sv_raft ?s)" using applier_step_inv [OF _ run] a by (simp add: turn)
  have le: "\<forall>msg \<in> set (sv_applyCh ?s). am_CommandIndex msg \<le> lastLogIndex (sv_raft ?s)"
    by (auto simp: turn command_msg_def lastLogIndex_def)
  have ok: "wait_ok ?s" "ok (sv_store ?s)" using a assms(4) by (simp_all add: turn wait_ok_def)
  have len: "length clocks = length (sv_applyCh ?s)" using list_all2_lengthD [OF cmds] assms(5) by simp
  have "replica ?s = replica s" by (simp add: turn replica_def)
  with apply_turns_refine [OF assms(1) ok(2,1) inv assms(2) len cmds le] show ?thesis by metis
qed

text \<open>
  C2: a round of the raft applier, followed by one turn of the apply loop for each message it
  sent, never panics and executes exactly the newly committed commands whose sequence number
  is above the last one of their client, in log order: the store, the table of sequence
  numbers and the table of results are those of the plain execution, however many requests
  are waiting. No command is executed twice, and a command with a new number is left out only
  when its client has a later one in the log before it.
\<close>
theorem committed_log_applied_once:
  assumes "sio_backend io = memory_backend" and "range_order (sio_key_order io)" and "snapshots_total io"
    and "store_ok (sv_store s)" and "wait_ok s" and "raft_inv (sv_raft s)" and "sv_applyCh s = []"
    and "ks = [rf_lastApplied (sv_raft s) + 1..
      min (rf_commitIndex (sv_raft s)) (lastLogIndex (sv_raft s))]"
    and "list_all2 (\<lambda>k env. Decode (sio_UnmarshalCommand io) (e_Command (entry_at (sv_raft s) k)) = Inr env) ks envs"
    and "length clocks = length ks" and "todo = fresh (sv_clientLastSeq s) (zip clocks envs)"
  shows "\<exists>s' rs. apply_turns io clocks (applier_turn s) = Inr s' \<and>
    execute (applyCommand io) todo (sv_store s) = Inr (sv_store s', rs) \<and>
    sv_clientLastSeq s' = seqs_after todo (sv_clientLastSeq s) \<and>
    sv_clientLastResult s' = results_after todo rs (sv_clientLastResult s) \<and>
    distinct (map command_id todo) \<and>
    (\<forall>t \<in> set (zip clocks envs). seq_in (sv_clientLastSeq s) (Command_ClientID (snd t)) < Command_Seq (snd t) \<longrightarrow>
      (\<exists>t' \<in> set todo. Command_ClientID (snd t') = Command_ClientID (snd t) \<and>
        Command_Seq (snd t) \<le> Command_Seq (snd t'))) \<and>
    store_ok (sv_store s') \<and> wait_ok s' \<and> sv_applyCh s' = []"
proof -
  have "about_to_apply io s envs" using assms(5-9) by (simp add: about_to_apply_def)
  then obtain s' where s': "apply_turns io clocks (applier_turn s) = Inr s'"
    "machine_run (applyCommand io) (zip clocks envs) (replica s) = Inr (replica s')"
    "store_ok (sv_store s')" "wait_ok s'" "sv_applyCh s' = []"
    using round_refines [OF memory_executor [OF assms(1,2)] assms(3) _ assms(4), of envs clocks]
      list_all2_lengthD [OF assms(9)] assms(10) by auto
  from s'(2) obtain rs where rs: "execute (applyCommand io) todo (sv_store s) = Inr (sv_store s', rs)"
    "sv_clientLastSeq s' = seqs_after todo (sv_clientLastSeq s)"
    "sv_clientLastResult s' = results_after todo rs (sv_clientLastResult s)"
    by (auto simp: machine_run_fresh assms(11) replica_def split: sum.splits)
  have "distinct (map command_id todo)" by (simp add: assms(11) fresh_distinct)
  moreover have "\<forall>t \<in> set (zip clocks envs). seq_in (sv_clientLastSeq s) (Command_ClientID (snd t)) < Command_Seq (snd t) \<longrightarrow>
      (\<exists>t' \<in> set todo. Command_ClientID (snd t') = Command_ClientID (snd t) \<and>
        Command_Seq (snd t) \<le> Command_Seq (snd t'))"
    unfolding assms(11) using fresh_complete by blast
  ultimately show ?thesis using s'(1,3-5) rs by blast
qed

definition demo_twice :: "(MemoryBackend, MemoryPersister) Server" where
  "demo_twice =
     (let c = demo_put 1 1 (str ''a'') [7]; io = demo_io [c]
      in fst (submit_start io (fst (submit_start io (fresh_server lone_node) c)) c))"

lemma fresh_server_fields:
  "sv_store (fresh_server rf) = NewKVStore" "sv_waitCh (fresh_server rf) = Map.empty"
  "sv_entries (fresh_server rf) = Map.empty"
  if "rf_snapshot rf = []"
  using that by (simp_all add: fresh_server_def NewServer_def SnapshotBytes_def)

lemma submit_start_frame: "\<exists>rf. fst (submit_start io s c) = s\<lparr>sv_raft := rf\<rparr>"
proof -
  have "\<exists>rf. s = s\<lparr>sv_raft := rf\<rparr>" by (rule exI [of _ "sv_raft s"]) simp
  then show ?thesis
    by (auto simp: submit_start_def Let_def split: sum.splits prod.splits)
qed

lemma demo_twice_log:
  "rf_lastApplied (sv_raft demo_twice) = 0 \<and> rf_commitIndex (sv_raft demo_twice) = 2 \<and>
   lastLogIndex (sv_raft demo_twice) = 2 \<and> sv_applyCh demo_twice = []"
  by code_simp

lemma demo_twice_ok: "raft_inv (sv_raft demo_twice)"
  by code_simp

lemma demo_twice_decode:
  "map (\<lambda>k. Decode (sio_UnmarshalCommand (demo_io [demo_put 1 1 (str ''a'') [7]]))
     (e_Command (entry_at (sv_raft demo_twice) k))) [1, 2] =
   [Inr (demo_put 1 1 (str ''a'') [7]), Inr (demo_put 1 1 (str ''a'') [7])]"
  by code_simp

lemma seq_in_empty: "seq_in Map.empty c = 0"
  by (simp add: seq_in_def)

lemma demo_twice_state:
  "sv_store demo_twice = NewKVStore \<and> sv_clientLastSeq demo_twice = Map.empty \<and> wait_ok demo_twice"
proof -
  let ?c = "demo_put 1 1 (str ''a'') [7]"
  obtain rf rf' where eq: "demo_twice = (fresh_server lone_node)\<lparr>sv_raft := rf\<rparr>\<lparr>sv_raft := rf'\<rparr>"
    unfolding demo_twice_def Let_def using submit_start_frame [of "demo_io [?c]"] by metis
  have "rf_snapshot lone_node = []" by code_simp
  then show ?thesis
    unfolding eq by (simp add: fresh_server_def NewServer_def SnapshotBytes_def wait_ok_def)
qed

theorem committed_log_applied_once_witness:
  "\<exists>s' rs. apply_turns (demo_io [demo_put 1 1 (str ''a'') [7]]) [\<lambda>_. 0, \<lambda>_. 0] (applier_turn demo_twice) = Inr s' \<and>
     execute (applyCommand (demo_io [demo_put 1 1 (str ''a'') [7]])) [(\<lambda>_. 0, demo_put 1 1 (str ''a'') [7])]
       NewKVStore = Inr (sv_store s', rs)"
proof -
  let ?c = "demo_put 1 1 (str ''a'') [7]"
  let ?io = "demo_io [?c]"
  have io: "sio_backend ?io = memory_backend" "range_order (sio_key_order ?io)"
    by (simp_all add: demo_io_def range_order_sorted)
  note st = demo_twice_state and lg = demo_twice_log
  have ok: "store_ok (sv_store demo_twice)" using mem_store_new st by (auto simp: store_ok_def)
  have ks: "[rf_lastApplied (sv_raft demo_twice) + 1..
      min (rf_commitIndex (sv_raft demo_twice)) (lastLogIndex (sv_raft demo_twice))] = [1, 2]"
    using lg by (simp add: upto.simps)
  have dec: "list_all2 (\<lambda>k env. Decode (sio_UnmarshalCommand ?io) (e_Command (entry_at (sv_raft demo_twice) k)) = Inr env)
      [1, 2] [?c, ?c]"
    using demo_twice_decode by simp
  have ids: "Command_ClientID ?c = 1" "Command_Seq ?c = 1"
    by (simp_all add: demo_put_def put_command_def Command_ClientID_def Command_Seq_def)
  have todo: "[(\<lambda>_. 0, ?c)] = fresh (sv_clientLastSeq demo_twice) (zip [\<lambda>_. 0, \<lambda>_. 0] [?c, ?c])"
    using st by (simp add: ids seq_in_empty)
  from committed_log_applied_once [OF io demo_io_total ok _ demo_twice_ok _ ks [symmetric] dec _ todo] st lg
  show ?thesis by auto
qed

section \<open>Waiting requests\<close>

text \<open>
  C13: when the apply loop wakes a waiting request, either the log was replaced by a snapshot
  and the request is told to find the leader, or the message carried the very command the
  request waits for, at the index it registered for, and its result is the one the table
  keeps for its client and its sequence number.
\<close>
theorem waiter_gets_own_result:
  assumes "wait_ok s" and "range_order (sio_wait_order io)" and "apply_msg io clock s msg = Inr s'"
    and "sv_entries s r = Some ch" and "\<not> we_Notify ch" and "sv_entries s' r = Some ch'" and "we_Notify ch'"
  shows "am_SnapshotValid msg \<and> res_Err (we_Result ch') = Some ErrNotLeader \<or>
    (\<exists>env. is_command io msg env \<and> match ch env \<and> sv_waitCh s (am_CommandIndex msg) = Some r \<and>
       last_seq s' (we_ClientID ch) = we_Seq ch \<and> we_Result ch' = last_result s' (we_ClientID ch))"
proof (cases "am_SnapshotValid msg")
  case True
  with assms(3) have "restoreSnapshot io s (am_Snapshot msg) = Inr s'" by (simp add: apply_msg_def)
  from restoreSnapshot_woken [OF assms(1,2) this assms(4-7)] True show ?thesis by simp
next
  case False
  with assms(3-7) have "am_CommandValid msg" by (auto simp: apply_msg_def split: if_splits)
  with False assms(3) obtain env s1 new where env: "is_command io msg env"
    "apply_dedup s (am_CommandIndex msg) env = Inr (s1, new)"
    "if new then apply_fresh io clock s1 (am_CommandIndex msg) env = Inr s' else s' = s1"
    by (auto simp: apply_msg_def is_command_def change_def split: sum.splits if_splits)
  have "sv_waitCh s (am_CommandIndex msg) = Some r \<and> match ch env \<and>
      last_seq s' (Command_ClientID env) = Command_Seq env \<and> we_Result ch' = last_result s' (Command_ClientID env)"
  proof (cases new)
    case True
    with env(2) have "s1 = s" by (auto simp: apply_dedup_def Let_def split: if_splits sum.splits)
    with env(3) True apply_fresh_woken [OF assms(1) _ assms(4-7)] show ?thesis by auto
  next
    case False
    with env(3) assms(4-7) have ne: "s1 \<noteq> s" by auto
    with False env(2) have n: "notify_waiter s (am_CommandIndex msg) env (last_result s (Command_ClientID env)) = Inr s1"
      and q: "Command_Seq env = last_seq s (Command_ClientID env)"
      by (auto simp: apply_dedup_def Let_def split: if_splits sum.splits)
    obtain w e where "s1 = s\<lparr>sv_waitCh := w, sv_entries := e\<rparr>" 
      using notify_waiter_ok [OF assms(1), of "am_CommandIndex msg" env "last_result s (Command_ClientID env)"] n
      by auto
    with notify_waiter_woken [OF assms(1) n assms(4,5)] assms(6,7) env(3) False q show ?thesis
      by (auto simp: last_seq_def last_result_def)
  qed
  with env(1) show ?thesis by (auto simp: match_def)
qed

definition demo_waiting :: "(MemoryBackend, MemoryPersister) Server" where
  "demo_waiting =
     (let c = demo_put 1 1 (str ''a'') [7]
      in fst (submit_register (fst (submit_start (demo_io [c]) (fresh_server lone_node) c)) 1 c))"

definition demo_msg :: ApplyMsg where
  "demo_msg = hd (snd (applier_step (sv_raft demo_waiting)))"

lemma demo_waiting_run:
  "\<not> am_SnapshotValid demo_msg \<and>
   (case sv_entries demo_waiting 0 of None \<Rightarrow> False | Some ch \<Rightarrow> \<not> we_Notify ch \<and> we_ClientID ch = 1 \<and> we_Seq ch = 1) \<and>
   (case apply_msg (demo_io [demo_put 1 1 (str ''a'') [7]]) (\<lambda>_. 0) demo_waiting demo_msg of
      Inl _ \<Rightarrow> False
    | Inr s' \<Rightarrow> (case sv_entries s' 0 of None \<Rightarrow> False | Some ch \<Rightarrow> we_Notify ch))"
  by code_simp

lemma demo_waiting_ok: "wait_ok demo_waiting" and demo_waiting_store: "sv_store demo_waiting = NewKVStore"
proof -
  let ?c = "demo_put 1 1 (str ''a'') [7]"
  obtain rf where eq: "fst (submit_start (demo_io [?c]) (fresh_server lone_node) ?c) = (fresh_server lone_node)\<lparr>sv_raft := rf\<rparr>"
    using submit_start_frame by blast
  have "rf_snapshot lone_node = []" by code_simp
  then have ok: "wait_ok ((fresh_server lone_node)\<lparr>sv_raft := rf\<rparr>)"
    and st: "sv_store (fresh_server lone_node) = NewKVStore"
    by (simp_all add: fresh_server_def NewServer_def SnapshotBytes_def wait_ok_def)
  show "wait_ok demo_waiting" unfolding demo_waiting_def Let_def eq by (rule wait_ok_register [OF ok])
  show "sv_store demo_waiting = NewKVStore"
    unfolding demo_waiting_def Let_def eq using st by (simp add: submit_register_def Let_def split: option.splits)
qed

theorem waiter_gets_own_result_witness:
  "\<exists>s' ch'. apply_msg (demo_io [demo_put 1 1 (str ''a'') [7]]) (\<lambda>_. 0) demo_waiting demo_msg = Inr s' \<and>
     sv_entries s' 0 = Some ch' \<and> last_seq s' 1 = 1 \<and> we_Result ch' = last_result s' 1"
proof -
  obtain s' ch ch' where run: "apply_msg (demo_io [demo_put 1 1 (str ''a'') [7]]) (\<lambda>_. 0) demo_waiting demo_msg = Inr s'"
    "sv_entries demo_waiting 0 = Some ch" "\<not> we_Notify ch" "sv_entries s' 0 = Some ch'" "we_Notify ch'"
    "we_ClientID ch = 1" "we_Seq ch = 1" "\<not> am_SnapshotValid demo_msg"
    using demo_waiting_run by (auto split: sum.splits option.splits)
  from waiter_gets_own_result [OF demo_waiting_ok _ run(1-5)] run show ?thesis
    by (auto simp: demo_io_def range_order_sorted)
qed

text \<open>
  The process around a request on a cluster of one node: nothing happens before it registers,
  then the applier and the apply loop take a turn.
\<close>

definition lone_schedule :: "('b, 'p) ServerIO \<Rightarrow> (nat \<Rightarrow> int) \<Rightarrow> ('b, 'p) schedule" where
  "lone_schedule io clock =
     \<lparr>sch_other = (\<lambda>k s. if k = 0 then s
        else case apply_turns io [clock] (applier_turn s) of Inl _ \<Rightarrow> s | Inr s1 \<Rightarrow> s1),
      sch_wake = Notified, sch_confirmed = True, sch_polls = 0, sch_ctx = DeadlineExceeded\<rparr>"

lemma Start_lone:
  assumes "raft_inv rf" "rf_peers rf \<le> 1" "rf_state rf = Leader"
  obtains rf' where "Start io rf d = (rf', lastLogIndex rf + 1, rf_currentTerm rf, True)" "raft_inv rf'"
    "lastLogIndex rf' = lastLogIndex rf + 1" "rf_commitIndex rf' = lastLogIndex rf + 1"
    "rf_lastApplied rf' = rf_lastApplied rf" "e_Command (entry_at rf' (lastLogIndex rf + 1)) = d"
proof -
  let ?rf = "fst (Start io rf d)"
  have eq: "Start io rf d = (?rf, lastLogIndex rf + 1, rf_currentTerm rf, True)"
    using assms(2,3) by (simp add: Start_def Let_def)
  have "rf_log ?rf = rf_log rf @ [\<lparr>e_Term = rf_currentTerm rf, e_Command = d, e_Index = lastLogIndex rf + 1\<rparr>]"
    "rf_lastIncludeIndex ?rf = rf_lastIncludeIndex rf" "rf_commitIndex ?rf = lastLogIndex rf + 1"
    "rf_lastApplied ?rf = rf_lastApplied rf"
    using assms(2,3) by (simp_all add: Start_def Let_def)
  moreover have "raft_inv ?rf" using Start_inv [OF assms(1)] by simp
  ultimately show ?thesis
    by (intro that [OF eq]) (simp_all add: lastLogIndex_def entry_at_def nth_append)
qed

text \<open>The server of a lone node when the apply loop gets the command of a waiting request.\<close>

abbreviation lone_waiting :: "('b, 'p) Server \<Rightarrow> Command \<Rightarrow> 'p Raft \<Rightarrow> ('b, 'p) Server" where
  "lone_waiting s env rf \<equiv> s\<lparr>sv_waitCh := (sv_waitCh s)(lastLogIndex (sv_raft s) + 1 \<mapsto> sv_nextEntry s),
     sv_entries := (sv_entries s)(sv_nextEntry s \<mapsto> new_waitEntry env), sv_nextEntry := sv_nextEntry s + 1,
     sv_raft := rf, sv_applyCh := []\<rparr>"

lemma lone_round:
  assumes "raft_inv (sv_raft s)" and "rf_peers (sv_raft s) \<le> 1"
    and "rf_state (sv_raft s) = Leader" and "rf_lastApplied (sv_raft s) = lastLogIndex (sv_raft s)"
    and "\<not> sv_closeCh s" and "sv_applyCh s = []"
    and "sv_LastResult s (lastLogIndex (sv_raft s) + 1) = None"
    and "command_ok env" and "Encode (sio_MarshalCommand io) (Some env) = Inr d"
    and "codec_ok (sio_MarshalCommand io) (sio_UnmarshalCommand io) (the (toPBCommand (Some env)))"
  obtains rf msg where "raft_inv rf" "lastLogIndex rf = lastLogIndex (sv_raft s) + 1" "is_command io msg env"
    "am_CommandIndex msg = lastLogIndex (sv_raft s) + 1"
    "\<And>s' ch. apply_msg io clock (lone_waiting s env rf) msg = Inr s' \<Longrightarrow>
       sv_entries s' (sv_nextEntry s) = Some ch \<Longrightarrow> we_Notify ch \<Longrightarrow>
       submit io (lone_schedule io clock) s env = Some (s', we_Result ch, res_Err (we_Result ch))"
proof -
  let ?i = "lastLogIndex (sv_raft s) + 1"
  obtain rf where rf: "Start (sio_raft io) (sv_raft s) d = (rf, ?i, rf_currentTerm (sv_raft s), True)"
    "raft_inv rf" "lastLogIndex rf = ?i" "rf_commitIndex rf = ?i" "rf_lastApplied rf = rf_lastApplied (sv_raft s)"
    "e_Command (entry_at rf ?i) = d" by (rule Start_lone [OF assms(1-3)])
  let ?w = "sv_nextEntry s"
  let ?s2 = "s\<lparr>sv_raft := rf, sv_waitCh := (sv_waitCh s)(?i \<mapsto> ?w),
    sv_entries := (sv_entries s)(?w \<mapsto> new_waitEntry env), sv_nextEntry := ?w + 1\<rparr>"
  have start: "submit_start io s env = (s\<lparr>sv_raft := rf\<rparr>, Inr ?i)"
    using assms(5,9) rf(1) by (simp add: submit_start_def change_def)
  have reg: "submit_register (s\<lparr>sv_raft := rf\<rparr>) ?i env = (?s2, Inr ?w)"
    using assms(7) by (simp add: submit_register_def Let_def)
  obtain rf' where step: "applier_step rf = (rf', [command_msg rf ?i])" "raft_inv rf'" "lastLogIndex rf' = ?i"
    using applier_step_run [OF rf(2)] applier_step_inv [OF rf(2)] rf(3-5) assms(4)
    by (auto simp: lastLogIndex_def)
  have cmd: "is_command io (command_msg rf ?i) env"
    using decode_encode [OF assms(8,10,9)] rf(6) by (simp add: is_command_def command_msg_def)
  have run: "submit io (lone_schedule io clock) s env = Some (s', we_Result ch, res_Err (we_Result ch))"
    if "apply_msg io clock (lone_waiting s env rf') (command_msg rf ?i) = Inr s'"
      "sv_entries s' ?w = Some ch" "we_Notify ch" for s' ch
  proof -
    have "sch_other (lone_schedule io clock) 1 ?s2 = s'"
      using step(1) assms(6) that(1) by (simp add: lone_schedule_def applier_turn_def applyLoop_turn_def)
    with that(2,3) show ?thesis
      by (simp add: submit_def start reg lone_schedule_def wake_ready_def submit_finish_def Let_def)
  qed
  show ?thesis by (rule that [OF step(2,3) cmd _ run]) (simp_all add: command_msg_def)
qed

lemma new_waitEntry_matches: "match (new_waitEntry env) env" "\<not> we_Notify (new_waitEntry env)"
  by (simp_all add: match_def new_waitEntry_def)

lemma lone_submit:
  assumes "snapshots_total io" and "raft_inv (sv_raft s)" and "rf_peers (sv_raft s) \<le> 1"
    and "rf_state (sv_raft s) = Leader" and "rf_lastApplied (sv_raft s) = lastLogIndex (sv_raft s)"
    and "\<not> sv_closeCh s" and "sv_applyCh s = []"
    and "sv_LastResult s (lastLogIndex (sv_raft s) + 1) = None"
    and "command_ok env" and "Encode (sio_MarshalCommand io) (Some env) = Inr d"
    and "codec_ok (sio_MarshalCommand io) (sio_UnmarshalCommand io) (the (toPBCommand (Some env)))"
    and "last_seq s (Command_ClientID env) < Command_Seq env"
    and "applyCommand io clock (sv_store s) env = Inr (st, r)"
  shows "\<exists>s'. submit io (lone_schedule io clock) s env = Some (s', stamp env r, res_Err r) \<and> sv_store s' = st"
proof -
  obtain rf msg where r: "raft_inv rf" "lastLogIndex rf = lastLogIndex (sv_raft s) + 1" "is_command io msg env"
    "am_CommandIndex msg = lastLogIndex (sv_raft s) + 1"
    "\<And>s' ch. apply_msg io clock (lone_waiting s env rf) msg = Inr s' \<Longrightarrow>
       sv_entries s' (sv_nextEntry s) = Some ch \<Longrightarrow> we_Notify ch \<Longrightarrow>
       submit io (lone_schedule io clock) s env = Some (s', we_Result ch, res_Err (we_Result ch))"
    by (rule lone_round [where clock = clock, OF assms(2-11)]) (rule that, assumption+)
  obtain s' where s': "apply_msg io clock (lone_waiting s env rf) msg = Inr s'" "sv_store s' = st"
    "sv_entries s' (sv_nextEntry s) = Some ((new_waitEntry env)\<lparr>we_Result := stamp env r, we_Notify := True\<rparr>)"
    using apply_msg_wakes [OF r(3) assms(1), of "lone_waiting s env rf" clock st r "sv_nextEntry s" "new_waitEntry env"]
      r(1,2,4) assms(12,13) new_waitEntry_matches by (auto simp: last_seq_def seq_in_def)
  from r(5) [OF s'(1,3)] s'(2) show ?thesis by (simp add: stamp_def)
qed

text \<open>A request whose number was its client's last is answered from the table.\<close>

lemma lone_repeat:
  assumes "raft_inv (sv_raft s)" and "rf_peers (sv_raft s) \<le> 1"
    and "rf_state (sv_raft s) = Leader" and "rf_lastApplied (sv_raft s) = lastLogIndex (sv_raft s)"
    and "\<not> sv_closeCh s" and "sv_applyCh s = []"
    and "sv_LastResult s (lastLogIndex (sv_raft s) + 1) = None"
    and "command_ok env" and "Encode (sio_MarshalCommand io) (Some env) = Inr d"
    and "codec_ok (sio_MarshalCommand io) (sio_UnmarshalCommand io) (the (toPBCommand (Some env)))"
    and "last_seq s (Command_ClientID env) = Command_Seq env"
  shows "\<exists>s'. submit io (lone_schedule io clock) s env = Some (s', last_result s (Command_ClientID env),
      res_Err (last_result s (Command_ClientID env))) \<and>
    replica s' = replica s"
proof -
  obtain rf msg where r: "is_command io msg env" "am_CommandIndex msg = lastLogIndex (sv_raft s) + 1"
    "\<And>s' ch. apply_msg io clock (lone_waiting s env rf) msg = Inr s' \<Longrightarrow>
       sv_entries s' (sv_nextEntry s) = Some ch \<Longrightarrow> we_Notify ch \<Longrightarrow>
       submit io (lone_schedule io clock) s env = Some (s', we_Result ch, res_Err (we_Result ch))"
    by (rule lone_round [where clock = clock, OF assms(1-10)]) (rule that, assumption+)
  let ?ch = "(new_waitEntry env)\<lparr>we_Result := last_result s (Command_ClientID env), we_Notify := True\<rparr>"
  let ?s = "lone_waiting s env rf"
  let ?s' = "?s\<lparr>sv_waitCh := (sv_waitCh ?s)(lastLogIndex (sv_raft s) + 1 := None),
    sv_entries := (sv_entries ?s)(sv_nextEntry s \<mapsto> ?ch)\<rparr>"
  have "last_seq ?s c = last_seq s c" "last_result ?s c = last_result s c" for c
    by (simp_all add: last_seq_def last_result_def)
  then have "apply_msg io clock ?s msg = Inr ?s'"
    using r(1,2) assms(11) new_waitEntry_matches
    by (simp add: apply_msg_def is_command_def apply_dedup_def notify_waiter_def change_def Let_def)
  from r(3) [OF this] show ?thesis by (simp add: replica_def)
qed

text \<open>
  on a cluster of one node every well-formed command with a new sequence number
  completes. The request returns, with the result of executing the command on the store, and
  the store is the one after the execution.
\<close>
theorem single_node_command_completes:
  assumes "snapshots_total io" and "raft_inv (sv_raft s)" and "rf_peers (sv_raft s) \<le> 1"
    and "rf_state (sv_raft s) = Leader" and "rf_lastApplied (sv_raft s) = lastLogIndex (sv_raft s)"
    and "\<not> sv_closeCh s" and "sv_applyCh s = []"
    and "sv_LastResult s (lastLogIndex (sv_raft s) + 1) = None"
    and "command_ok env" and "Encode (sio_MarshalCommand io) (Some env) = Inr d"
    and "codec_ok (sio_MarshalCommand io) (sio_UnmarshalCommand io) (the (toPBCommand (Some env)))"
    and "last_seq s (Command_ClientID env) < Command_Seq env"
    and "applyCommand io clock (sv_store s) env = Inr (st, r)"
  shows "\<exists>s'. submit io (lone_schedule io clock) s env = Some (s', stamp env r, res_Err r) \<and> sv_store s' = st"
  by (rule lone_submit [OF assms])

lemma lone_node_facts: "raft_inv lone_node \<and> rf_peers lone_node = 1 \<and> rf_state lone_node = Leader \<and>
    rf_lastApplied lone_node = 0 \<and> lastLogIndex lone_node = 0 \<and> rf_snapshot lone_node = []"
  by code_simp

lemma fresh_server_eq:
  "rf_snapshot rf = [] \<Longrightarrow> fresh_server rf =
     \<lparr>sv_id = 0, sv_raft = rf, sv_store = NewKVStore, sv_applyCh = [], sv_closeCh = False,
      sv_waitCh = Map.empty, sv_entries = Map.empty, sv_nextEntry = 0, sv_LastResult = Map.empty,
      sv_clientLastSeq = Map.empty, sv_clientLastResult = Map.empty, sv_maxraftstate = 100,
      sv_watchers = Map.empty\<rparr>"
  by (simp add: fresh_server_def NewServer_def SnapshotBytes_def)

lemmas lone_server_eq = fresh_server_eq [of lone_node]

lemma put_command_ok: "command_ok (put_command q)"
  unfolding command_ok_def put_command_def by (rule disjI1, rule exI, rule conjI [rotated], rule refl) (simp add: is_u8_def)

lemma demo_put_first:
  "applyCommand (demo_io cs) clock NewKVStore (demo_put c q k v) =
     Inr (fst (KVStore_Put memory_backend NewKVStore (clock 0) k v 0), zero_Result\<lparr>res_Rev := Some (Revision 1 0)\<rparr>)"
proof -
  obtain st where "KVStore_Put memory_backend NewKVStore (clock 0) k v 0 = (st, Inr (Revision (int (length []) + 1) 0))"
    by (rule mem.Put_ok [OF mem_storeD(1) [OF mem_store_new], of 0 "clock 0" k v]) auto
  then show ?thesis
    by (simp add: applyCommand_def applyKV_def demo_put_def put_command_def demo_io_def)
qed

theorem single_node_command_completes_witness:
  "\<exists>s'. submit (demo_io [demo_put 1 1 (str ''a'') [7]]) (lone_schedule (demo_io [demo_put 1 1 (str ''a'') [7]]) (\<lambda>_. 0))
      (fresh_server lone_node) (demo_put 1 1 (str ''a'') [7]) =
    Some (s', stamp (demo_put 1 1 (str ''a'') [7]) (zero_Result\<lparr>res_Rev := Some (Revision 1 0)\<rparr>), None)"
proof -
  let ?c = "demo_put 1 1 (str ''a'') [7]"
  note f = lone_node_facts
  then have eq: "rf_snapshot lone_node = []" by simp
  have ok: "command_ok ?c" by (simp add: demo_put_def put_command_ok)
  have enc: "Encode (sio_MarshalCommand (demo_io [?c])) (Some ?c) = Inr [0]" by code_simp
  have cod: "codec_ok (sio_MarshalCommand (demo_io [?c])) (sio_UnmarshalCommand (demo_io [?c])) (the (toPBCommand (Some ?c)))"
    by (simp add: demo_io_def table_codec)
  have new: "last_seq (fresh_server lone_node) (Command_ClientID ?c) < Command_Seq ?c"
    using eq by (simp add: lone_server_eq last_seq_def demo_put_def put_command_def Command_Seq_def)
  have run: "applyCommand (demo_io [?c]) (\<lambda>_. 0) (sv_store (fresh_server lone_node)) ?c =
      Inr (fst (KVStore_Put memory_backend NewKVStore 0 (str ''a'') [7] 0), zero_Result\<lparr>res_Rev := Some (Revision 1 0)\<rparr>)"
    using demo_put_first [of _ "\<lambda>_. 0"] eq by (simp add: lone_server_eq)
  from single_node_command_completes [OF demo_io_total _ _ _ _ _ _ _ ok enc cod new run] f
  show ?thesis by (auto simp: lone_server_eq zero_Result_def)
qed

end
