(* ===== verification/MvccProps.thy ===== *)
theory MvccProps
  imports StoreRun
begin

text \<open>
  The properties of the multi-version store, stated over the code's operations on the
  in-memory backend. Each follows from the library lemmas through the interpretation of the
  backend contract; the concrete stores below serve the examples that accompany them.
\<close>

section \<open>Concrete stores\<close>

definition key_a :: gostring where "key_a = str ''a''"
definition key_b :: gostring where "key_b = str ''b''"

definition demo :: "MemoryBackend KVStore" where
  "demo = fst (KVStore_Put memory_backend NewKVStore 0 key_a [1] 0)"

definition demo_history :: "Event list" where
  "demo_history = [put_event [] key_a [1]]"

definition demo_lease :: "MemoryBackend KVStore" where
  "demo_lease = fst (KVStore_Put memory_backend (fst (LeaseGrant NewKVStore 0 10)) 5 key_a [1] 1)"

lemma key_ab: "key_a \<noteq> key_b" "key_a \<noteq> []" "key_b \<noteq> []"
  by (simp_all add: key_a_def key_b_def str_def)

lemma put_step_mem:
  assumes "mem_store H s" and "lid = 0 \<or> (\<exists>l. lookupLeaseLocked s now lid = Inr l)"
  obtains s' where "KVStore_Put memory_backend s now k v lid = (s', Inr (Revision (int (length H) + 1) 0))"
    "mem_store (H @ [put_event H k v]) s'"
    "s_keyLease s' = (s_keyLease s)(k := if lid = 0 then None else Some lid)"
    "\<not> s_closed s \<Longrightarrow> s_eventCh s' = s_eventCh s @ [put_event H k v]"
proof -
  obtain s' where s': "KVStore_Put memory_backend s now k v lid = (s', Inr (Revision (int (length H) + 1) 0))"
    "store_inv mem_inv MemoryBackend_SnapshotState (H @ [put_event H k v]) s'"
    "s_keyLease s' = (s_keyLease s)(k := if lid = 0 then None else Some lid)"
    "\<not> s_closed s \<Longrightarrow> s_eventCh s' = s_eventCh s @ [put_event H k v]"
    by (rule mem.Put_ok [OF mem_storeD(1) [OF assms(1)] assms(2)]) blast
  have "same_watch s s'" using same_watch_put [of s memory_backend now k v lid] s'(1) by simp
  with s' mem_store_same [OF assms(1)] show ?thesis by (intro that [of s']) auto
qed

lemma demo_store: "mem_store demo_history demo"
  by (rule put_step_mem [OF mem_store_new, of 0 0 key_a "[1]"])
    (simp_all add: demo_def demo_history_def)

lemma demo_lease_store:
  "mem_store demo_history demo_lease" "leases_of demo_lease 1 \<noteq> None" "s_keyLease demo_lease key_a = Some 1"
proof -
  let ?s = "fst (LeaseGrant NewKVStore 0 10)"
  have ok: "mem_store [] ?s" by (rule step_lease(1) [OF mem_store_new])
  have "\<exists>l. lookupLeaseLocked ?s 5 1 = Inr l"
    by (simp add: lookupLeaseLocked_def LeaseGrant_def NewKVStore_def NewKVStoreWithBackend_def
        NewLeaseManager_def ttl_duration_def i64_id)
  then have "(1::int) = 0 \<or> (\<exists>l. lookupLeaseLocked ?s 5 1 = Inr l)" by blast
  then obtain s' where s': "KVStore_Put memory_backend ?s 5 key_a [1] 1 =
      (s', Inr (Revision (int (length ([] :: Event list)) + 1) 0))"
    "mem_store ([] @ [put_event [] key_a [1]]) s'"
    "s_keyLease s' = (s_keyLease ?s)(key_a := if 1 = (0::int) then None else Some 1)"
    by (rule put_step_mem [OF ok, where k = key_a and v = "[1]"]) blast
  then show "mem_store demo_history demo_lease" and kl: "s_keyLease demo_lease key_a = Some 1"
    by (simp_all add: demo_lease_def demo_history_def)
  then show "leases_of demo_lease 1 \<noteq> None"
    using lease_okD(6) [of demo_lease key_a 1] by (auto simp: mem_store_def store_inv_def)
qed

lemma demo_facts:
  "bs_CompactRev (MemoryBackend_SnapshotState (s_backend demo)) = 0"
  "\<not> s_closed demo" "s_eventCh demo = demo_history"
  by (simp_all add: demo_def NewKVStore_def NewKVStoreWithBackend_def KVStore_Put_def
      KVStore_Put_crit_def putLocked_def Let_def memory_backend_defs NewMemoryBackend_def
      detachKeyLocked_def demo_history_def put_event_def send_events_def send_event_def
      NewLeaseManager_def versions_or_nil_def split: option.splits)

section \<open>Histories\<close>

text \<open>
  C3: whatever the clients, the lease clock, the watchers and the dispatcher do in whatever
  order, the store's data, lease tables and watcher tables stay consistent and the store
  refines a history that only grows: every step appends changes, none rewrites one.
\<close>
theorem history_append_only:
  assumes "mem_store H s" and "store_steps s s'"
  shows "\<exists>H'. mem_store (H @ H') s'"
  by (rule store_steps_history [OF assms(2,1)])

theorem history_append_only_witness:
  "\<exists>H'. mem_store ([] @ H') (fst (KVStore_Delete memory_backend demo key_b))"
proof -
  have "store_step NewKVStore demo" unfolding demo_def by (rule store_step.put)
  then have "store_steps NewKVStore (fst (KVStore_Delete memory_backend demo key_b))"
    by (meson rtranclp.simps store_step.delete)
  then show ?thesis by (rule history_append_only [OF mem_store_new])
qed

text \<open>
  C7: a read at a past revision is immutable: as long as compaction has not passed it,
  no later sequence of operations changes what \<^verbatim>\<open>Get\<close> or \<^verbatim>\<open>Range\<close> returns for it.
\<close>
theorem reads_immutable:
  assumes "mem_store H s" and "store_steps s s'"
    and "bs_CompactRev (MemoryBackend_SnapshotState (s_backend s)) < r"
    and "bs_CompactRev (MemoryBackend_SnapshotState (s_backend s')) < r"
    and "r \<le> int (length H)"
  shows "KVStore_Get memory_backend s' k r = KVStore_Get memory_backend s k r \<and>
    KVStore_Range memory_backend s' a b r = KVStore_Range memory_backend s a b r"
proof -
  obtain H' where H': "mem_store (H @ H') s'" using store_steps_history [OF assms(2,1)] by blast
  have eq: "state_at (H @ H') r = state_at H r"
    by (rule state_at_stable [OF history_ok_mem [OF H'] assms(5)])
  have "r \<noteq> 0" using assms(3) mem_storeD(1) [OF assms(1)]
    by (auto simp: store_inv_def dest: refines_basic(3))
  then have "KVStore_Range memory_backend s' a b r = range_spec (H @ H') a b r"
    "KVStore_Range memory_backend s a b r = range_spec H a b r"
    using assms(3,4) mem.Range_eq [OF mem_storeD(1) [OF H']] mem.Range_eq [OF mem_storeD(1) [OF assms(1)]]
    by simp_all
  moreover have "range_spec (H @ H') a b r = range_spec H a b r"
    using rev_at_stable [OF history_ok_mem [OF H'] assms(5)] by (simp add: range_spec_def eq)
  ultimately show ?thesis
    using mem.Get_at [OF mem_storeD(1) [OF H'] assms(4)] mem.Get_at [OF mem_storeD(1) [OF assms(1)] assms(3)]
    by (simp add: eq)
qed

theorem reads_immutable_witness:
  "KVStore_Get memory_backend (fst (LeaseGrant demo 0 5)) key_a 1 = KVStore_Get memory_backend demo key_a 1 \<and>
   KVStore_Range memory_backend (fst (LeaseGrant demo 0 5)) [] key_b 1 =
     KVStore_Range memory_backend demo [] key_b 1"
proof (rule reads_immutable [OF demo_store])
  show "store_steps demo (fst (LeaseGrant demo 0 5))" by (blast intro: store_step.grant)
  show "bs_CompactRev (MemoryBackend_SnapshotState (s_backend (fst (LeaseGrant demo 0 5)))) < 1"
    by (simp add: LeaseGrant_def Let_def demo_facts)
qed (simp_all add: demo_facts demo_history_def)

section \<open>Writes and reads\<close>

text \<open>The latest value of a key, as a read at revision 0 gives it.\<close>

definition latest :: "MemoryBackend KVStore \<Rightarrow> gostring \<Rightarrow> bytes option" where
  "latest s k = (case KVStore_Get memory_backend s k 0 of (v, _, found) \<Rightarrow> if found then Some v else None)"

lemma latest_replay: "mem_store H s \<Longrightarrow> latest s k = replay H k"
  using mem.Get_eq [OF mem_storeD(1), of H s 0 "int (length H)" k] state_at_current [of H]
    history_ok_mem [of H s]
  by (simp add: latest_def split: option.splits)

text \<open>
  a put without lease, or with a lease that is known and not expired, is given the next
  revision, is what the next read of the key returns, changes no other key, moves the
  key's lease binding and queues one put event.
\<close>
theorem put_spec:
  assumes "mem_store H s"
    and "lid = 0 \<or> (\<exists>l. leases_of s lid = Some l \<and> now \<le> le_ExpireAt l)"
  shows "\<exists>s'. KVStore_Put memory_backend s now k v lid = (s', Inr (Revision (int (length H) + 1) 0)) \<and>
    mem_store (H @ [put_event H k v]) s' \<and>
    KVStore_Get memory_backend s' k 0 = (v, int (length H) + 1, True) \<and>
    latest s' = (latest s)(k \<mapsto> v) \<and>
    s_keyLease s' = (s_keyLease s)(k := if lid = 0 then None else Some lid) \<and>
    (\<not> s_closed s \<longrightarrow> s_eventCh s' = s_eventCh s @ [put_event H k v])"
proof -
  have "lid = 0 \<or> (\<exists>l. lookupLeaseLocked s now lid = Inr l)"
    using assms(2) by (auto simp: lookupLeaseLocked_Inr)
  then obtain s' where s': "KVStore_Put memory_backend s now k v lid = (s', Inr (Revision (int (length H) + 1) 0))"
    "mem_store (H @ [put_event H k v]) s'"
    "s_keyLease s' = (s_keyLease s)(k := if lid = 0 then None else Some lid)"
    "\<not> s_closed s \<Longrightarrow> s_eventCh s' = s_eventCh s @ [put_event H k v]"
    by (rule put_step_mem [OF assms(1)]) blast
  have "latest s' = (latest s)(k \<mapsto> v)"
    by (simp add: fun_eq_iff latest_replay [OF s'(2)] latest_replay [OF assms(1)] replay_put)
  moreover have "KVStore_Get memory_backend s' k 0 = (v, int (length H) + 1, True)"
    using mem.Get_eq [OF mem_storeD(1) [OF s'(2)], of 0 "int (length H) + 1" k]
      state_at_current [OF history_ok_mem [OF s'(2)]] by (simp add: replay_put add.commute)
  ultimately show ?thesis using s' by blast
qed

theorem put_spec_witness:
  "\<exists>s'. KVStore_Put memory_backend demo 0 key_b [2] 0 = (s', Inr (Revision 2 0)) \<and>
    KVStore_Get memory_backend s' key_b 0 = ([2], 2, True)"
  using put_spec [OF demo_store, of 0 0 key_b "[2]"] by (auto simp: demo_history_def)

text \<open>
  A put that names an unknown or an expired lease returns that error and changes
  nothing: no revision is used, no version written, no event queued.
\<close>
theorem put_lease_error:
  assumes "lid \<noteq> 0"
  shows "(leases_of s lid = None \<longrightarrow>
      KVStore_Put memory_backend s now k v lid = (s, Inl (LeaseNotFound lid))) \<and>
    (leases_of s lid = Some l \<longrightarrow> le_ExpireAt l < now \<longrightarrow>
      KVStore_Put memory_backend s now k v lid = (s, Inl (LeaseAlreadyExpired lid)))"
  using assms by (simp_all add: KVStore_Put_def KVStore_Put_crit_def lookupLeaseLocked_def send_events_def)

theorem put_lease_error_witness:
  "KVStore_Put memory_backend NewKVStore 0 key_a [1] 7 = (NewKVStore, Inl (LeaseNotFound 7)) \<and>
   KVStore_Put memory_backend (fst (LeaseGrant NewKVStore 0 1)) 2000000000 key_a [1] 1 =
     (fst (LeaseGrant NewKVStore 0 1), Inl (LeaseAlreadyExpired 1))"
  using put_lease_error [of 7 NewKVStore 0 key_a "[1]"]
    put_lease_error [of 1 "fst (LeaseGrant NewKVStore 0 1)" 2000000000 key_a "[1]"
      "\<lparr>le_ID = 1, le_TTL = 1, le_ExpireAt = 1000000000, le_Keys = {}\<rparr>"]
  by (simp add: LeaseGrant_def NewKVStore_def NewKVStoreWithBackend_def NewLeaseManager_def
      ttl_duration_def i64_id)

text \<open>
  a delete is given the next revision and makes the key absent for the next read, whether
  it existed or not; other keys keep their values, the key loses its lease and one delete
  event is queued.
\<close>
theorem delete_spec:
  assumes "mem_store H s"
  shows "\<exists>s'. KVStore_Delete memory_backend s k = (s', Revision (int (length H) + 1) 0) \<and>
    mem_store (H @ [delete_event H k]) s' \<and> latest s' = (latest s)(k := None) \<and>
    s_keyLease s' = (s_keyLease s)(k := None) \<and>
    (\<not> s_closed s \<longrightarrow> s_eventCh s' = s_eventCh s @ [delete_event H k])"
proof -
  obtain s' where s': "KVStore_Delete memory_backend s k = (s', Revision (int (length H) + 1) 0)"
    "store_inv mem_inv MemoryBackend_SnapshotState (H @ [delete_event H k]) s'"
    "s_keyLease s' = (s_keyLease s)(k := None)"
    "\<not> s_closed s \<Longrightarrow> s_eventCh s' = s_eventCh s @ [delete_event H k]"
    by (rule mem.Delete_ok [OF mem_storeD(1) [OF assms]]) blast
  have "same_watch s s'" using same_watch_delete [of s memory_backend k] s'(1) by simp
  then have m: "mem_store (H @ [delete_event H k]) s'" by (rule mem_store_same [OF assms _ s'(2)])
  have "latest s' = (latest s)(k := None)"
    by (simp add: fun_eq_iff latest_replay [OF m] latest_replay [OF assms] replay_delete)
  with m s' show ?thesis by blast
qed

theorem delete_spec_witness:
  "\<exists>s'. KVStore_Delete memory_backend demo key_a = (s', Revision 2 0) \<and> latest s' key_a = None"
  using delete_spec [OF demo_store, of key_a] by (auto simp: demo_history_def)

text \<open>
  C23: \<^verbatim>\<open>Get\<close> at a revision above the compaction point, or at the current one, returns the
  value the history has for the key there, and a compacted revision is refused.
\<close>
theorem get_spec:
  assumes "mem_store H s"
  shows "if rv = 0 \<or> bs_CompactRev (MemoryBackend_SnapshotState (s_backend s)) < rv
    then (case KVStore_Get memory_backend s k rv of (v, _, found) \<Rightarrow> if found then Some v else None) =
      state_at H (if rv = 0 then int (length H) else rv) k
    else KVStore_Get memory_backend s k rv = ([], rv, False)"
  using mem.Get_eq [OF mem_storeD(1) [OF assms] _ refl, of rv k]
    mem.Get_compacted [OF mem_storeD(1) [OF assms], of rv k]
  by (auto split: option.splits)

theorem get_spec_witness:
  "(case KVStore_Get memory_backend demo key_a 1 of (v, _, found) \<Rightarrow> if found then Some v else None) =
     state_at demo_history 1 key_a \<and>
   KVStore_Get memory_backend demo key_a (-1) = ([], -1, False)"
  using get_spec [OF demo_store, of 1 key_a] get_spec [OF demo_store, of "-1" key_a]
  by (simp add: demo_facts)

text \<open>
  The binary searches over a key's versions, in \<^verbatim>\<open>index.go\<close> and written out again in
  \<^verbatim>\<open>Get\<close>, both find the last version not later than the revision.
\<close>
theorem version_searches_agree:
  assumes "versions_sorted vs"
  shows "get_loop vs rv 0 (int (length vs) - 1) (-1) = int (length (filter (\<lambda>v. vmain v \<le> rv) vs)) - 1 \<and>
    latestVisibleRevision vs rv = visible_at vs rv \<and>
    firstRevisionAfter vs rv =
      (if \<forall>v \<in> set vs. vmain v \<le> rv then -1 else int (length (filter (\<lambda>v. vmain v \<le> rv) vs)))"
  using visible_loop_start [OF assms] latestVisibleRevision_eq [OF assms] firstRevisionAfter_eq [OF assms]
  by (auto simp: get_loop_eq filter_id_conv)

theorem version_searches_agree_witness:
  "get_loop [version_of (put_event [] key_a [1])] 5 0 0 (-1) = 0 \<and>
   latestVisibleRevision [version_of (put_event [] key_a [1])] 0 = None"
  using version_searches_agree [of "[version_of (put_event [] key_a [1])]" 5]
    version_searches_agree [of "[version_of (put_event [] key_a [1])]" 0]
  by (simp add: versions_sorted_def visible_at_def)

end
