(* ===== verification/MvccProps2.thy ===== *)
theory MvccProps2
  imports MvccProps
begin

text \<open>
  Further properties of the store: interval and prefix reads, transactions, compaction,
  leases, watching and snapshots.
\<close>

section \<open>Interval and prefix reads\<close>



text \<open>
  \<^verbatim>\<open>PrefixRange\<close> returns exactly the live keys that start with the prefix, whenever the
  prefix has a byte below 255.
\<close>
theorem prefix_range_returns_prefixed_keys:
  assumes "mem_store H s" and "r = (if rv = 0 then int (length H) else rv)"
    and "bs_CompactRev (MemoryBackend_SnapshotState (s_backend s)) < r"
    and "\<exists>c \<in> set p. c \<noteq> 0xff"
  shows "map kv_Key (KVStore_PrefixRange memory_backend s p rv) =
    sorted_list_of_set {k. take (length p) k = p \<and> state_at H r k \<noteq> None}"
proof -
  have ne: "prefixEnd p \<noteq> []" using prefixEnd_cases [of p] assms(4) by auto
  have "{k. p \<le> k \<and> k < prefixEnd p \<and> state_at H r k \<noteq> None} =
      {k. take (length p) k = p \<and> state_at H r k \<noteq> None}"
    using prefix_interval [OF ne] by auto
  then show ?thesis
    using mem.Range_eq [OF mem_storeD(1) [OF assms(1)] assms(2,3), of p "prefixEnd p"]
    by (simp add: KVStore_PrefixRange_def range_spec_def o_def)
qed

theorem prefix_range_returns_prefixed_keys_witness:
  "map kv_Key (KVStore_PrefixRange memory_backend demo key_a 0) =
    sorted_list_of_set {k. take (length key_a) k = key_a \<and> state_at demo_history 1 k \<noteq> None}"
  by (rule prefix_range_returns_prefixed_keys [OF demo_store])
    (simp_all add: demo_facts demo_history_def key_a_def str_def)

text \<open>
  A prefix with no byte below 255, the empty prefix among them, selects nothing although
  every key has the empty prefix: the end of its interval is the empty string, which
  \<^verbatim>\<open>RangeKeys\<close> reads as no bound but the filter in \<^verbatim>\<open>Range\<close> takes literally.
\<close>
theorem prefix_range_unbounded_empty:
  assumes "\<forall>c \<in> set p. c = 0xff"
  shows "KVStore_PrefixRange memory_backend s p rv = []"
proof -
  have "prefixEnd p = []" using prefixEnd_cases [of p] assms by (auto simp: word_less_def)
  moreover have "KVStore_Range memory_backend s p [] rv = []"
    by (simp add: KVStore_Range_def range_loop_map_filter Let_def)
  ultimately show ?thesis by (simp add: KVStore_PrefixRange_def)
qed

theorem prefix_range_unbounded_empty_witness:
  "KVStore_PrefixRange memory_backend demo [] 0 = [] \<and> latest demo key_a = Some [1]"
  using prefix_range_unbounded_empty [of "[]" demo 0] latest_replay [OF demo_store, of key_a]
  by (simp add: demo_history_def replay_def apply_event_def)

section \<open>Transactions\<close>

text \<open>
  C8: a transaction never panics and is atomic. Its comparisons are evaluated against the
  latest revision of each key. If a put of the chosen branch names an unusable lease,
  nothing changes; otherwise the branch's operations take effect in order as consecutive
  revisions, each read seeing the writes before it, and all events are queued in order.
\<close>
theorem txn_atomic:
  assumes "mem_store H s"
  shows "case txn_check_leases s clock 0 (branch H t) of
      Some e \<Rightarrow> KVStore_Txn memory_backend s clock t = Inr (s, Inl e)
    | None \<Rightarrow> \<exists>s'. KVStore_Txn memory_backend s clock t =
          Inr (s', Inr (compares_hold H (txn_Compares t), ops_reads H (branch H t))) \<and>
        mem_store (H @ ops_events H (branch H t)) s' \<and>
        s_keyLease s' = fold bind_op (branch H t) (s_keyLease s) \<and>
        (\<not> s_closed s \<longrightarrow> s_eventCh s' = s_eventCh s @ ops_events H (branch H t))"
proof (cases "txn_check_leases s clock 0 (branch H t)")
  case None
  obtain s' where s': "KVStore_Txn memory_backend s clock t =
      Inr (s', Inr (compares_hold H (txn_Compares t), ops_reads H (branch H t)))"
    "store_inv mem_inv MemoryBackend_SnapshotState (H @ ops_events H (branch H t)) s'"
    "s_keyLease s' = fold bind_op (branch H t) (s_keyLease s)"
    "\<not> s_closed s \<Longrightarrow> s_eventCh s' = s_eventCh s @ ops_events H (branch H t)"
    by (rule mem.Txn_ok [OF mem_storeD(1) [OF assms] None]) blast
  with mem_store_same [OF assms same_watch_txn [OF s'(1)] s'(2)] None show ?thesis by auto
next
  case (Some e)
  with mem.Txn_err [OF mem_storeD(1) [OF assms] Some] show ?thesis by simp
qed

theorem txn_atomic_witness:
  "\<exists>s'. KVStore_Txn memory_backend demo (\<lambda>_. 0)
      \<lparr>txn_Compares = [\<lparr>cmp_Key = key_a, cmp_Op = CompareEqual, cmp_Rev = 1\<rparr>],
       txn_ThenOps = [\<lparr>op_Type = OpPut, op_Key = key_b, op_Value = [2], op_LeaseID = 0\<rparr>,
         \<lparr>op_Type = OpGet, op_Key = key_b, op_Value = [], op_LeaseID = 0\<rparr>],
       txn_ElseOps = []\<rparr> =
    Inr (s', Inr (True, [\<lparr>kv_Key = key_b, kv_Value = [2], kv_Rev = Revision 2 0\<rparr>]))"
  using txn_atomic [OF demo_store, of "\<lambda>_. 0"
      "\<lparr>txn_Compares = [\<lparr>cmp_Key = key_a, cmp_Op = CompareEqual, cmp_Rev = 1\<rparr>],
       txn_ThenOps = [\<lparr>op_Type = OpPut, op_Key = key_b, op_Value = [2], op_LeaseID = 0\<rparr>,
         \<lparr>op_Type = OpGet, op_Key = key_b, op_Value = [], op_LeaseID = 0\<rparr>],
       txn_ElseOps = []\<rparr>"] key_ab
  by (auto simp: branch_def compares_hold_def compare_ok_def latest_rev_def key_events_def
      demo_history_def op_events_def read_latest_def)

section \<open>Compaction\<close>

text \<open>
  C22: compaction outside the window between the last compaction and the current revision is
  refused without effect. Inside, every read above the new compaction point is unchanged,
  reads at or below it are refused, the event log starts above it, and each key keeps at
  most one version not above it.
\<close>
theorem compact_spec:
  assumes "mem_store H s" and "c = bs_CompactRev (MemoryBackend_SnapshotState (s_backend s))"
  shows "if rv \<le> c \<or> int (length H) < rv
    then KVStore_Compact memory_backend s rv = (s, Some ErrCompacted)
    else \<exists>s'. KVStore_Compact memory_backend s rv = (s', None) \<and> mem_store H s' \<and>
      (\<forall>k r. rv < r \<longrightarrow> KVStore_Get memory_backend s' k r = KVStore_Get memory_backend s k r) \<and>
      (\<forall>k r. r \<noteq> 0 \<longrightarrow> r \<le> rv \<longrightarrow> KVStore_Get memory_backend s' k r = ([], r, False)) \<and>
      (\<forall>a b r. rv < r \<longrightarrow>
         KVStore_Range memory_backend s' a b r = KVStore_Range memory_backend s a b r) \<and>
      MemoryBackend_Events (s_backend s') = filter (\<lambda>e. rv < emain e) H \<and>
      (\<forall>k vs. MemoryBackend_GetRevisions (s_backend s') k = Some vs \<longrightarrow>
         length (filter (\<lambda>v. vmain v \<le> rv) vs) \<le> 1)"
proof (cases "rv \<le> c \<or> int (length H) < rv")
  case True
  with mem.Compact_err [OF mem_storeD(1) [OF assms(1)]] assms(2) show ?thesis by simp
next
  case False
  note inv = mem_storeD(1) [OF assms(1)]
  obtain b where b: "KVStore_Compact memory_backend s rv = (s\<lparr>s_backend := b\<rparr>, None)"
    "store_inv mem_inv MemoryBackend_SnapshotState H (s\<lparr>s_backend := b\<rparr>)"
    "bs_CompactRev (MemoryBackend_SnapshotState b) = rv"
    "bs_Data (MemoryBackend_SnapshotState b) =
      (\<lambda>k. map_option (compacted rv) (bs_Data (MemoryBackend_SnapshotState (s_backend s)) k))"
    by (rule mem.Compact_ok [OF inv, of rv]) (use False assms(2) in auto)
  have m: "mem_store H (s\<lparr>s_backend := b\<rparr>)"
    using mem_store_same [OF assms(1) _ b(2)] same_watch_compact [of s memory_backend rv] b(1) by simp
  have rv: "0 < rv" using False assms(2) refines_basic(3) inv by (fastforce simp: store_inv_def)
  have "KVStore_Get memory_backend (s\<lparr>s_backend := b\<rparr>) k r = KVStore_Get memory_backend s k r"
    if "rv < r" for k r
    using mem.Get_at [OF b(2), of r k] mem.Get_at [OF inv, of r k] that b(3) False assms(2) by simp
  moreover have "KVStore_Range memory_backend (s\<lparr>s_backend := b\<rparr>) x y r = KVStore_Range memory_backend s x y r"
    if "rv < r" for x y r
    using mem.Range_eq [OF b(2), of r r x y] mem.Range_eq [OF inv, of r r x y] that b(3) False assms(2) rv
    by simp
  moreover have "MemoryBackend_Events b = filter (\<lambda>e. rv < emain e) H"
    using refines_basic(5) [of H "MemoryBackend_SnapshotState b"] b(2,3)
    by (simp add: store_inv_def MemoryBackend_Events_def MemoryBackend_SnapshotState_def)
  moreover have "length (filter (\<lambda>v. vmain v \<le> rv) vs) \<le> 1"
    if "MemoryBackend_GetRevisions b k = Some vs" for k vs
  proof -
    have "bs_Data (MemoryBackend_SnapshotState b) k = Some vs"
      using that mem.GetRevisions [of b k] b(2) by (simp add: store_inv_def memory_backend_def)
    then obtain us where "bs_Data (MemoryBackend_SnapshotState (s_backend s)) k = Some us"
      "vs = compacted rv us" by (auto simp: b(4))
    then show ?thesis using compacted_upto refines_sorted inv by (auto simp: store_inv_def)
  qed
  ultimately show ?thesis
    using False b(1) m mem.Get_compacted [OF b(2)] b(3) by auto
qed

theorem compact_spec_witness:
  "KVStore_Compact memory_backend demo 2 = (demo, Some ErrCompacted) \<and>
   (\<exists>s'. KVStore_Compact memory_backend demo 1 = (s', None) \<and> mem_store demo_history s')"
  using compact_spec [OF demo_store refl, of 2] compact_spec [OF demo_store refl, of 1]
  by (auto simp: demo_facts demo_history_def)

text \<open>
  After compacting at the current revision an interval read of the current revision
  returns nothing until the next write, while a point read of the same key still answers:
  \<^verbatim>\<open>Range\<close> resolves revision 0 before it compares with the compaction point, \<^verbatim>\<open>Get\<close> after.
\<close>
theorem range_blind_after_full_compaction:
  assumes "mem_store H s"
    and "bs_CompactRev (MemoryBackend_SnapshotState (s_backend s)) = int (length H)"
  shows "KVStore_Range memory_backend s a b 0 = [] \<and> latest s k = replay H k"
  using mem.Range_compacted [OF mem_storeD(1) [OF assms(1)], of 0] assms(2)
    latest_replay [OF assms(1)] by simp

theorem range_blind_after_full_compaction_witness:
  "\<exists>s. KVStore_Compact memory_backend demo 1 = (s, None) \<and>
     KVStore_Range memory_backend s [] key_b 0 = [] \<and> latest s key_a = Some [1]"
proof -
  obtain b where b: "KVStore_Compact memory_backend demo 1 = (demo\<lparr>s_backend := b\<rparr>, None)"
    "store_inv mem_inv MemoryBackend_SnapshotState demo_history (demo\<lparr>s_backend := b\<rparr>)"
    "bs_CompactRev (MemoryBackend_SnapshotState b) = 1"
    by (rule mem.Compact_ok [OF mem_storeD(1) [OF demo_store], of 1])
      (auto simp: demo_facts demo_history_def)
  have m: "mem_store demo_history (demo\<lparr>s_backend := b\<rparr>)"
    using mem_store_same [OF demo_store _ b(2)] same_watch_compact [of demo memory_backend 1] b(1) by simp
  have "replay demo_history key_a = Some [1]"
    by (simp add: demo_history_def replay_def apply_event_def)
  with range_blind_after_full_compaction [OF m, of "[]" key_b key_a] b show ?thesis
    by (simp add: demo_history_def)
qed

end
