(* ===== verification/MvccProps3.thy ===== *)
theory MvccProps3
  imports MvccProps2
begin

text \<open>Properties of leases, watching and snapshots.\<close>

section \<open>Leases\<close>

text \<open>
  C26: a granted lease is fresh, is accepted up to and including the end of its time to live
  and refused afterwards, and keeping it alive within that time starts the time to live
  again and reports it in seconds. This needs the time to live to fit in 64 bits of
  nanoseconds.
\<close>
theorem lease_lifetime:
  assumes "lease_ok s" and "0 \<le> ttl" and "ttl \<le> 9223372036"
    and "LeaseGrant s now ttl = (s1, i)" and "LeaseKeepAlive s1 t i = (s2, r)"
  shows "leases_of s i = None \<and>
    (lookupLeaseLocked s1 u i = Inl (LeaseAlreadyExpired i) \<longleftrightarrow> now + ttl * 1000000000 < u) \<and>
    (u \<le> now + ttl * 1000000000 \<longrightarrow> (\<exists>l. lookupLeaseLocked s1 u i = Inr l)) \<and>
    (if t \<le> now + ttl * 1000000000
     then r = Inr ttl \<and>
       (lookupLeaseLocked s2 u i = Inl (LeaseAlreadyExpired i) \<longleftrightarrow> t + ttl * 1000000000 < u)
     else s2 = s1 \<and> r = Inl (LeaseAlreadyExpired i))"
proof -
  have d: "ttl_duration ttl = ttl * 1000000000"
    using assms(2,3) by (simp add: ttl_duration_def i64_id)
  have ws: "whole_seconds (ttl * 1000000000) = ttl"
    using assms(2) by (simp add: whole_seconds_def abs_mult sgn_if)
  have i: "i = lm_nextLeaseID (s_leaseMgr s) + 1" "leases_of s1 i =
      Some \<lparr>le_ID = i, le_TTL = ttl, le_ExpireAt = now + ttl * 1000000000, le_Keys = {}\<rparr>"
    using assms(4) by (auto simp: LeaseGrant_def Let_def d)
  have "leases_of s i = None"
    using lease_okD(4) [OF assms(1), of i] i(1) by (cases "leases_of s i") auto
  moreover have "if t \<le> now + ttl * 1000000000
     then r = Inr ttl \<and>
       (lookupLeaseLocked s2 u i = Inl (LeaseAlreadyExpired i) \<longleftrightarrow> t + ttl * 1000000000 < u)
     else s2 = s1 \<and> r = Inl (LeaseAlreadyExpired i)"
    using assms(5) i(2) by (auto simp: LeaseKeepAlive_def Let_def d ws lookupLeaseLocked_def split: if_splits)
  ultimately show ?thesis using i(2) by (auto simp: lookupLeaseLocked_def)
qed

theorem lease_lifetime_witness:
  "lookupLeaseLocked (fst (LeaseGrant NewKVStore 0 10)) 10000000001 1 = Inl (LeaseAlreadyExpired 1)"
proof -
  let ?s1 = "fst (LeaseGrant NewKVStore 0 10)"
  have g: "LeaseGrant NewKVStore 0 10 = (?s1, 1)"
    by (simp add: LeaseGrant_def NewKVStore_def NewKVStoreWithBackend_def NewLeaseManager_def)
  have ok: "lease_ok NewKVStore" by (simp add: NewKVStore_def lease_ok_new)
  show ?thesis
    using lease_lifetime [OF ok _ _ g, of 0 "fst (LeaseKeepAlive ?s1 0 1)" "snd (LeaseKeepAlive ?s1 0 1)"
        10000000001] by simp
qed

text \<open>
  C32: a time to live of 9223372037 seconds or a little more overflows the 64 bit duration:
  the lease is granted but already expired, for every store and clock.
\<close>
theorem lease_ttl_overflow:
  assumes "9223372037 \<le> ttl" and "ttl \<le> 18446744073"
  shows "lookupLeaseLocked (fst (LeaseGrant s now ttl)) now (snd (LeaseGrant s now ttl)) =
    Inl (LeaseAlreadyExpired (snd (LeaseGrant s now ttl)))"
proof -
  have "i64 (ttl * 1000000000) = ttl * 1000000000 - 2 ^ 64"
  proof -
    have "i64 (ttl * 1000000000 - 2 ^ 64) = ttl * 1000000000 - 2 ^ 64"
      using assms by (intro i64_id) simp_all
    moreover have "i64 (ttl * 1000000000 - 2 ^ 64) = i64 (ttl * 1000000000)"
      unfolding i64_def signed_take_bit_eq_iff_take_bit_eq
      by (simp add: take_bit_eq_mod mod_diff_eq [symmetric, of _ _ "18446744073709551616 :: int"])
    ultimately show ?thesis by simp
  qed
  then have "ttl_duration ttl < 0" using assms by (simp add: ttl_duration_def)
  then show ?thesis by (simp add: LeaseGrant_def Let_def lookupLeaseLocked_def)
qed

theorem lease_ttl_overflow_witness:
  "lookupLeaseLocked (fst (LeaseGrant NewKVStore 0 9223372037)) 0 1 = Inl (LeaseAlreadyExpired 1)"
  using lease_ttl_overflow [of 9223372037 NewKVStore 0]
  by (simp add: LeaseGrant_def NewKVStore_def NewKVStoreWithBackend_def NewLeaseManager_def)

text \<open>
  C27: revoking a lease deletes exactly the keys bound to it, one revision each, removes the
  lease, leaves every other key and lease, and queues one delete event per key.
\<close>
theorem revoke_deletes_bound_keys:
  assumes "mem_store H s" and "leases_of s i = Some l" and "range_order rng"
  shows "\<exists>s'. LeaseRevoke rng memory_backend s i = (s', None) \<and>
    mem_store (H @ delete_events H (rng (le_Keys l))) s' \<and>
    set (rng (le_Keys l)) = {k. s_keyLease s k = Some i} \<and>
    latest s' = (\<lambda>k. if s_keyLease s k = Some i then None else latest s k) \<and>
    leases_of s' = (leases_of s)(i := None) \<and>
    s_keyLease s' = (\<lambda>k. if s_keyLease s k = Some i then None else s_keyLease s k) \<and>
    (\<not> s_closed s \<longrightarrow> s_eventCh s' = s_eventCh s @ delete_events H (rng (le_Keys l)))"
proof -
  note inv = mem_storeD(1) [OF assms(1)]
  obtain s' where s': "LeaseRevoke rng memory_backend s i = (s', None)"
    "store_inv mem_inv MemoryBackend_SnapshotState (H @ delete_events H (rng (le_Keys l))) s'"
    "leases_of s' = (leases_of s)(i := None)"
    "s_keyLease s' = s_keyLease s |` (- le_Keys l)"
    "\<not> s_closed s \<Longrightarrow> s_eventCh s' = s_eventCh s @ delete_events H (rng (le_Keys l))"
    by (rule mem.Revoke_ok [OF inv assms(2,3)]) blast
  have lok: "lease_ok s" using inv by (simp add: store_inv_def)
  have K: "le_Keys l = {k. s_keyLease s k = Some i}" by (rule lease_okD(5) [OF lok assms(2)])
  have rs: "set (rng (le_Keys l)) = le_Keys l"
    by (rule range_order_set [OF assms(3) finite_le_Keys [OF lok assms(2)]])
  have m: "mem_store (H @ delete_events H (rng (le_Keys l))) s'"
    using mem_store_same [OF assms(1) _ s'(2)] same_watch_revoke [of s rng memory_backend i] s'(1) by simp
  have "latest s' = (\<lambda>k. if s_keyLease s k = Some i then None else latest s k)"
    by (simp add: fun_eq_iff latest_replay [OF m] latest_replay [OF assms(1)] replay_deletes rs)
      (simp add: K restrict_map_def)
  moreover have "s_keyLease s' = (\<lambda>k. if s_keyLease s k = Some i then None else s_keyLease s k)"
    by (auto simp: s'(4) K restrict_map_def fun_eq_iff)
  ultimately show ?thesis using s' m rs K by auto
qed

theorem revoke_deletes_bound_keys_witness:
  "\<exists>s'. LeaseRevoke sorted_list_of_set memory_backend demo_lease 1 = (s', None) \<and> latest s' key_a = None"
proof -
  obtain l where "leases_of demo_lease 1 = Some l" using demo_lease_store(2) by auto
  from revoke_deletes_bound_keys [OF demo_lease_store(1) this range_order_sorted]
  show ?thesis using demo_lease_store(3) by auto
qed

text \<open>
  the revisions a revocation hands out depend on the unspecified order in which Go visits
  the lease's keys: two replicas that apply the same revocation with different orders answer
  a read at the first of these revisions differently.
\<close>
theorem revoke_order_observable:
  assumes "mem_store H s" and "leases_of s i = Some l" and "range_order rng1" "range_order rng2"
    and "rng1 (le_Keys l) = k1 # ks1" "rng2 (le_Keys l) = k2 # ks2" "k1 \<noteq> k2" "latest s k1 \<noteq> None"
  shows "KVStore_Get memory_backend (fst (LeaseRevoke rng1 memory_backend s i)) k1 (int (length H) + 1) \<noteq>
    KVStore_Get memory_backend (fst (LeaseRevoke rng2 memory_backend s i)) k1 (int (length H) + 1)"
proof -
  note inv = mem_storeD(1) [OF assms(1)]
  have c: "bs_CompactRev (MemoryBackend_SnapshotState (s_backend s)) < int (length H) + 1"
    using inv refines_basic(2,4) by (fastforce simp: store_inv_def)
  have get: "KVStore_Get memory_backend (fst (LeaseRevoke rng memory_backend s i)) k1 (int (length H) + 1) =
      (case state_at (H @ [delete_event H k]) (int (length H) + 1) k1 of
        None \<Rightarrow> ([], int (length H) + 1, False) | Some v \<Rightarrow> (v, int (length H) + 1, True))"
    if ro: "range_order rng" and rk: "rng (le_Keys l) = k # ks" for rng k ks
  proof -
    obtain s' where s': "LeaseRevoke rng memory_backend s i = (s', None)"
      "store_inv mem_inv MemoryBackend_SnapshotState (H @ delete_events H (rng (le_Keys l))) s'"
      "bs_CompactRev (MemoryBackend_SnapshotState (s_backend s')) =
        bs_CompactRev (MemoryBackend_SnapshotState (s_backend s))"
      by (rule mem.Revoke_ok [OF inv assms(2) ro]) blast
    have h: "history_ok ((H @ [delete_event H k]) @ delete_events (H @ [delete_event H k]) ks)"
      using s'(2) rk refines_basic(1) by (fastforce simp: store_inv_def)
    have "state_at (H @ delete_events H (rng (le_Keys l))) (int (length H) + 1) =
        state_at (H @ [delete_event H k]) (int (length H) + 1)"
      using state_at_stable [OF h, of "int (length H) + 1"] rk by simp
    with mem.Get_at [OF s'(2), of "int (length H) + 1" k1] s' c show ?thesis by simp
  qed
  have ok: "history_ok (H @ [delete_event H k])" for k
    using history_ok_mem [OF assms(1)] by (simp add: history_ok_snoc)
  have st: "state_at (H @ [delete_event H k]) (int (length H) + 1) = (replay H)(k := None)" for k
    using state_at_current [OF ok [of k]] by (simp add: replay_delete add.commute)
  show ?thesis
    unfolding get [OF assms(3,5)] get [OF assms(4,6)] st
    using assms(7,8) latest_replay [OF assms(1), of k1] by auto
qed

theorem revoke_order_observable_witness:
  "\<exists>s. KVStore_Get memory_backend (fst (LeaseRevoke sorted_list_of_set memory_backend s 1)) key_a 3 \<noteq>
     KVStore_Get memory_backend (fst (LeaseRevoke (\<lambda>K. rev (sorted_list_of_set K)) memory_backend s 1)) key_a 3"
proof -
  have "\<exists>l. lookupLeaseLocked demo_lease 5 1 = Inr l"
    by (simp add: demo_lease_def lookupLeaseLocked_def LeaseGrant_def NewKVStore_def
        NewKVStoreWithBackend_def NewLeaseManager_def ttl_duration_def i64_id KVStore_Put_def
        KVStore_Put_crit_def putLocked_def bindKeyToLeaseLocked_def Let_def)
  then have "(1::int) = 0 \<or> (\<exists>l. lookupLeaseLocked demo_lease 5 1 = Inr l)" by blast
  then obtain s where s: "mem_store (demo_history @ [put_event demo_history key_b [2]]) s"
    "s_keyLease s = (s_keyLease demo_lease)(key_b := if 1 = (0::int) then None else Some 1)"
    by (rule put_step_mem [OF demo_lease_store(1), where k = key_b and v = "[2]"]) blast
  have lok: "lease_ok s" using s(1) by (simp add: mem_store_def store_inv_def)
  then obtain l where l: "leases_of s 1 = Some l" using lease_okD(6) [OF lok, of key_b 1] s(2) by auto
  have dl: "s_keyLease demo_lease = [key_a \<mapsto> 1]"
    by (simp add: demo_lease_def LeaseGrant_def NewKVStore_def lookupLeaseLocked_def ttl_duration_def
        NewKVStoreWithBackend_def NewLeaseManager_def KVStore_Put_def KVStore_Put_crit_def
        putLocked_def bindKeyToLeaseLocked_def Let_def i64_id)
  have K: "le_Keys l = {key_a, key_b}"
    using lease_okD(5) [OF lok l] key_ab by (auto simp: s(2) dl split: if_splits)
  have srt: "sorted_list_of_set {key_a, key_b} = [key_a, key_b]"
    by (rule sorted_list_of_set_eqI [symmetric]) (auto simp: key_a_def key_b_def str_def)
  have "latest s key_a \<noteq> None"
    using latest_replay [OF s(1), of key_a] key_ab
    by (simp add: demo_history_def replay_def apply_event_def)
  from revoke_order_observable [OF s(1) l range_order_sorted range_order_rev [OF range_order_sorted]
      _ _ key_ab(1) this, of "[key_b]" "[key_a]"]
  show ?thesis by (auto simp: K srt demo_history_def)
qed

text \<open>
  a tick of the expiration loop touches only leases whose time has passed: each deleted
  key was bound to an expired lease, at most 64 leases go, and if there are no more than 64
  expired leases, all of them go.
\<close>
theorem expiration_tick_spec:
  assumes "mem_store H s" and "range_order rng_id" and "range_order rng"
    and "E = {i. \<exists>l. leases_of s i = Some l \<and> le_ExpireAt l < now}"
  shows "\<exists>ids H'. set ids \<subseteq> E \<and> length ids \<le> 64 \<and> (card E \<le> 64 \<longrightarrow> set ids = E) \<and>
    mem_store (H @ H') (expiration_tick rng_id rng memory_backend s now) \<and>
    leases_of (expiration_tick rng_id rng memory_backend s now) = leases_of s |` (- set ids) \<and>
    (\<forall>e \<in> set H'. ev_Type e = EventDelete \<and> (\<exists>i \<in> set ids. s_keyLease s (ev_Key e) = Some i))"
proof -
  note inv = mem_storeD(1) [OF assms(1)]
  have lok: "lease_ok s" using inv by (simp add: store_inv_def)
  define ids where "ids = ExpiredLeaseIDs rng_id s now 64"
  let ?F = "filter (\<lambda>i. le_ExpireAt (the (leases_of s i)) < now) (rng_id (dom (leases_of s)))"
  note rs = range_order_set [OF assms(2) lease_okD(1) [OF lok]]
    range_order_distinct [OF assms(2) lease_okD(1) [OF lok]]
  have n: "ids = take 64 ?F"
    using expired_loop_prefix [of "rng_id (dom (leases_of s))" "leases_of s" 64 "[]" now] rs(1)
    by (auto simp: ids_def ExpiredLeaseIDs_def)
  have E: "set ?F = E" unfolding assms(4) set_filter rs(1) by auto
  then have "card E = length ?F" using rs(2) by (metis distinct_card distinct_filter)
  then have full: "card E \<le> 64 \<longrightarrow> ids = ?F" using n by auto
  have len: "length ids \<le> 64" using n by simp
  have sub: "set ids \<subseteq> E" using n E by (metis set_take_subset)
  obtain H' where H': "store_inv mem_inv MemoryBackend_SnapshotState (H @ H')
      (expiration_tick rng_id rng memory_backend s now)"
    "leases_of (expiration_tick rng_id rng memory_backend s now) = leases_of s |` (- set ids)"
    "\<forall>e \<in> set H'. ev_Type e = EventDelete \<and> (\<exists>i \<in> set ids. s_keyLease s (ev_Key e) = Some i)"
    using mem.revoke_list [OF inv assms(3), of ids] by (auto simp: expiration_tick_def ids_def)
  have "mem_store (H @ H') (expiration_tick rng_id rng memory_backend s now)"
    by (rule mem_store_same [OF assms(1) same_watch_tick H'(1)])
  with sub len full E H' show ?thesis by blast
qed

theorem expiration_tick_spec_witness:
  "\<exists>ids. set ids = {i. \<exists>l. leases_of demo_lease i = Some l \<and> le_ExpireAt l < 10000000001} \<and>
     leases_of (expiration_tick sorted_list_of_set sorted_list_of_set memory_backend demo_lease 10000000001) =
       leases_of demo_lease |` (- set ids)"
proof -
  have "dom (leases_of demo_lease) = {1}"
    by (simp add: demo_lease_def LeaseGrant_def NewKVStore_def lookupLeaseLocked_def ttl_duration_def
        NewKVStoreWithBackend_def NewLeaseManager_def KVStore_Put_def KVStore_Put_crit_def
        putLocked_def bindKeyToLeaseLocked_def Let_def i64_id)
  then have "{i. \<exists>l. leases_of demo_lease i = Some l \<and> le_ExpireAt l < 10000000001} \<subseteq> {1}" by auto
  then have "card {i. \<exists>l. leases_of demo_lease i = Some l \<and> le_ExpireAt l < 10000000001} \<le> card {1::int}"
    by (rule card_mono [rotated]) simp
  with expiration_tick_spec [OF demo_lease_store(1) range_order_sorted range_order_sorted refl,
      of 10000000001] show ?thesis by auto
qed

end
