(* ===== verification/MvccProps4.thy ===== *)
theory MvccProps4
  imports MvccProps3
begin

text \<open>Properties of watching and of snapshots.\<close>

section \<open>Watching\<close>

text \<open>
  Registering a watcher above the compaction point hands out the next identifier and, as
  its backlog, every matching change of the history from the start revision on, in order;
  the watcher's mark then covers every matching change so far and no future one. At or
  below the compaction point registration is refused.
\<close>
theorem watch_registers_backlog:
  assumes "mem_store H s" and "c = bs_CompactRev (MemoryBackend_SnapshotState (s_backend s))"
  shows "if from \<le> c then KVStore_Watch memory_backend s key from pre = (s, Inl ErrCompacted)
    else \<exists>s' w. KVStore_Watch memory_backend s key from pre =
        (s', Inr (s_nextWatcherID s, filter (\<lambda>e. wants key pre e \<and> from \<le> emain e) H)) \<and>
      mem_store H s' \<and> s_heap s' = (s_heap s)(s_nextWatcherID s \<mapsto> w) \<and>
      s_watchersByID s' (s_nextWatcherID s) = Some (s_nextWatcherID s) \<and>
      w_Key w = key \<and> w_Prefix w = pre \<and> w_Ch w = [] \<and>
      (\<forall>e \<in> set H. wants key pre e \<longrightarrow> emain e \<le> w_lastSentRev w) \<and>
      (\<forall>r. from \<le> r \<and> int (length H) < r \<longrightarrow> w_lastSentRev w < r)"
proof (cases "from \<le> c")
  case True
  with mem.Watch_err [OF mem_storeD(1) [OF assms(1)]] assms(2) show ?thesis by simp
next
  case False
  then have c: "bs_CompactRev (MemoryBackend_SnapshotState (s_backend s)) < from" using assms(2) by simp
  obtain s' w where s': "KVStore_Watch memory_backend s key from pre =
       (s', Inr (s_nextWatcherID s, filter (\<lambda>e. wants key pre e \<and> from \<le> emain e) H))"
    "store_inv mem_inv MemoryBackend_SnapshotState H s'" "watch_ok s'" "s_eventCh s' = s_eventCh s"
    "s_closed s' = s_closed s" "s_heap s' = (s_heap s)(s_nextWatcherID s \<mapsto> w)"
    "w_Key w = key" "w_Prefix w = pre" "w_Ch w = []" "\<not> w_closed w" "from - 1 \<le> w_lastSentRev w"
    "\<forall>e \<in> set H. wants key pre e \<longrightarrow> emain e \<le> w_lastSentRev w"
    "w_lastSentRev w = from - 1 \<or> w_lastSentRev w \<le> int (length H)"
    by (rule mem.Watch_ok [OF mem_storeD [OF assms(1)] c])
  have "s_watchersByID s' (s_nextWatcherID s) = Some (s_nextWatcherID s)"
    using watch_okD(1) [OF s'(3)] s'(6,10) by simp
  moreover have "mem_store H s'" using s'(2,3) by (simp add: mem_store_def)
  ultimately show ?thesis using False s' by (auto intro!: exI [of _ s'] exI [of _ w])
qed

theorem watch_registers_backlog_witness:
  "KVStore_Watch memory_backend demo key_a 0 False = (demo, Inl ErrCompacted) \<and>
   (\<exists>s'. KVStore_Watch memory_backend demo key_a 1 False = (s', Inr (s_nextWatcherID demo, demo_history)))"
  using watch_registers_backlog [OF demo_store refl, of 0 key_a False]
    watch_registers_backlog [OF demo_store refl, of 1 key_a False]
  by (auto simp: demo_facts) (simp add: demo_history_def wants_def)

lemma dispatcher_heap:
  assumes "mem_store H s" and "range_order rng" and "\<not> s_closed s" and "s_eventCh s = ev # rest"
  obtains s' where "dispatcher_step rng s = Inr s'" "mem_store H s'" "s_eventCh s' = rest"
    "\<not> s_closed s'" "s_heap s' = (\<lambda>r. map_option
      (\<lambda>w. if \<not> w_closed w \<and> interested w ev then deliver_to ev w else w) (s_heap s r))"
proof -
  let ?s = "s\<lparr>s_eventCh := rest\<rparr>"
  have m: "mem_store H ?s"
    using assms(1) by (simp add: mem_store_def store_inv_def lease_ok_def watch_ok_def)
  obtain s' where s': "dispatch_event rng ?s ev = Inr s'" "watch_ok s'" "same_core ?s s'"
    "s_heap s' = (\<lambda>r. map_option
      (\<lambda>w. if \<not> w_closed w \<and> interested w ev then deliver_to ev w else w) (s_heap ?s r))"
    using dispatch_event_ok [OF mem_storeD(2) [OF m] assms(2)] by blast
  with mem_store_core [OF m s'(3,2)] assms(3,4) show ?thesis
    by (intro that [of s']) (auto simp: dispatcher_step_def same_core_def)
qed

text \<open>
  the dispatcher never panics when no cancellation interferes, takes events in queue
  order, and hands each to exactly the open watchers whose key or prefix matches: a
  watcher that has room gets it once, one that has seen the revision already does not get
  it again, and one that is full is cancelled.
\<close>
theorem dispatcher_delivers:
  assumes "mem_store H s" and "range_order rng" and "\<not> s_closed s" and "s_eventCh s = ev # rest"
  shows "\<exists>s'. dispatcher_step rng s = Inr s' \<and> mem_store H s' \<and> s_eventCh s' = rest \<and>
    s_heap s' = (\<lambda>r. map_option (\<lambda>w.
      if w_closed w \<or> \<not> interested w ev \<or> emain ev \<le> w_lastSentRev w then w
      else if length (w_Ch w) < watcher_cap
        then w\<lparr>w_Ch := w_Ch w @ [ev], w_lastSentRev := emain ev\<rparr>
      else w\<lparr>w_closed := True\<rparr>) (s_heap s r))"
proof -
  obtain s' where s': "dispatcher_step rng s = Inr s'" "mem_store H s'" "s_eventCh s' = rest"
    "s_heap s' = (\<lambda>r. map_option
      (\<lambda>w. if \<not> w_closed w \<and> interested w ev then deliver_to ev w else w) (s_heap s r))"
    by (rule dispatcher_heap [OF assms])
  have "(\<lambda>w. if \<not> w_closed w \<and> interested w ev then deliver_to ev w else w) = (\<lambda>w.
      if w_closed w \<or> \<not> interested w ev \<or> emain ev \<le> w_lastSentRev w then w
      else if length (w_Ch w) < watcher_cap
        then w\<lparr>w_Ch := w_Ch w @ [ev], w_lastSentRev := emain ev\<rparr>
      else w\<lparr>w_closed := True\<rparr>)"
    by (auto simp: deliver_to_def fun_eq_iff)
  with s' show ?thesis by auto
qed

theorem dispatcher_delivers_witness:
  "\<exists>s'. dispatcher_step sorted_list_of_set demo = Inr s' \<and> s_eventCh s' = []"
  using dispatcher_delivers [OF demo_store range_order_sorted demo_facts(2), of "put_event [] key_a [1]" "[]"]
  by (auto simp: demo_facts demo_history_def)


definition demo_watch :: "MemoryBackend KVStore" where
  "demo_watch = fst (KVStore_Watch memory_backend demo key_a 2 False)"

lemma demo_watch_store:
  obtains w where "mem_store demo_history demo_watch" "s_heap demo_watch 0 = Some w" "\<not> w_closed w"
    "w_Key w = key_a" "\<not> w_Prefix w" "w_Ch w = []" "w_lastSentRev w = 1" "\<not> s_closed demo_watch"
proof -
  have id0: "s_nextWatcherID demo = 0"
    using same_watch_put [of NewKVStore memory_backend 0 key_a "[1]" 0]
    by (simp add: same_watch_def demo_def) (simp add: NewKVStore_def NewKVStoreWithBackend_def)
  obtain s' w where s': "KVStore_Watch memory_backend demo key_a 2 False =
       (s', Inr (s_nextWatcherID demo, filter (\<lambda>e. wants key_a False e \<and> 2 \<le> emain e) demo_history))"
    "store_inv mem_inv MemoryBackend_SnapshotState demo_history s'" "watch_ok s'"
    "s_eventCh s' = s_eventCh demo"
    "s_closed s' = s_closed demo" "s_heap s' = (s_heap demo)(s_nextWatcherID demo \<mapsto> w)"
    "w_Key w = key_a" "w_Prefix w = False" "w_Ch w = []" "\<not> w_closed w" "2 - 1 \<le> w_lastSentRev w"
    "\<forall>e \<in> set demo_history. wants key_a False e \<longrightarrow> emain e \<le> w_lastSentRev w"
    "w_lastSentRev w = 2 - 1 \<or> w_lastSentRev w \<le> int (length demo_history)"
    by (rule mem.Watch_ok [OF mem_storeD [OF demo_store], of 2 key_a False]) (simp add: demo_facts)
  show ?thesis
    by (rule that [of w]) (use s' id0 demo_facts(2) in
      \<open>auto simp: demo_watch_def mem_store_def demo_history_def\<close>)
qed


text \<open>
  When nobody reads while the backlog goroutine runs, a new watcher receives only the
  first 16 events of its backlog. The rest is lost without the watcher being cancelled, and
  the mark set at registration keeps the dispatcher from sending it later.
\<close>
theorem watch_backlog_truncated:
  assumes "mem_store H s" and "bs_CompactRev (MemoryBackend_SnapshotState (s_backend s)) < from"
    and "KVStore_Watch memory_backend s key from pre = (s1, Inr (r, backlog))"
  shows "\<exists>s2 w. backlog_sends s1 r backlog = Inr s2 \<and> s_heap s2 r = Some w \<and> \<not> w_closed w \<and>
    w_Ch w = take watcher_cap (filter (\<lambda>e. wants key pre e \<and> from \<le> emain e) H) \<and>
    (\<forall>e \<in> set backlog. emain e \<le> w_lastSentRev w)"
proof -
  obtain s' w where s': "KVStore_Watch memory_backend s key from pre =
       (s', Inr (s_nextWatcherID s, filter (\<lambda>e. wants key pre e \<and> from \<le> emain e) H))"
    "store_inv mem_inv MemoryBackend_SnapshotState H s'" "watch_ok s'" "s_eventCh s' = s_eventCh s"
    "s_closed s' = s_closed s" "s_heap s' = (s_heap s)(s_nextWatcherID s \<mapsto> w)"
    "w_Key w = key" "w_Prefix w = pre" "w_Ch w = []" "\<not> w_closed w" "from - 1 \<le> w_lastSentRev w"
    "\<forall>e \<in> set H. wants key pre e \<longrightarrow> emain e \<le> w_lastSentRev w"
    "w_lastSentRev w = from - 1 \<or> w_lastSentRev w \<le> int (length H)"
    by (rule mem.Watch_ok [OF mem_storeD [OF assms(1)] assms(2)])
  then have "s_heap s1 r = Some w" "backlog = filter (\<lambda>e. wants key pre e \<and> from \<le> emain e) H"
    using assms(3) by auto
  with backlog_sends_eq [of s1 r w backlog] s'(9,10,12) show ?thesis by auto
qed

theorem watch_backlog_truncated_witness:
  "\<exists>s1 r backlog. KVStore_Watch memory_backend demo key_a 1 False = (s1, Inr (r, backlog)) \<and>
     (\<exists>s2 w. backlog_sends s1 r backlog = Inr s2 \<and> s_heap s2 r = Some w \<and>
        w_Ch w = take watcher_cap (filter (\<lambda>e. wants key_a False e \<and> 1 \<le> emain e) demo_history))"
proof -
  have "\<exists>s1 r backlog. KVStore_Watch memory_backend demo key_a 1 False = (s1, Inr (r, backlog))"
    by (rule mem.Watch_ok [OF mem_storeD [OF demo_store], of 1 key_a False]) (auto simp: demo_facts)
  with watch_backlog_truncated [OF demo_store, of 1 key_a False] show ?thesis
    by (fastforce simp: demo_facts)
qed

text \<open>
  a put releases the lock before it queues its event, so two concurrent puts may queue
  theirs in the opposite order of their revisions. The dispatcher then drops the older
  event: a watcher of both keys with room in its channel sees only the newer one.
\<close>
theorem concurrent_puts_lose_event:
  assumes "mem_store H s" and "range_order rng" and "\<not> s_closed s" and "s_eventCh s = []"
    and "KVStore_Put_crit memory_backend s now1 k1 v1 0 = (s1, evs1, r1)"
    and "KVStore_Put_crit memory_backend s1 now2 k2 v2 0 = (s2, evs2, r2)"
    and "s_heap s r = Some w" "\<not> w_closed w" "length (w_Ch w) < watcher_cap"
    "w_lastSentRev w \<le> int (length H)"
    and "interested w (put_event H k1 v1)" and "interested w (put_event (H @ [put_event H k1 v1]) k2 v2)"
  shows "\<exists>s3 s4. dispatcher_step rng (send_events (send_events s2 evs2) evs1) = Inr s3 \<and>
    dispatcher_step rng s3 = Inr s4 \<and> s_eventCh s4 = [] \<and>
    map_option w_Ch (s_heap s4 r) = Some (w_Ch w @ [put_event (H @ [put_event H k1 v1]) k2 v2])"
proof -
  let ?e1 = "put_event H k1 v1" and ?e2 = "put_event (H @ [put_event H k1 v1]) k2 v2"
  obtain t1 where t1: "KVStore_Put_crit memory_backend s now1 k1 v1 0 =
      (t1, [?e1], Inr (Revision (int (length H) + 1) 0))"
    "store_inv mem_inv MemoryBackend_SnapshotState (H @ [?e1]) t1"
    "s_closed t1 = s_closed s" "s_eventCh t1 = s_eventCh s"
    by (rule mem.Put_crit_ok [OF mem_storeD(1) [OF assms(1)]]) auto
  have s1: "s1 = t1" "evs1 = [?e1]" using t1(1) assms(5) by auto
  obtain t2 where t2: "KVStore_Put_crit memory_backend t1 now2 k2 v2 0 =
      (t2, [?e2], Inr (Revision (int (length (H @ [?e1])) + 1) 0))"
    "store_inv mem_inv MemoryBackend_SnapshotState ((H @ [?e1]) @ [?e2]) t2"
    "s_closed t2 = s_closed t1" "s_eventCh t2 = s_eventCh t1"
    by (rule mem.Put_crit_ok [OF t1(2)]) auto
  have s2: "s2 = t2" "evs2 = [?e2]" using t2(1) assms(6) s1 by auto
  have "same_watch s t1" "same_watch t1 t2"
    using same_watch_put [of s memory_backend now1 k1 v1 0] t1(1)
      same_watch_put [of t1 memory_backend now2 k2 v2 0] t2(1)
    by (simp_all add: KVStore_Put_def)
  then have sw: "same_watch s t2" by (rule same_watch_trans)
  let ?s2 = "send_events (send_events t2 [?e2]) [?e1]"
  have m2: "mem_store ((H @ [?e1]) @ [?e2]) ?s2" "s_heap ?s2 r = Some w"
    using mem_store_same [OF assms(1), of ?s2] sw t2(2) assms(7) by (simp_all add: same_watch_def)
  have q2: "\<not> s_closed ?s2" "s_eventCh ?s2 = ?e2 # [?e1]"
    using assms(3,4) t1(3,4) t2(3,4) by simp_all
  let ?f = "\<lambda>ev w. if \<not> w_closed w \<and> interested w ev then deliver_to ev w else w"
  obtain s3 where s3: "dispatcher_step rng ?s2 = Inr s3" "mem_store ((H @ [?e1]) @ [?e2]) s3"
    "s_eventCh s3 = [?e1]" "\<not> s_closed s3" "s_heap s3 = (\<lambda>r. map_option (?f ?e2) (s_heap ?s2 r))"
    by (rule dispatcher_heap [OF m2(1) assms(2) q2])
  have h3: "s_heap s3 r = Some (w\<lparr>w_Ch := w_Ch w @ [?e2], w_lastSentRev := emain ?e2\<rparr>)"
    unfolding s3(5) m2(2) using assms(8-10,12) by (simp add: deliver_to_def)
  obtain s4 where s4: "dispatcher_step rng s3 = Inr s4" "s_eventCh s4 = []"
    "s_heap s4 = (\<lambda>r. map_option (?f ?e1) (s_heap s3 r))"
    by (rule dispatcher_heap [OF s3(2) assms(2) s3(4,3)])
  have "s_heap s4 r = s_heap s3 r" unfolding s4(3) h3 by (simp add: deliver_to_def)
  then have "map_option w_Ch (s_heap s4 r) = Some (w_Ch w @ [?e2])" by (simp add: h3)
  then show ?thesis using s3(1) s4(1,2) unfolding s1 s2 by blast
qed

theorem concurrent_puts_lose_event_witness:
  "\<exists>s1 evs1 r1 s2 evs2 r2 s3 s4 s.
     KVStore_Put_crit memory_backend s 0 key_a [1] 0 = (s1, evs1, r1) \<and>
     KVStore_Put_crit memory_backend s1 0 key_a [2] 0 = (s2, evs2, r2) \<and>
     dispatcher_step sorted_list_of_set (send_events (send_events s2 evs2) evs1) = Inr s3 \<and>
     dispatcher_step sorted_list_of_set s3 = Inr s4 \<and>
     map_option (map ev_Value \<circ> w_Ch) (s_heap s4 0) = Some [[2]]"
proof -
  obtain w where w: "mem_store demo_history demo_watch" "s_heap demo_watch 0 = Some w" "\<not> w_closed w"
    "w_Key w = key_a" "\<not> w_Prefix w" "w_Ch w = []" "w_lastSentRev w = 1" "\<not> s_closed demo_watch"
    by (rule demo_watch_store)
  let ?s = "demo_watch\<lparr>s_eventCh := []\<rparr>"
  have m: "mem_store demo_history ?s"
    using w(1) by (simp add: mem_store_def store_inv_def lease_ok_def watch_ok_def)
  obtain s1 evs1 r1 where p1: "KVStore_Put_crit memory_backend ?s 0 key_a [1] 0 = (s1, evs1, r1)"
    by (metis prod_cases3)
  obtain s2 evs2 r2 where p2: "KVStore_Put_crit memory_backend s1 0 key_a [2] 0 = (s2, evs2, r2)"
    by (metis prod_cases3)
  show ?thesis
    using concurrent_puts_lose_event [OF m range_order_sorted _ _ p1 p2, of 0 w] w(2-8) p1 p2
    by (fastforce simp: interested_def demo_history_def)
qed

text \<open>
  A watcher cancelled between the dispatcher's copy of the registration list and its send
  brings the process down: the send is on a closed channel, and the mark check in front of it
  does not look at that.
\<close>
theorem cancel_during_dispatch_panics:
  assumes "mem_store H s" and "s_watchersByID s r = Some r"
    and "\<forall>w. s_heap s r = Some w \<longrightarrow> w_lastSentRev w < emain ev"
  shows "\<exists>s'. CancelWatcher s r = Inr s' \<and> mem_store H s' \<and> deliver s' ev r = Inl SendOnClosedChannel"
proof -
  note ok = mem_storeD(2) [OF assms(1)]
  obtain w where w: "s_heap s r = Some w" "\<not> w_closed w"
    using watch_okD(1) [OF ok, of r] assms(2) by (auto split: option.splits if_splits)
  obtain s' where s': "CancelWatcher s r = Inr s'" "watch_ok s'"
    "s_heap s' = (s_heap s)(r \<mapsto> w\<lparr>w_closed := True\<rparr>)"
    by (rule CancelWatcher_ok [OF ok w])
  with step_watchers(1) [OF assms(1) s'(1)] assms(3) w show ?thesis by (auto simp: deliver_def)
qed

theorem cancel_during_dispatch_panics_witness:
  "\<exists>s'. CancelWatcher demo_watch 0 = Inr s' \<and>
     deliver s' (put_event demo_history key_a [2]) 0 = Inl SendOnClosedChannel"
proof -
  obtain w where w: "mem_store demo_history demo_watch" "s_heap demo_watch 0 = Some w" "\<not> w_closed w"
    "w_lastSentRev w = 1"
    by (rule demo_watch_store)
  have "s_watchersByID demo_watch 0 = Some 0"
    using watch_okD(1) [OF mem_storeD(2) [OF w(1)], of 0] w(2,3) by simp
  from cancel_during_dispatch_panics [OF w(1) this, of "put_event demo_history key_a [2]"] w(2,4)
  show ?thesis by (auto simp: demo_history_def)
qed

section \<open>Snapshots\<close>




definition demo2 :: "MemoryBackend KVStore" where
  "demo2 = fst (KVStore_Put memory_backend demo 0 key_a [2] 0)"

definition demo2_history :: "Event list" where
  "demo2_history = demo_history @ [put_event demo_history key_a [2]]"

lemma demo2_store: "mem_store demo2_history demo2"
  by (rule put_step_mem [OF demo_store, of 0 0 key_a "[2]"])
    (simp_all add: demo2_def demo2_history_def)

lemma demo2_facts:
  "bs_CompactRev (MemoryBackend_SnapshotState (s_backend demo2)) = 0"
  "bs_Data (MemoryBackend_SnapshotState (s_backend demo2)) =
     [key_a \<mapsto> [version_of (put_event [] key_a [1]), version_of (put_event demo_history key_a [2])]]"
  by (simp_all add: demo2_def demo_def NewKVStore_def NewKVStoreWithBackend_def KVStore_Put_def
      KVStore_Put_crit_def putLocked_def Let_def memory_backend_defs NewMemoryBackend_def
      NewLeaseManager_def versions_or_nil_def demo_history_def detachKeyLocked_def)

text \<open>
  once compaction has dropped a version, the snapshot can no longer be restored: the
  continuity check asks for every revision from 1 on, finds the gap and returns without
  touching the target store.
\<close>
theorem snapshot_of_compacted_store_is_ignored:
  assumes "mem_store H s" and "\<not> complete_history (MemoryBackend_SnapshotState (s_backend s))"
    and "unmarshal d = Some (snapshot_message rng memory_backend s)"
  shows "KVStore_Restore memory_backend unmarshal t d = Inr t"
  using mem.Restore_gap [OF mem_storeD(1) [OF assms(1)] assms(2)] assms(3)
  by (simp add: KVStore_Restore_def)

theorem snapshot_of_compacted_store_is_ignored_witness:
  "\<exists>s. KVStore_Restore memory_backend (\<lambda>_. Some (snapshot_message sorted_list_of_set memory_backend s))
      NewKVStore [] = Inr NewKVStore \<and> latest s key_a = Some [2]"
proof -
  let ?b = "MemoryBackend_SnapshotState (s_backend demo2)"
  obtain b where b: "KVStore_Compact memory_backend demo2 2 = (demo2\<lparr>s_backend := b\<rparr>, None)"
    "store_inv mem_inv MemoryBackend_SnapshotState demo2_history (demo2\<lparr>s_backend := b\<rparr>)"
    "bs_CompactRev (MemoryBackend_SnapshotState b) = 2"
    "bs_Data (MemoryBackend_SnapshotState b) = (\<lambda>k. map_option (compacted 2) (bs_Data ?b k))"
    by (rule mem.Compact_ok [OF mem_storeD(1) [OF demo2_store], of 2])
      (auto simp: demo2_facts demo2_history_def demo_history_def)
  let ?s = "demo2\<lparr>s_backend := b\<rparr>"
  have m: "mem_store demo2_history ?s"
    using mem_store_same [OF demo2_store _ b(2)] same_watch_compact [of demo2 memory_backend 2] b(1) by simp
  have "bs_CurrentRev (MemoryBackend_SnapshotState b) = 2"
    using b(2) refines_basic(2) by (fastforce simp: store_inv_def demo2_history_def demo_history_def)
  moreover have "vmain v \<noteq> 1"
    if "bs_Data (MemoryBackend_SnapshotState b) k = Some vs" "v \<in> set vs" for k vs v
    using that by (auto simp: b(4) demo2_facts compacted_def version_of_def demo_history_def split: if_splits)
  ultimately have "\<not> complete_history (MemoryBackend_SnapshotState b)"
    unfolding complete_history_def by (metis one_le_numeral order_refl)
  then have "KVStore_Restore memory_backend (\<lambda>_. Some (snapshot_message sorted_list_of_set memory_backend ?s))
      NewKVStore [] = Inr NewKVStore"
    by (intro snapshot_of_compacted_store_is_ignored [OF m]) simp_all
  moreover have "latest ?s key_a = Some [2]"
    using latest_replay [OF m] by (simp add: demo2_history_def replay_put)
  ultimately show ?thesis by blast
qed

end
