(* ===== verification/ServerProps2.thy ===== *)
theory ServerProps2
  imports ServerProps MvccProps4
begin

text \<open>
  More properties of the server: snapshots travel between servers, what a linearizable read
  answers on each of its paths, and runs in which requests interfere.
\<close>

section \<open>Snapshots\<close>



text \<open>A server whose store is the one of the earlier examples, and the codec of its snapshot.\<close>

definition demo_sender :: "(MemoryBackend, MemoryPersister) Server" where
  "demo_sender = (fresh_server lone_node)\<lparr>sv_store := demo, sv_clientLastSeq := [1 \<mapsto> 1],
     sv_clientLastResult := [1 \<mapsto> zero_Result]\<rparr>"



section \<open>Replicas\<close>

text \<open>The commands whose effect does not depend on the clock or on the order of a map.\<close>

definition plain_command :: "Command \<Rightarrow> bool" where
  "plain_command env \<longleftrightarrow>
     (case c_KV env of None \<Rightarrow> True | Some c \<Rightarrow> kc_LeaseID c = 0) \<and>
     (case c_Txn env of None \<Rightarrow> True
      | Some t \<Rightarrow> list_all (\<lambda>opr. op_LeaseID opr = 0) (txn_ThenOps (toMVCCTxn t) @ txn_ElseOps (toMVCCTxn t))) \<and>
     c_Kind env \<noteq> KindLeaseGrant \<and> c_Kind env \<noteq> KindLeaseRevoke \<and> c_Kind env \<noteq> KindLeaseKeepAlive"

lemma check_no_leases: "list_all (\<lambda>opr. op_LeaseID opr = 0) ops \<Longrightarrow> txn_check_leases st clock i ops = None"
  by (induction ops arbitrary: i) simp_all

lemma KVStore_Txn_no_leases:
  assumes "list_all (\<lambda>opr. op_LeaseID opr = 0) (txn_ThenOps t @ txn_ElseOps t)"
  shows "KVStore_Txn be st clock t = KVStore_Txn be st clock' t"
  using assms by (simp add: KVStore_Txn_def Let_def check_no_leases cong: sum.case_cong)

lemma plain_command_timeless:
  assumes "plain_command env" and "sio_backend io' = sio_backend io"
  shows "applyCommand io' clock' st env = applyCommand io clock st env"
proof (cases "c_Kind env = KindTxn")
  case True
  with assms KVStore_Txn_no_leases [of _ "sio_backend io" st clock' clock] show ?thesis
    by (cases "c_Txn env") (simp_all add: applyCommand_def applyTxn_def plain_command_def)
next
  case False
  with assms show ?thesis
    by (cases "c_KV env")
      (simp_all add: applyCommand_def applyKV_def plain_command_def KVStore_Put_def KVStore_Put_crit_def)
qed

lemma machine_run_timeless:
  assumes "list_all plain_command envs" and "sio_backend io' = sio_backend io"
    and "length clocks = length envs" and "length clocks' = length envs"
  shows "machine_run (applyCommand io') (zip clocks' envs) m = machine_run (applyCommand io) (zip clocks envs) m"
  using assms(1,3,4)
proof (induction envs arbitrary: clocks clocks' m)
  case (Cons env envs)
  then obtain a as b bs where eq: "clocks = a # as" "clocks' = b # bs" by (metis length_Suc_conv)
  have "machine_step (applyCommand io') (b, env) m = machine_step (applyCommand io) (a, env) m"
    using plain_command_timeless [OF _ assms(2), of env b _ a] Cons.prems(1)
    by (simp add: machine_step_def split: prod.splits)
  then show ?case using Cons by (simp add: eq split: sum.splits)
qed simp

text \<open>
  C5: replicas agree. Two servers in the same replicated state that apply the same
  committed commands, at any times, with any requests waiting and any log compaction on
  either side, end in the same replicated state, provided the commands do not involve leases.
\<close>
theorem replicas_agree:
  assumes "sio_backend io = memory_backend" and "range_order (sio_key_order io)" and "snapshots_total io"
    and "sio_backend io' = memory_backend" and "range_order (sio_key_order io')" and "snapshots_total io'"
    and "about_to_apply io s envs" and "about_to_apply io' t envs" and "replica s = replica t"
    and "store_ok (sv_store s)" and "list_all plain_command envs"
    and "length clocks = length envs" and "length clocks' = length envs"
  shows "\<exists>s' t'. apply_turns io clocks (applier_turn s) = Inr s' \<and>
    apply_turns io' clocks' (applier_turn t) = Inr t' \<and> replica s' = replica t'"
proof -
  have st: "store_ok (sv_store t)" using assms(9,10) by (simp add: replica_def)
  from round_refines [OF memory_executor [OF assms(1,2)] assms(3,7,10,12)]
    round_refines [OF memory_executor [OF assms(4,5)] assms(6,8) st assms(13)]
    machine_run_timeless [OF assms(11) _ assms(12,13), of io' io "replica s"] assms(1,4,9)
  show ?thesis by auto
qed

theorem replicas_agree_witness:
  "\<exists>s' t'. apply_turns (demo_io [demo_put 1 1 (str ''a'') [7]]) [\<lambda>_. 0, \<lambda>_. 0] (applier_turn demo_twice) = Inr s' \<and>
     apply_turns (demo_io [demo_put 1 1 (str ''a'') [7]]) [\<lambda>_. 5, \<lambda>_. 9] (applier_turn demo_twice) = Inr t' \<and>
     replica s' = replica t'"
proof -
  let ?c = "demo_put 1 1 (str ''a'') [7]"
  have io: "sio_backend (demo_io [?c]) = memory_backend" "range_order (sio_key_order (demo_io [?c]))"
    by (simp_all add: demo_io_def range_order_sorted)
  have plain: "list_all plain_command [?c, ?c]"
    by (simp add: plain_command_def demo_put_def put_command_def zero_Command_def)
  have ok: "store_ok (sv_store demo_twice)" using mem_store_new demo_twice_state by (auto simp: store_ok_def)
  have "about_to_apply (demo_io [?c]) demo_twice [?c, ?c]"
    using demo_twice_state demo_twice_log demo_twice_ok demo_twice_decode
    by (simp add: about_to_apply_def upto.simps)
  from replicas_agree [OF io demo_io_total io demo_io_total this this refl ok plain,
      of "[\<lambda>_. 0, \<lambda>_. 0]" "[\<lambda>_. 5, \<lambda>_. 9]"]
  show ?thesis by simp
qed





section \<open>Reads\<close>

text \<open>
  C30: what a read answers once it passed the gate. A new sequence number reads the
  history of the store (at the current revision or at an explicit one that is not
  compacted), and asking again with the same number gives the same answer whatever the store
  has become. An older number gets the empty reply without an error. A repeated number whose
  recorded result has no revision, such as number 0 of an unknown client, panics.
\<close>
theorem get_reply_spec:
  assumes "sio_backend io = memory_backend" and "mem_store H (sv_store s)"
    and "gq_Revision q = 0 \<or> bs_CompactRev (MemoryBackend_SnapshotState (s_backend (sv_store s))) < gq_Revision q"
    and "r = (if gq_Revision q = 0 then int (length H) else gq_Revision q)"
    and "l = last_seq s (gq_ClientID q)"
  shows "(l < gq_Seq q \<longrightarrow> (\<exists>s' p. Get_locked io s q = Inr (s', p) \<and> sv_store s' = sv_store s \<and> gp_Err p = [] \<and>
      (case state_at H r (gq_Key q) of
         None \<Rightarrow> \<not> gp_Found p \<and> gp_Value p = []
       | Some v \<Rightarrow> gp_Found p \<and> gp_Value p = v \<and> gp_Revision p = r) \<and>
      (\<forall>st. Get_locked io (s'\<lparr>sv_store := st\<rparr>) q = Inr (s'\<lparr>sv_store := st\<rparr>, p)))) \<and>
    (gq_Seq q < l \<longrightarrow> Get_locked io s q = Inr (s, zero_GetResponse)) \<and>
    (gq_Seq q = l \<longrightarrow> res_Rev (last_result s (gq_ClientID q)) = None \<longrightarrow> Get_locked io s q = Inl NilPointer)"
proof -
  have get: "KVStore_Get (sio_backend io) (sv_store s) (gq_Key q) (gq_Revision q) =
     (case state_at H r (gq_Key q) of
        None \<Rightarrow> ([], if bs_Data (MemoryBackend_SnapshotState (s_backend (sv_store s))) (gq_Key q) = None
                     then gq_Revision q else r, False)
      | Some v \<Rightarrow> (v, r, True))"
    using mem.Get_eq [OF mem_storeD(1) [OF assms(2)] assms(3,4)] assms(1) by simp
  show ?thesis
    using assms(5)
    by (cases "state_at H r (gq_Key q)")
      (auto simp: Get_locked_def get Let_def last_seq_def last_result_def zero_Result_def)
qed

theorem get_reply_spec_witness:
  "\<exists>s' p. Get_locked (demo_io []) demo_sender
      \<lparr>gq_Key = key_a, gq_Revision = 0, gq_ClientID = 1, gq_Seq = 2\<rparr> = Inr (s', p) \<and> gp_Value p = [1]"
proof -
  let ?q = "\<lparr>gq_Key = key_a, gq_Revision = 0, gq_ClientID = 1, gq_Seq = 2\<rparr>"
  have "mem_store demo_history (sv_store demo_sender)" using demo_store by (simp add: demo_sender_def)
  moreover have "state_at demo_history 1 key_a = Some [1]"
    by (simp add: demo_history_def state_at_def put_event_def replay_def apply_event_def)
  moreover have "last_seq demo_sender 1 = 1" by (simp add: last_seq_def demo_sender_def)
  ultimately show ?thesis
    using get_reply_spec [of "demo_io []" demo_history demo_sender ?q 1 1]
    by (auto simp: demo_io_def demo_history_def)
qed

text \<open>
  C35: a read can hide a committed write of its own client. Reads record their sequence
  number outside the log, and \<^verbatim>\<open>LastApplied\<close> runs ahead of the store: when a read with a later
  number is answered before the apply loop reaches the write, this server skips the write
  while a server that did not answer the read executes it.
\<close>
theorem read_hides_committed_write:
  assumes "Get_locked io s q = Inr (s1, p)" and "is_command io msg env"
    and "Command_ClientID env = gq_ClientID q" and "last_seq s (gq_ClientID q) < Command_Seq env"
    and "Command_Seq env < gq_Seq q"
  shows "apply_msg io clock s1 msg = Inr s1 \<and>
    apply_msg io clock s msg = apply_fresh io clock s (am_CommandIndex msg) env"
proof -
  have "last_seq s1 (gq_ClientID q) = gq_Seq q"
    using assms(1,4,5) by (auto simp: Get_locked_def Let_def last_seq_def split: prod.splits)
  with assms(2-5) show ?thesis by (simp add: apply_msg_def is_command_def apply_dedup_def Let_def)
qed

definition demo_read :: GetRequest where
  "demo_read = \<lparr>gq_Key = str ''a'', gq_Revision = 0, gq_ClientID = 1, gq_Seq = 2\<rparr>"

text \<open>The write is committed and handed to the apply loop, which has not run yet.\<close>

definition demo_committed :: "(MemoryBackend, MemoryPersister) Server" where
  "demo_committed = applier_turn demo_waiting"

definition demo_quiet :: "('b, 'p) schedule" where
  "demo_quiet = \<lparr>sch_other = (\<lambda>_ s. s), sch_wake = Notified, sch_confirmed = True, sch_polls = 0,
     sch_ctx = DeadlineExceeded\<rparr>"

definition key_found :: "(MemoryBackend, MemoryPersister) Server outcome \<Rightarrow> bool option" where
  "key_found s = (case s of Inl _ \<Rightarrow> None
     | Inr s' \<Rightarrow> Some (snd (snd (KVStore_Get memory_backend (sv_store s') (str ''a'') 0))))"

lemma demo_hidden_run:
  "(case Get (demo_io [demo_put 1 1 (str ''a'') [7]]) demo_quiet demo_committed (Some demo_read) of
      Inl _ \<Rightarrow> False
    | Inr (s1, resp, err) \<Rightarrow>
        err = None \<and> map_option gp_Found resp = Some False \<and>
        key_found (applyLoop_turn (demo_io [demo_put 1 1 (str ''a'') [7]]) (\<lambda>_. 0) s1) = Some False) \<and>
   key_found (applyLoop_turn (demo_io [demo_put 1 1 (str ''a'') [7]]) (\<lambda>_. 0) demo_committed) = Some True"
  by code_simp

lemma demo_committed_facts:
  "is_command (demo_io [demo_put 1 1 (str ''a'') [7]]) demo_msg (demo_put 1 1 (str ''a'') [7])"
  "last_seq demo_committed 1 = 0"
  by code_simp+

theorem read_hides_committed_write_witness:
  "\<exists>s1 p. Get_locked (demo_io [demo_put 1 1 (str ''a'') [7]]) demo_committed demo_read = Inr (s1, p) \<and>
     apply_msg (demo_io [demo_put 1 1 (str ''a'') [7]]) (\<lambda>_. 0) s1 demo_msg = Inr s1 \<and>
     key_found (applyLoop_turn (demo_io [demo_put 1 1 (str ''a'') [7]]) (\<lambda>_. 0) demo_committed) = Some True"
proof -
  let ?io = "demo_io [demo_put 1 1 (str ''a'') [7]]"
  have "\<not> isl (Get_locked ?io demo_committed demo_read)" by code_simp
  then obtain s1 p where run: "Get_locked ?io demo_committed demo_read = Inr (s1, p)"
    by (cases "Get_locked ?io demo_committed demo_read") auto
  have "Command_ClientID (demo_put 1 1 (str ''a'') [7]) = 1" "Command_Seq (demo_put 1 1 (str ''a'') [7]) = 1"
    by (simp_all add: demo_put_def put_command_def Command_ClientID_def Command_Seq_def)
  then have "apply_msg ?io (\<lambda>_. 0) s1 demo_msg = Inr s1"
    using read_hides_committed_write [OF run demo_committed_facts(1)] demo_committed_facts(2)
    by (simp add: demo_read_def)
  with run demo_hidden_run show ?thesis by blast
qed

section \<open>A request that meets someone else's result\<close>

text \<open>
  C36: \<^verbatim>\<open>submit\<close> takes the result it finds recorded at its index without looking whose it
  is (the test compares the request with itself). If the node loses the leadership between
  \<^verbatim>\<open>Start\<close> and the registration and another command is applied at that index meanwhile, the request
  returns that command's result, as a success if that command succeeded.
\<close>
theorem submit_returns_foreign_result:
  assumes "submit_start io s env = (s1, Inr i)"
    and "sch_other sch 0 s1 = s2" and "apply_msg io clock t msg = Inr s2"
    and "is_command io msg other" and "am_CommandIndex msg = i" and "sv_waitCh t i = None"
    and "last_seq t (Command_ClientID other) < Command_Seq other"
    and "applyCommand io clock (sv_store t) other = Inr (st, r)"
  shows "\<exists>s'. submit io sch s env = Some (s', stamp other r, res_Err r)"
proof -
  have "apply_fresh io clock t i other = Inr s2"
    using assms(3-5,7) by (simp add: apply_msg_def is_command_def apply_dedup_def Let_def change_def)
  then have "sv_LastResult s2 i = Some (stamp other r)"
    using assms(6,8)
    by (auto simp: apply_fresh_def apply_record_def apply_snapshot_def change_def Let_def stamp_def
        split: if_splits sum.splits)
  moreover have "match (new_waitEntry env) env" by (simp add: match_def new_waitEntry_def)
  ultimately show ?thesis
    using assms(1,2) by (simp add: submit_def submit_register_def Let_def) (simp add: stamp_def)
qed

text \<open>
  The run: node 0 of three is elected, takes client 1's write, and is deposed by an append of
  term 2 that carries client 2's write at the same index, committed, before client 1's
  request has registered.
\<close>

definition demo_ruler :: "MemoryPersister Raft" where
  "demo_ruler =
     (case startElection memory_io (fresh_node 3) of
        Inl _ \<Rightarrow> undefined
      | Inr (rf, args) \<Rightarrow> fst (handleVoteReply memory_io rf args 1 (Some \<lparr>rvr_Term = 1, rvr_VoteGranted = True\<rparr>)))"

definition demo_own :: Command where "demo_own = demo_put 1 1 (str ''a'') [7]"
definition demo_other :: Command where "demo_other = demo_put 2 1 (str ''b'') [8]"

definition demo_deposed :: "(MemoryBackend, MemoryPersister) Server \<Rightarrow> (MemoryBackend, MemoryPersister) Server" where
  "demo_deposed s = applier_turn (s\<lparr>sv_raft := fst (AppendEntries memory_io (sv_raft s)
     \<lparr>ae_Term = 2, ae_LeaderId = 1, ae_PrevLogIndex = 0, ae_PrevLogTerm = 0,
      ae_Entries = [\<lparr>e_Term = 2, e_Command = [1], e_Index = 1\<rparr>], ae_LeaderCommit = 1\<rparr>)\<rparr>)"

definition demo_mixed :: "(MemoryBackend, MemoryPersister) schedule" where
  "demo_mixed = demo_quiet\<lparr>sch_other := (\<lambda>k s. if k = 0
     then (case applyLoop_turn (demo_io [demo_own, demo_other]) (\<lambda>_. 0) (demo_deposed s) of Inl _ \<Rightarrow> s | Inr s1 \<Rightarrow> s1)
     else s)\<rparr>"

definition demo_started :: "(MemoryBackend, MemoryPersister) Server" where
  "demo_started = fst (submit_start (demo_io [demo_own, demo_other]) (fresh_server demo_ruler) demo_own)"

definition demo_caught_up :: "(MemoryBackend, MemoryPersister) Server" where
  "demo_caught_up = (demo_deposed demo_started)\<lparr>sv_applyCh := tl (sv_applyCh (demo_deposed demo_started))\<rparr>"

definition demo_foreign :: ApplyMsg where
  "demo_foreign = hd (sv_applyCh (demo_deposed demo_started))"

lemma demo_mixed_facts:
  "snd (submit_start (demo_io [demo_own, demo_other]) (fresh_server demo_ruler) demo_own) = Inr 1"
  "length (sv_applyCh (demo_deposed demo_started)) = 1"
  "\<not> isl (apply_msg (demo_io [demo_own, demo_other]) (\<lambda>_. 0) demo_caught_up demo_foreign)"
  "is_command (demo_io [demo_own, demo_other]) demo_foreign demo_other"
  "am_CommandIndex demo_foreign = 1" "sv_waitCh demo_caught_up 1 = None"
  "last_seq demo_caught_up (Command_ClientID demo_other) < Command_Seq demo_other"
  "\<not> isl (applyCommand (demo_io [demo_own, demo_other]) (\<lambda>_. 0) (sv_store demo_caught_up) demo_other)"
  "Command_ClientID demo_other = 2"
  by code_simp+

theorem submit_returns_foreign_result_witness:
  "\<exists>s' r. submit (demo_io [demo_own, demo_other]) demo_mixed (fresh_server demo_ruler) demo_own =
      Some (s', r, res_Err r) \<and> res_ClientID r = 2 \<and> Command_ClientID demo_own = 1"
proof -
  let ?io = "demo_io [demo_own, demo_other]"
  note f = demo_mixed_facts
  obtain s2 where s2: "apply_msg ?io (\<lambda>_. 0) demo_caught_up demo_foreign = Inr s2"
    using f(3) by (auto simp: isl_def) (metis sum.exhaust)
  obtain st r where ex: "applyCommand ?io (\<lambda>_. 0) (sv_store demo_caught_up) demo_other = Inr (st, r)"
    using f(8) by (auto simp: isl_def) (metis sum.exhaust surj_pair)
  have start: "submit_start ?io (fresh_server demo_ruler) demo_own = (demo_started, Inr 1)"
    using f(1) by (simp add: demo_started_def prod_eq_iff)
  have "sv_applyCh (demo_deposed demo_started) = [demo_foreign]"
    using f(2) by (auto simp: demo_foreign_def length_Suc_conv)
  then have "applyLoop_turn ?io (\<lambda>_. 0) (demo_deposed demo_started) = Inr s2"
    using s2 by (simp add: applyLoop_turn_def demo_caught_up_def)
  then have "sch_other demo_mixed 0 demo_started = s2" by (simp add: demo_mixed_def)
  from submit_returns_foreign_result [OF start this s2 f(4-7) ex]
  have "\<exists>s'. submit ?io demo_mixed (fresh_server demo_ruler) demo_own =
      Some (s', stamp demo_other r, res_Err (stamp demo_other r))" by (simp add: stamp_def)
  moreover have "res_ClientID (stamp demo_other r) = 2" using f(9) by (simp add: stamp_def)
  moreover have "Command_ClientID demo_own = 1" by code_simp
  ultimately show ?thesis by metis
qed

end
