(* ===== verification/ServerRestart.thy ===== *)
theory ServerRestart
  imports ServerProps2
begin















end
