(* ===== verification/KVClient.thy ===== *)
theory KVClient
  imports KVHandlers
begin

text \<open>
  The client library \<^verbatim>\<open>internal/client\<close>: the client and its sequence numbers (\<^verbatim>\<open>client.go\<close>),
  routing and retrying (\<^verbatim>\<open>call.go\<close>, with \<^verbatim>\<open>GetReplyError\<close> of \<^verbatim>\<open>raft/util.go\<close>), the gRPC client
  (\<^verbatim>\<open>grpc.go\<close>), the operations (\<^verbatim>\<open>command.go\<close>, \<^verbatim>\<open>Txn.go\<close>) and watching (\<^verbatim>\<open>watcher.go\<close>).

  The servers behind the client are a state \<open>w\<close> that the calls pass on. A loop that may not
  end takes the number of rounds it may run and is \<^const>\<open>None\<close> when they are used up.
\<close>

section \<open>The client\<close>

record Client =
  cl_servers :: nat
  cl_leader :: nat
  cl_clientID :: int
  cl_seq :: int

text \<open>The counter is a variable of the process.\<close>

definition Client_Make :: "int \<Rightarrow> nat \<Rightarrow> int \<times> Client" where
  "Client_Make globalClientID servers =
     (let clientID = globalClientID + 1
      in (clientID, \<lparr>cl_servers = servers, cl_leader = 0, cl_clientID = clientID, cl_seq = 0\<rparr>))"

definition getSeq :: "Client \<Rightarrow> Client \<times> int" where
  "getSeq c = (let seq = cl_seq c + 1 in (c\<lparr>cl_seq := seq\<rparr>, seq))"

definition updateLeader :: "Client \<Rightarrow> nat \<Rightarrow> Client" where
  "updateLeader c leader = c\<lparr>cl_leader := leader\<rparr>"

definition parseErr :: "gostring \<Rightarrow> go_error option" where
  "parseErr errStr =
     (if errStr = [] then None
      else if errStr = Error_text ErrNotLeader then Some ErrNotLeader
      else Some (ErrorString errStr))"

section \<open>Calls\<close>

text \<open>
  The values that travel as \<^verbatim>\<open>interface{}\<close>, and the stub generated for the KV service. A type
  assertion on another value panics.
\<close>

datatype any_request =
    AnyPut PutRequest
  | AnyGet GetRequest
  | AnyDelete DeleteRequest
  | AnyRange RangeRequest
  | AnyTxn TxnRequest

datatype any_response =
    PutReply PutResponse
  | GetReply GetResponse
  | DeleteReply DeleteResponse
  | RangeReply RangeResponse
  | TxnReply TxnResponse

type_synonym ('w, 'q, 'r) unary = "'w \<Rightarrow> 'q option \<Rightarrow> 'w \<times> (go_error + 'r option)"

record 'w KVStub =
  ks_Get :: "('w, pb_GetRequest, pb_GetResponse) unary"
  ks_Put :: "('w, pb_PutRequest, pb_PutResponse) unary"
  ks_Delete :: "('w, pb_DeleteRequest, pb_DeleteResponse) unary"
  ks_Range :: "('w, pb_RangeRequest, pb_RangeResponse) unary"

definition GrpcClient_Call ::
  "'w KVStub \<Rightarrow> 'w \<Rightarrow> gostring \<Rightarrow> any_request \<Rightarrow> any_response \<Rightarrow> ('w \<times> any_response \<times> go_error option) outcome" where
  "GrpcClient_Call cli w meth req resp =
     (if meth = str ''RPCAdapter.Get'' then
        (case (req, resp) of
           (AnyGet q, GetReply rep) \<Rightarrow>
             (case ks_Get cli w (toPBGetRequest (Some q)) of
                (w1, Inl err) \<Rightarrow> Inr (w1, resp, Some err)
              | (w1, Inr res) \<Rightarrow> Inr (w1, GetReply (fillGetResponseFromPB rep res), None))
         | _ \<Rightarrow> Inl (ExplicitPanic (str ''interface conversion'')))
      else if meth = str ''RPCAdapter.Put'' then
        (case (req, resp) of
           (AnyPut q, PutReply rep) \<Rightarrow>
             (case ks_Put cli w (toPBPutRequest (Some q)) of
                (w1, Inl err) \<Rightarrow> Inr (w1, resp, Some err)
              | (w1, Inr res) \<Rightarrow> Inr (w1, PutReply (fillPutResponseFromPB rep res), None))
         | _ \<Rightarrow> Inl (ExplicitPanic (str ''interface conversion'')))
      else if meth = str ''RPCAdapter.Delete'' then
        (case (req, resp) of
           (AnyDelete q, DeleteReply rep) \<Rightarrow>
             (case ks_Delete cli w (toPBDeleteRequest (Some q)) of
                (w1, Inl err) \<Rightarrow> Inr (w1, resp, Some err)
              | (w1, Inr res) \<Rightarrow> Inr (w1, DeleteReply (fillDeleteResponseFromPB rep res), None))
         | _ \<Rightarrow> Inl (ExplicitPanic (str ''interface conversion'')))
      else if meth = str ''RPCAdapter.Range'' then
        (case (req, resp) of
           (AnyRange q, RangeReply rep) \<Rightarrow>
             (case ks_Range cli w (toPBRangeRequest (Some q)) of
                (w1, Inl err) \<Rightarrow> Inr (w1, resp, Some err)
              | (w1, Inr res) \<Rightarrow> Inr (w1, RangeReply (fillRangeResponseFromPB rep res), None))
         | _ \<Rightarrow> Inl (ExplicitPanic (str ''interface conversion'')))
      else Inr (w, resp, Some (ErrorString (str ''Unknown method '' @ meth))))"

text \<open>The \<^verbatim>\<open>Call\<close> of each server of the client.\<close>

type_synonym 'w calls =
  "nat \<Rightarrow> 'w \<Rightarrow> gostring \<Rightarrow> any_request \<Rightarrow> any_response \<Rightarrow> ('w \<times> any_response \<times> go_error option) outcome"

definition callOnce ::
  "'w calls \<Rightarrow> 'w \<Rightarrow> nat \<Rightarrow> gostring \<Rightarrow> any_request \<Rightarrow> any_response \<Rightarrow> ('w \<times> any_response \<times> bool) outcome" where
  "callOnce servers w srv meth req reply =
     map_sum id (\<lambda>(w1, reply1, err). (w1, reply1, err = None)) (servers srv w meth req reply)"

text \<open>
  \<^verbatim>\<open>callWithRetry\<close>. \<open>f\<close> is the closure; the variables it captures are part of its state. The
  counter of a round runs over the servers from the current leader on, which a failed call
  changes under its feet. \<open>ctx k\<close> is what the \<open>k\<close>-th look at the context finds.
\<close>

type_synonym 's rpcFunc = "'s \<Rightarrow> nat \<Rightarrow> ('s \<times> go_error option) outcome"

fun retry_round :: "'s rpcFunc \<Rightarrow> Client \<Rightarrow> 's \<Rightarrow> nat list \<Rightarrow> (Client \<times> 's \<times> bool) outcome" where
  "retry_round f c w [] = Inr (c, w, False)"
| "retry_round f c w (i # is) =
     (let srv = (cl_leader c + i) mod cl_servers c
      in case f w srv of
           Inl p \<Rightarrow> Inl p
         | Inr (w1, None) \<Rightarrow> Inr (updateLeader c srv, w1, True)
         | Inr (w1, Some err) \<Rightarrow>
             if err = ErrNotLeader then retry_round f c w1 is
             else retry_round f (updateLeader c ((srv + 1) mod cl_servers c)) w1 is)"

fun callWithRetry ::
  "nat \<Rightarrow> (nat \<Rightarrow> go_error option) \<Rightarrow> nat \<Rightarrow> 's rpcFunc \<Rightarrow> Client \<Rightarrow> 's \<Rightarrow>
     (Client \<times> 's \<times> go_error option) outcome option" where
  "callWithRetry 0 ctx k f c w = None"
| "callWithRetry (Suc rounds) ctx k f c w =
     (case ctx k of
        Some err \<Rightarrow> Some (Inr (c, w, Some err))
      | None \<Rightarrow>
          (case retry_round f c w [0..<cl_servers c] of
             Inl p \<Rightarrow> Some (Inl p)
           | Inr (c1, w1, True) \<Rightarrow> Some (Inr (c1, w1, None))
           | Inr (c1, w1, False) \<Rightarrow>
               (case ctx (k + 1) of
                  Some err \<Rightarrow> Some (Inr (c1, w1, Some err))
                | None \<Rightarrow> callWithRetry rounds ctx (k + 2) f c1 w1)))"

text \<open>
  The older loop \<^verbatim>\<open>callRPC\<close>, which no operation uses, with the error it reads off a reply: a
  fresh error value, which is never nil and never the \<^verbatim>\<open>ErrNotLeader\<close> of this package.
\<close>

definition GetReplyError :: "any_response \<Rightarrow> go_error option" where
  "GetReplyError reply =
     (case reply of
        GetReply r \<Rightarrow> Some (ErrorString (gp_Err r))
      | DeleteReply r \<Rightarrow> Some (ErrorString (dp_Err r))
      | PutReply r \<Rightarrow> Some (ErrorString (pp_Err r))
      | _ \<Rightarrow> Some (ErrorString (str ''reply''
          @ [32, 228, 184, 141, 230, 152, 175, 228, 187, 187, 228, 189, 149, 228, 184, 128, 231, 167, 141,
             231, 187, 147, 230, 158, 132, 228, 189, 147] @ str ''(raft/util.go)'')))"

fun callRPC_round ::
  "'w calls \<Rightarrow> gostring \<Rightarrow> any_request \<Rightarrow> nat \<Rightarrow> Client \<Rightarrow> 'w \<Rightarrow> any_response \<Rightarrow> nat list \<Rightarrow>
     (Client \<times> 'w \<times> any_response \<times> go_error option option) outcome" where
  "callRPC_round servers meth req leader c w reply [] = Inr (c, w, reply, None)"
| "callRPC_round servers meth req leader c w reply (i # is) =
     (let srv = (leader + i) mod cl_servers c
      in case servers srv w meth req reply of
           Inl p \<Rightarrow> Inl p
         | Inr (w1, reply1, Some err) \<Rightarrow>
             callRPC_round servers meth req leader (updateLeader c ((srv + 1) mod cl_servers c)) w1 reply1 is
         | Inr (w1, reply1, None) \<Rightarrow>
             (case GetReplyError reply1 of
                Some errStr \<Rightarrow>
                  if errStr = ErrNotLeader then callRPC_round servers meth req leader c w1 reply1 is
                  else Inr (c, w1, reply1, Some (Some errStr))
              | None \<Rightarrow> Inr (updateLeader c srv, w1, reply1, Some None)))"

fun callRPC ::
  "nat \<Rightarrow> 'w calls \<Rightarrow> gostring \<Rightarrow> any_request \<Rightarrow> Client \<Rightarrow> 'w \<Rightarrow> any_response \<Rightarrow>
     (Client \<times> 'w \<times> any_response \<times> go_error option) outcome option" where
  "callRPC 0 servers meth req c w reply = None"
| "callRPC (Suc rounds) servers meth req c w reply =
     (case callRPC_round servers meth req (cl_leader c) c w reply [0..<cl_servers c] of
        Inl p \<Rightarrow> Some (Inl p)
      | Inr (c1, w1, reply1, Some err) \<Rightarrow> Some (Inr (c1, w1, reply1, err))
      | Inr (c1, w1, reply1, None) \<Rightarrow> callRPC rounds servers meth req c1 w1 reply1)"

definition callPut ::
  "'w calls \<Rightarrow> 'w \<Rightarrow> nat \<Rightarrow> PutRequest \<Rightarrow> ('w \<times> PutResponse option \<times> go_error option) outcome" where
  "callPut servers w i req =
     (case servers i w (str ''RPCAdapter.Put'') (AnyPut req) (PutReply zero_PutResponse) of
        Inl p \<Rightarrow> Inl p
      | Inr (w1, _, Some err) \<Rightarrow> Inr (w1, None, Some ErrRPC)
      | Inr (w1, PutReply reply, None) \<Rightarrow>
          Inr (w1, Some reply, if pp_Err reply \<noteq> [] then Some (ErrorString (pp_Err reply)) else None)
      | Inr (w1, _, None) \<Rightarrow> Inl (ExplicitPanic (str ''reply'')))"

section \<open>Operations\<close>

text \<open>The closures of the operations: one attempt at one server.\<close>

definition put_once :: "'w calls \<Rightarrow> PutRequest \<Rightarrow> 'w rpcFunc" where
  "put_once servers req w srv =
     (case callOnce servers w srv (str ''RPCAdapter.Put'') (AnyPut req) (PutReply zero_PutResponse) of
        Inl p \<Rightarrow> Inl p
      | Inr (w1, reply, ok) \<Rightarrow>
          if \<not> ok then Inr (w1, Some ErrRPC)
          else Inr (w1, case reply of PutReply r \<Rightarrow> parseErr (pp_Err r) | _ \<Rightarrow> None))"

definition put_request :: "Client \<Rightarrow> int \<Rightarrow> gostring \<Rightarrow> bytes \<Rightarrow> PutRequest" where
  "put_request c seq key value =
     \<lparr>pq_Key = key, pq_Value = value, pq_LeaseID = 0, pq_ClientID = cl_clientID c, pq_Seq = seq\<rparr>"

definition Client_Put ::
  "nat \<Rightarrow> (nat \<Rightarrow> go_error option) \<Rightarrow> 'w calls \<Rightarrow> Client \<Rightarrow> 'w \<Rightarrow> gostring \<Rightarrow> bytes \<Rightarrow>
     (Client \<times> 'w \<times> go_error option) outcome option" where
  "Client_Put rounds ctx servers c w key value =
     (case getSeq c of
        (c1, seq) \<Rightarrow> callWithRetry rounds ctx 0 (put_once servers (put_request c seq key value)) c1 w)"

definition get_once :: "'w calls \<Rightarrow> GetRequest \<Rightarrow> ('w \<times> bytes) rpcFunc" where
  "get_once servers req s srv =
     (case s of
        (w, result) \<Rightarrow>
          (case callOnce servers w srv (str ''RPCAdapter.Get'') (AnyGet req) (GetReply zero_GetResponse) of
             Inl p \<Rightarrow> Inl p
           | Inr (w1, reply, ok) \<Rightarrow>
               if \<not> ok then Inr ((w1, result), Some ErrRPC)
               else (case reply of
                       GetReply r \<Rightarrow>
                         (case parseErr (gp_Err r) of
                            Some err \<Rightarrow> Inr ((w1, result), Some err)
                          | None \<Rightarrow> Inr ((w1, gp_Value r), None))
                     | _ \<Rightarrow> Inr ((w1, result), None))))"

definition Client_Get ::
  "nat \<Rightarrow> (nat \<Rightarrow> go_error option) \<Rightarrow> 'w calls \<Rightarrow> Client \<Rightarrow> 'w \<Rightarrow> gostring \<Rightarrow>
     (Client \<times> ('w \<times> bytes) \<times> go_error option) outcome option" where
  "Client_Get rounds ctx servers c w key =
     (case getSeq c of
        (c1, seq) \<Rightarrow>
          callWithRetry rounds ctx 0
            (get_once servers \<lparr>gq_Key = key, gq_Revision = 0, gq_ClientID = cl_clientID c, gq_Seq = seq\<rparr>)
            c1 (w, []))"

definition range_once :: "'w calls \<Rightarrow> RangeRequest \<Rightarrow> ('w \<times> RangeResponse option) rpcFunc" where
  "range_once servers req s srv =
     (case s of
        (w, finalReply) \<Rightarrow>
          (case callOnce servers w srv (str ''RPCAdapter.Range'') (AnyRange req) (RangeReply zero_RangeResponse) of
             Inl p \<Rightarrow> Inl p
           | Inr (w1, reply, ok) \<Rightarrow>
               if \<not> ok then Inr ((w1, finalReply), Some ErrRPC)
               else (case reply of
                       RangeReply r \<Rightarrow>
                         (case parseErr (rp_Err r) of
                            Some err \<Rightarrow> Inr ((w1, finalReply), Some err)
                          | None \<Rightarrow> Inr ((w1, Some r), None))
                     | _ \<Rightarrow> Inr ((w1, finalReply), None))))"

text \<open>What the operation returns: the pairs with their revision, or an error.\<close>

definition RangePrefixAtRevision ::
  "nat \<Rightarrow> (nat \<Rightarrow> go_error option) \<Rightarrow> 'w calls \<Rightarrow> Client \<Rightarrow> 'w \<Rightarrow> gostring \<Rightarrow> int \<Rightarrow>
     (Client \<times> 'w \<times> (go_error + kv_KeyValue option list \<times> int)) outcome option" where
  "RangePrefixAtRevision rounds ctx servers c w prefix rv =
     (case getSeq c of
        (c1, seq) \<Rightarrow>
          map_option (map_sum id (\<lambda>(c2, (w2, finalReply), err).
            (c2, w2, case err of
                       Some e \<Rightarrow> Inl e
                     | None \<Rightarrow> (case finalReply of None \<Rightarrow> Inl ErrRPC | Some r \<Rightarrow> Inr (rp_KVs r, rp_Revision r)))))
          (callWithRetry rounds ctx 0
            (range_once servers \<lparr>rq_Key = prefix, rq_Prefix = True, rq_Revision = rv,
               rq_ClientID = cl_clientID c, rq_Seq = seq\<rparr>) c1 (w, None)))"

definition RangePrefix ::
  "nat \<Rightarrow> (nat \<Rightarrow> go_error option) \<Rightarrow> 'w calls \<Rightarrow> Client \<Rightarrow> 'w \<Rightarrow> gostring \<Rightarrow>
     (Client \<times> 'w \<times> (go_error + kv_KeyValue option list \<times> int)) outcome option" where
  "RangePrefix rounds ctx servers c w prefix = RangePrefixAtRevision rounds ctx servers c w prefix 0"

text \<open>Transactions.\<close>

record ClientTxn =
  ct_compares :: "kv_Compare option list"
  ct_thenOps :: "kv_Op option list"
  ct_elseOps :: "kv_Op option list"

definition BeginTxn :: ClientTxn where
  "BeginTxn = \<lparr>ct_compares = [], ct_thenOps = [], ct_elseOps = []\<rparr>"

definition Txn_Put :: "ClientTxn \<Rightarrow> gostring \<Rightarrow> bytes \<Rightarrow> ClientTxn" where
  "Txn_Put t key value = t\<lparr>ct_thenOps := ct_thenOps t @
     [Some \<lparr>kop_Type = 1, kop_Key = key, kop_Value = value, kop_LeaseID = 0\<rparr>]\<rparr>"

definition Txn_Get :: "ClientTxn \<Rightarrow> gostring \<Rightarrow> ClientTxn" where
  "Txn_Get t key = t\<lparr>ct_thenOps := ct_thenOps t @
     [Some \<lparr>kop_Type = 0, kop_Key = key, kop_Value = [], kop_LeaseID = 0\<rparr>]\<rparr>"

definition txn_once :: "'w calls \<Rightarrow> TxnRequest \<Rightarrow> ('w \<times> TxnResponse option) rpcFunc" where
  "txn_once servers req s srv =
     (case s of
        (w, finalReply) \<Rightarrow>
          (case callOnce servers w srv (str ''RPCAdapter.Txn'') (AnyTxn req)
                  (TxnReply \<lparr>tp_Succeeded = False, tp_Results = [], tp_Err = []\<rparr>) of
             Inl p \<Rightarrow> Inl p
           | Inr (w1, reply, ok) \<Rightarrow>
               if \<not> ok then Inr ((w1, finalReply), Some ErrRPC)
               else (case reply of
                       TxnReply r \<Rightarrow>
                         (case parseErr (tp_Err r) of
                            Some err \<Rightarrow> Inr ((w1, finalReply), Some err)
                          | None \<Rightarrow> Inr ((w1, Some r), None))
                     | _ \<Rightarrow> Inr ((w1, finalReply), None))))"

definition Txn_Commit ::
  "nat \<Rightarrow> (nat \<Rightarrow> go_error option) \<Rightarrow> 'w calls \<Rightarrow> Client \<Rightarrow> 'w \<Rightarrow> ClientTxn \<Rightarrow>
     (Client \<times> 'w \<times> (go_error + TxnResult)) outcome option" where
  "Txn_Commit rounds ctx servers c w t =
     (case getSeq c of
        (c1, seq) \<Rightarrow>
          map_option (map_sum id (\<lambda>(c2, (w2, finalReply), err).
            (c2, w2, case err of
                       Some e \<Rightarrow> Inl e
                     | None \<Rightarrow> (case finalReply of
                                  None \<Rightarrow> Inl ErrRPC
                                | Some r \<Rightarrow> Inr \<lparr>tr_Succeeded = tp_Succeeded r, tr_Results = tp_Results r\<rparr>))))
          (callWithRetry rounds ctx 0
            (txn_once servers \<lparr>tq_Compares = [], tq_ThenOps = ct_thenOps t, tq_ElseOps = ct_elseOps t,
               tq_ClientID = cl_clientID c, tq_Seq = seq\<rparr>) c1 (w, None)))"

section \<open>Watching\<close>

text \<open>
  Opening a stream and what \<^verbatim>\<open>Recv\<close> returns on it: a stream is the list of its answers, after
  which \<^verbatim>\<open>Recv\<close> fails.
\<close>

datatype stream_error = StatusError watch_status | OtherError go_error

definition isWatchCompacted :: "stream_error \<Rightarrow> bool" where
  "isWatchCompacted err =
     (case err of StatusError (FailedPrecondition _) \<Rightarrow> True | _ \<Rightarrow> False)"

datatype recv = RecvOk WatchResponse | RecvErr stream_error

definition GrpcStream_Recv ::
  "stream_error + pb_WatchResponse option \<Rightarrow> WatchResponse \<Rightarrow> recv" where
  "GrpcStream_Recv answer resp =
     (case answer of Inl err \<Rightarrow> RecvErr err | Inr res \<Rightarrow> RecvOk (fillWatchResponseFromPB resp res))"

text \<open>\<open>Watch\<close> is the generated stub: the answers of the stream it opens, or its error.\<close>

definition GrpcClient_Stream ::
  "(pb_WatchRequest option \<Rightarrow> stream_error + (stream_error + pb_WatchResponse option) list) \<Rightarrow>
     gostring \<Rightarrow> WatchRequest \<Rightarrow> stream_error + recv list" where
  "GrpcClient_Stream Watch meth req =
     (if meth = str ''RPCAdapter.Watch'' then
        (case Watch (toPBWatchRequest (Some req)) of
           Inl err \<Rightarrow> Inl err
         | Inr answers \<Rightarrow> Inr (map (\<lambda>answer. GrpcStream_Recv answer zero_WatchResponse) answers))
      else Inl (OtherError (ErrorString (str ''Unknown stream method '' @ meth))))"

fun open_loop ::
  "(nat \<Rightarrow> stream_error + recv list) \<Rightarrow> nat \<Rightarrow> Client \<Rightarrow> stream_error option \<Rightarrow> nat list \<Rightarrow>
     Client \<times> (stream_error + recv list)" where
  "open_loop Stream leader c lastErr [] =
     (c, Inl (case lastErr of None \<Rightarrow> OtherError ErrRPC | Some err \<Rightarrow> err))"
| "open_loop Stream leader c lastErr (i # is) =
     (let srv = (leader + i) mod cl_servers c
      in case Stream srv of
           Inr stream \<Rightarrow> (updateLeader c srv, Inr stream)
         | Inl err \<Rightarrow> open_loop Stream leader c (Some err) is)"

definition openWatchStream ::
  "(nat \<Rightarrow> gostring \<Rightarrow> WatchRequest \<Rightarrow> stream_error + recv list) \<Rightarrow> Client \<Rightarrow> WatchRequest \<Rightarrow>
     Client \<times> (stream_error + recv list)" where
  "openWatchStream Stream c req =
     open_loop (\<lambda>srv. Stream srv (str ''RPCAdapter.Watch'') req) (cl_leader c) c None [0..<cl_servers c]"

text \<open>The events of a response, all sent on the channel; \<open>r\<close> is the revision to resume from.\<close>

fun watch_events :: "int \<Rightarrow> kv_Event option list \<Rightarrow> int" where
  "watch_events r [] = r"
| "watch_events r (ev # evs) =
     watch_events (case ev of None \<Rightarrow> r | Some e \<Rightarrow> if kev_Rev e \<ge> r then kev_Rev e + 1 else r) evs"

text \<open>
  The inner loop on one stream: the revision afterwards, what was sent on the channel, and
  whether the watch ends. A context that is done is noticed when the stream fails.
\<close>

fun watch_session :: "bool \<Rightarrow> int \<Rightarrow> recv list \<Rightarrow> int \<times> kv_Event option list \<times> bool" where
  "watch_session ctxDone r [] = (r, [], ctxDone)"
| "watch_session ctxDone r (RecvErr err # rest) = (r, [], ctxDone \<or> isWatchCompacted err)"
| "watch_session ctxDone r (RecvOk resp # rest) =
     (if wp_Err resp \<noteq> [] then (r, [], False)
      else
        (let r1 = (if wp_Revision resp \<ge> r then wp_Revision resp + 1 else r);
             r2 = watch_events r1 (wp_Events resp)
         in case watch_session ctxDone r2 rest of
              (r3, out, fin) \<Rightarrow> (r3, wp_Events resp @ out, fin)))"

record watch_state =
  ws_client :: Client
  ws_key :: gostring
  ws_prefix :: bool
  ws_rev :: int
  ws_backoff :: int
  ws_out :: "kv_Event option list"
  ws_closed :: bool

definition watchStream_start :: "Client \<Rightarrow> gostring \<Rightarrow> bool \<Rightarrow> int \<Rightarrow> watch_state" where
  "watchStream_start c key prefix startRev =
     \<lparr>ws_client = c, ws_key = key, ws_prefix = prefix, ws_rev = (if startRev \<le> 0 then 1 else startRev),
      ws_backoff = 100, ws_out = [], ws_closed = False\<rparr>"

definition Client_Watch :: "Client \<Rightarrow> gostring \<Rightarrow> watch_state" where
  "Client_Watch c key = watchStream_start c key False 1"

definition WatchPrefix :: "Client \<Rightarrow> gostring \<Rightarrow> watch_state" where
  "WatchPrefix c prefix = watchStream_start c prefix True 1"

definition WatchFrom :: "Client \<Rightarrow> gostring \<Rightarrow> int \<Rightarrow> watch_state" where
  "WatchFrom c key fromRev = watchStream_start c key False fromRev"

text \<open>
  One turn of the outer loop. \<open>ctx0\<close>, \<open>ctx1\<close> and \<open>ctx2\<close> say whether the context is done at the top,
  when opening fails, and when the stream breaks.
\<close>

definition watchStream_turn ::
  "(nat \<Rightarrow> gostring \<Rightarrow> WatchRequest \<Rightarrow> stream_error + recv list) \<Rightarrow> bool \<Rightarrow> bool \<Rightarrow> bool \<Rightarrow>
     watch_state \<Rightarrow> watch_state" where
  "watchStream_turn Stream ctx0 ctx1 ctx2 ws =
     (if ws_closed ws then ws
      else if ctx0 then ws\<lparr>ws_closed := True\<rparr>
      else
        (case getSeq (ws_client ws) of
           (c1, seq) \<Rightarrow>
             (case openWatchStream Stream c1
                     \<lparr>wq_Key = ws_key ws, wq_Prefix = ws_prefix ws, wq_Revision = ws_rev ws,
                      wq_ClientID = cl_clientID c1, wq_Seq = seq\<rparr> of
                (c2, Inl err) \<Rightarrow>
                  if ctx1 \<or> isWatchCompacted err then ws\<lparr>ws_client := c2, ws_closed := True\<rparr>
                  else ws\<lparr>ws_client := c2,
                          ws_backoff := (if ws_backoff ws < 1000 then ws_backoff ws * 2 else ws_backoff ws)\<rparr>
              | (c2, Inr stream) \<Rightarrow>
                  (case watch_session ctx2 (ws_rev ws) stream of
                     (r, out, fin) \<Rightarrow>
                       ws\<lparr>ws_client := c2, ws_rev := r, ws_backoff := 100, ws_out := ws_out ws @ out,
                          ws_closed := fin\<rparr>))))"

end
