(* ===== verification/ClientRetry.thy ===== *)
theory ClientRetry
  imports KVClient
begin

text \<open>
  Which servers \<^verbatim>\<open>callWithRetry\<close> tries: with at most one failing server two rounds find the leader,
  with two failing servers the loop may pass the leader by for ever; and the loops that can
  never succeed.
\<close>

section \<open>Rounds\<close>

text \<open>The answer of each server, whatever the state of the servers.\<close>

definition answers :: "'s rpcFunc \<Rightarrow> (nat \<Rightarrow> go_error option) \<Rightarrow> bool" where
  "answers f ans \<longleftrightarrow> (\<forall>w srv. \<exists>w'. f w srv = Inr (w', ans srv))"

lemma answersE:
  assumes "answers f ans"
  obtains w' where "f w srv = Inr (w', ans srv)"
  using assms unfolding answers_def by blast

lemma round_skip:
  assumes "answers f ans" and "\<forall>j \<in> set xs. ans ((cl_leader c + j) mod cl_servers c) = Some ErrNotLeader"
  shows "\<exists>w'. retry_round f c w (xs @ ys) = retry_round f c w' ys"
  using assms(2)
proof (induction xs arbitrary: w)
  case (Cons x xs)
  obtain w1 where "f w ((cl_leader c + x) mod cl_servers c) = Inr (w1, Some ErrNotLeader)"
    using answersE [OF assms(1)] Cons.prems by (metis list.set_intros(1))
  then show ?case using Cons by simp
qed auto

lemma upt_split:
  assumes "i < n"
  shows "[0..<n] = [0..<i] @ i # [i + 1..<n]"
proof -
  have "[0..<i + (n - i)] = [0..<i] @ [i..<i + (n - i)]" by (rule upt_add_eq_append) simp
  moreover have "[i..<n] = i # [Suc i..<n]" using assms by (rule upt_conv_Cons)
  ultimately show ?thesis using assms by auto
qed

lemma round_hit:
  assumes "answers f ans" and "\<forall>j < i. ans ((cl_leader c + j) mod cl_servers c) = Some ErrNotLeader"
    and "i < n" and "ans ((cl_leader c + i) mod cl_servers c) = None"
  shows "\<exists>w'. retry_round f c w [0..<n] = Inr (updateLeader c ((cl_leader c + i) mod cl_servers c), w', True)"
proof -
  let ?ys = "i # [i + 1..<n]"
  have "\<forall>j \<in> set [0..<i]. ans ((cl_leader c + j) mod cl_servers c) = Some ErrNotLeader" using assms(2) by simp
  from round_skip [OF assms(1) this] obtain w1 where
    w1: "retry_round f c w ([0..<i] @ ?ys) = retry_round f c w1 ?ys" by blast
  obtain w2 where "f w1 ((cl_leader c + i) mod cl_servers c) = Inr (w2, None)"
    using answersE [OF assms(1)] assms(4) by metis
  then show ?thesis unfolding upt_split [OF assms(3)] w1 by simp
qed

lemma offset_ex:
  assumes "t < n"
  shows "\<exists>k < n. (l + k) mod n = (t :: nat)"
proof (intro exI conjI)
  let ?k = "(t + (n - l mod n)) mod n"
  show "?k < n" using assms by simp
  have "(l + ?k) mod n = (l mod n + (t + (n - l mod n))) mod n" by (simp add: mod_simps)
  also have "l mod n + (t + (n - l mod n)) = t + n"
    using assms mod_less_divisor [of n l] by linarith
  finally show "(l + ?k) mod n = t" using assms by simp
qed

lemma offset_inj:
  assumes "j < n" "k < n" "(l + j) mod n = (l + k) mod (n :: nat)"
  shows "j = k"
proof -
  have "(int l + int j) mod int n = (int l + int k) mod int n" using assms(3) by (simp flip: of_nat_add of_nat_mod)
  then have "int j mod int n = int k mod int n"
    by (metis add_diff_cancel_left' mod_diff_left_eq)
  then show ?thesis using assms(1,2) by simp
qed

section \<open>One failing server\<close>

lemma no_other:
  assumes "\<forall>srv < n. srv \<noteq> d \<longrightarrow> srv \<noteq> t \<longrightarrow> ans srv = Some ErrNotLeader"
    and "i < n" "(l + i) mod n = (t :: nat)" "k < n" "(l + k) mod n = d" "j < n" "j \<noteq> i" "j \<noteq> k"
  shows "ans ((l + j) mod n) = Some ErrNotLeader"
proof -
  have "(l + j) mod n < n" using assms(2) by (intro mod_less_divisor) linarith
  moreover have "(l + j) mod n \<noteq> t" using offset_inj [OF assms(6,2), of l] assms(3,7) by auto
  moreover have "(l + j) mod n \<noteq> d" using offset_inj [OF assms(6,4), of l] assms(5,8) by auto
  ultimately show ?thesis using assms(1) by blast
qed

text \<open>After a failure of \<open>d\<close> the round goes on from the server behind it and stays there.\<close>

lemma round_behind:
  assumes "answers f ans" and "cl_servers c = n" and "0 < n" and "cl_leader c = (d + 1) mod n"
    and "\<forall>srv < n. srv \<noteq> d \<longrightarrow> srv \<noteq> t \<longrightarrow> ans srv = Some ErrNotLeader" and "ans t = None" and "ans d \<noteq> None"
  shows "(\<exists>c' w'. retry_round f c w xs = Inr (c', w', True) \<and> cl_leader c' = t) \<or>
    (\<exists>w'. retry_round f c w xs = Inr (c, w', False))"
proof (induction xs arbitrary: w)
  case (Cons x xs)
  let ?s = "(cl_leader c + x) mod n"
  have s: "?s < n" using assms(3) by simp
  obtain w1 where w1: "f w ?s = Inr (w1, ans ?s)" by (rule answersE [OF assms(1)])
  have stay: "updateLeader c ((d + 1) mod n) = c" using assms(4) by (simp add: updateLeader_def)
  consider "?s = t" | "ans ?s = Some ErrNotLeader" | e where "?s = d" "ans ?s = Some e" "e \<noteq> ErrNotLeader"
    using assms(5-7) s by (cases "ans ?s"; cases "?s = d"; cases "?s = t") auto
  then show ?case
  proof cases
    case 1
    with w1 assms(2,6) show ?thesis by (auto simp: updateLeader_def)
  next
    case 2
    with w1 assms(2) Cons.IH [of w1] show ?thesis by simp
  next
    case (3 e)
    have "retry_round f c w (x # xs) = retry_round f (updateLeader c ((?s + 1) mod n)) w1 xs"
      using w1 3(2,3) assms(2) by simp
    then show ?thesis unfolding 3(1) stay using Cons.IH [of w1] by simp
  qed
qed simp

lemma round_one_failure:
  assumes "answers f ans" and "cl_servers c = n" and "t < n" and "d < n"
    and "\<forall>srv < n. srv \<noteq> d \<longrightarrow> srv \<noteq> t \<longrightarrow> ans srv = Some ErrNotLeader" and "ans t = None"
    and "ans d = Some e" and "e \<noteq> ErrNotLeader"
  shows "(\<exists>c' w'. retry_round f c w [0..<n] = Inr (c', w', True) \<and> cl_leader c' = t) \<or>
    (\<exists>w'. retry_round f c w [0..<n] = Inr (updateLeader c ((d + 1) mod n), w', False))"
proof -
  have dt: "d \<noteq> t" using assms(6,7) by auto
  note only = no_other [OF assms(5)]
  obtain i where i: "i < n" "(cl_leader c + i) mod n = t" using offset_ex [OF assms(3)] by blast
  obtain k where k: "k < n" "(cl_leader c + k) mod n = d" using offset_ex [OF assms(4)] by blast
  have other: "ans ((cl_leader c + j) mod n) = Some ErrNotLeader" if "j < n" "j \<noteq> i" "j \<noteq> k" for j
    by (rule only [OF i k that])
  show ?thesis
  proof (cases "i < k")
    case True
    with other k(1) have "\<forall>j < i. ans ((cl_leader c + j) mod cl_servers c) = Some ErrNotLeader"
      using assms(2) by auto
    from round_hit [OF assms(1) this i(1), of w] i(2) assms(2,6) show ?thesis
      by (auto simp: updateLeader_def)
  next
    case False
    have "i \<noteq> k" using i(2) k(2) dt by auto
    with False other i(1) have "\<forall>j \<in> set [0..<k]. ans ((cl_leader c + j) mod cl_servers c) = Some ErrNotLeader"
      using assms(2) by auto
    from round_skip [OF assms(1) this] obtain w1 where
      w1: "retry_round f c w ([0..<k] @ k # [k + 1..<n]) = retry_round f c w1 (k # [k + 1..<n])" by blast
    have split: "[0..<n] = [0..<k] @ k # [k + 1..<n]" by (rule upt_split [OF k(1)])
    obtain w2 where w2: "f w1 d = Inr (w2, Some e)" using answersE [OF assms(1)] assms(7) by metis
    let ?c = "updateLeader c ((d + 1) mod n)"
    have "(\<exists>c' w'. retry_round f ?c w2 [k + 1..<n] = Inr (c', w', True) \<and> cl_leader c' = t) \<or>
        (\<exists>w'. retry_round f ?c w2 [k + 1..<n] = Inr (?c, w', False))"
      by (rule round_behind [OF assms(1) _ _ _ assms(5,6)])
        (use assms in \<open>simp_all add: updateLeader_def\<close>)
    moreover have "retry_round f c w1 (k # [k + 1..<n]) = retry_round f ?c w2 [k + 1..<n]"
      using w2 k(2) assms(2,8) by simp
    ultimately show ?thesis using w1 unfolding split by simp
  qed
qed

lemma round_from_behind:
  assumes "answers f ans" and "cl_servers c = n" and "t < n" and "d < n" and "d \<noteq> t"
    and "cl_leader c = (d + 1) mod n"
    and "\<forall>srv < n. srv \<noteq> d \<longrightarrow> srv \<noteq> t \<longrightarrow> ans srv = Some ErrNotLeader" and "ans t = None"
  shows "\<exists>w'. retry_round f c w [0..<n] = Inr (updateLeader c t, w', True)"
proof -
  obtain i where i: "i < n" "(cl_leader c + i) mod n = t" using offset_ex [OF assms(3)] by blast
  have last: "(cl_leader c + (n - 1)) mod n = d"
  proof -
    have "(cl_leader c + (n - 1)) mod n = (d + 1 + (n - 1)) mod n" unfolding assms(6) by (simp add: mod_simps)
    then show ?thesis using assms(4) by simp
  qed
  then have "i \<noteq> n - 1" using i(2) assms(5) by auto
  with i(1) no_other [OF assms(7) i _ last]
  have "\<forall>j < i. ans ((cl_leader c + j) mod cl_servers c) = Some ErrNotLeader"
    unfolding assms(2) by simp
  from round_hit [OF assms(1) this i(1)] i(2) assms(2,8) show ?thesis by simp
qed

text \<open>
  C18: with one unreachable server, two rounds find the leader, wherever the client starts and
  however many servers there are: if server \<open>t\<close> accepts, server \<open>d\<close> fails in any way, and every other server
  answers that it does not lead, the call returns without an error by the end of
  the second round and remembers \<open>t\<close>.
\<close>
theorem retry_survives_one_failure:
  assumes "answers f ans" and "cl_servers c = n" and "t < n" and "d < n"
    and "\<forall>srv < n. srv \<noteq> d \<longrightarrow> srv \<noteq> t \<longrightarrow> ans srv = Some ErrNotLeader"
    and "ans t = None" and "ans d = Some e" and "e \<noteq> ErrNotLeader"
    and "\<forall>i \<le> 2. ctx (k + i) = None" and "2 \<le> rounds"
  shows "\<exists>c' w'. callWithRetry rounds ctx k f c w = Some (Inr (c', w', None)) \<and> cl_leader c' = t"
proof -
  obtain m where m: "rounds = Suc (Suc m)" using assms(10) by (metis Suc_le_D Suc_le_mono numeral_2_eq_2)
  have ctx: "ctx k = None" "ctx (k + 1) = None" "ctx (k + 2) = None"
    using assms(9) [rule_format, of 0] assms(9) [rule_format, of 1] assms(9) [rule_format, of 2] by simp_all
  let ?c = "updateLeader c ((d + 1) mod n)"
  have dt: "d \<noteq> t" using assms(6,7) by auto
  have second: "\<exists>w2. retry_round f ?c w1 [0..<n] = Inr (updateLeader ?c t, w2, True)" for w1
    by (rule round_from_behind [OF assms(1) _ assms(3,4) dt _ assms(5,6)])
      (simp_all add: assms(2) updateLeader_def)
  have servers: "cl_servers ?c = n" using assms(2) by (simp add: updateLeader_def)
  from round_one_failure [OF assms(1-8), of w] show ?thesis
  proof (elim disjE exE conjE)
    fix c' w' assume "retry_round f c w [0..<n] = Inr (c', w', True)" "cl_leader c' = t"
    then show ?thesis using m ctx(1) assms(2) by simp
  next
    fix w1 assume first: "retry_round f c w [0..<n] = Inr (?c, w1, False)"
    obtain w2 where "retry_round f ?c w1 [0..<n] = Inr (updateLeader ?c t, w2, True)" using second by blast
    then have "callWithRetry rounds ctx k f c w = Some (Inr (updateLeader ?c t, w2, None))"
      using m ctx first assms(2) servers by simp
    then show ?thesis by (simp add: updateLeader_def)
  qed
qed

definition demo_answer :: "nat \<Rightarrow> go_error option" where
  "demo_answer srv = (if srv = 2 then None else if srv = 0 then Some ErrRPC else Some ErrNotLeader)"

theorem retry_survives_one_failure_witness:
  "\<exists>c' w'. callWithRetry 2 (\<lambda>_. None) 0 (\<lambda>w srv. Inr (srv # w, demo_answer srv)) (snd (Client_Make 0 3)) [] =
     Some (Inr (c', w', None)) \<and> cl_leader c' = 2"
proof -
  have "answers (\<lambda>w srv. Inr (srv # w, demo_answer srv)) demo_answer" by (simp add: answers_def)
  from retry_survives_one_failure [OF this, of _ 3 2 0 ErrRPC "\<lambda>_. None" 0 2] show ?thesis
    by (auto simp: demo_answer_def Client_Make_def Let_def)
qed

section \<open>Two failing servers\<close>

text \<open>Five servers: 0 and 2 are down, 3 leads, 1 and 4 follow.\<close>

definition demo_servers :: "'w calls" where
  "demo_servers srv w meth req reply =
     (if srv = 0 \<or> srv = 2 then Inr (w, reply, Some (ErrorString (str ''connection refused'')))
      else if srv = 3 then Inr (w, PutReply zero_PutResponse, None)
      else Inr (w, PutReply (zero_PutResponse\<lparr>pp_Err := Error_text ErrNotLeader\<rparr>), None))"

lemma Error_text_NotLeader: "Error_text ErrNotLeader \<noteq> []"
  by (simp add: Error_text_def str_def)

lemma put_once_demo:
  "put_once demo_servers req w srv = Inr (w,
     if srv = 0 \<or> srv = 2 then Some ErrRPC else if srv = 3 then None else Some ErrNotLeader)"
  using Error_text_NotLeader
  by (simp add: put_once_def callOnce_def demo_servers_def parseErr_def zero_PutResponse_def)

lemma demo_round:
  assumes "cl_servers c = 5" and "cl_leader c \<le> 1"
  shows "retry_round (put_once demo_servers req) c w [0..<5] = Inr (c\<lparr>cl_leader := 1\<rparr>, w, False)"
proof -
  have upt: "[0..<5] = [0, 1, 2, 3, 4 :: nat]" by (simp add: upt_rec)
  from assms(2) consider "cl_leader c = 0" | "cl_leader c = 1" by linarith
  then show ?thesis using assms(1) by cases (simp_all add: upt put_once_demo updateLeader_def)
qed

text \<open>
  C39: with two of five servers down the retry loop can miss the leader for ever, although a majority is up:
  each failure moves the starting point while the counter of the round goes on. A new
  client whose servers are 0 to 4, with 0 and 2 down and 3 leading, keeps calling 0, 1, 2 and 4
  and never returns, however many rounds it is given.
\<close>
theorem retry_never_reaches_leader:
  "Client_Put rounds (\<lambda>_. None) demo_servers (snd (Client_Make g 5)) w key value = None"
proof -
  have "callWithRetry rounds (\<lambda>_. None) k (put_once demo_servers req) c w = None"
    if "cl_servers c = 5" "cl_leader c \<le> 1" for k req c
    using that by (induction rounds arbitrary: k c) (simp_all add: demo_round)
  then show ?thesis by (simp add: Client_Put_def getSeq_def Client_Make_def Let_def)
qed

section \<open>Calls that cannot succeed\<close>

text \<open>
  The gRPC client has no case for transactions, so every attempt fails before anything is
  sent.
\<close>

lemma txn_once_fails:
  "txn_once (\<lambda>srv. GrpcClient_Call (cli srv)) req (w, r) srv = Inr ((w, r), Some ErrRPC)"
  by (simp add: txn_once_def callOnce_def GrpcClient_Call_def str_def)

lemma retry_round_txn:
  "\<exists>c'. retry_round (txn_once (\<lambda>srv. GrpcClient_Call (cli srv)) req) c (w, None) xs = Inr (c', (w, None), False)"
  by (induction xs arbitrary: c) (simp_all add: txn_once_fails Let_def)

lemma callWithRetry_txn:
  "callWithRetry rounds ctx k (txn_once (\<lambda>srv. GrpcClient_Call (cli srv)) req) c (w, None) = Some res \<Longrightarrow>
     \<exists>c' e i. res = Inr (c', (w, None), Some e) \<and> ctx i = Some e"
proof (induction rounds arbitrary: k c)
  case (Suc rounds)
  obtain c' where "retry_round (txn_once (\<lambda>srv. GrpcClient_Call (cli srv)) req) c (w, None) [0..<cl_servers c] =
      Inr (c', (w, None), False)" using retry_round_txn [of cli req c w "[0..<cl_servers c]"] by blast
  with Suc show ?case by (auto split: option.splits)
qed simp

text \<open>
  a client transaction never commits. Over the gRPC client, \<^verbatim>\<open>Commit\<close> sends nothing to any server and either
  goes on for ever or returns the error of its context.
\<close>
theorem client_txn_never_commits:
  "case Txn_Commit rounds ctx (\<lambda>srv. GrpcClient_Call (cli srv)) c w t of
     None \<Rightarrow> True
   | Some res \<Rightarrow> \<exists>c' e i. res = Inr (c', w, Inl e) \<and> ctx i = Some e"
proof -
  obtain c1 seq where g: "getSeq c = (c1, seq)" by fastforce
  let ?f = "txn_once (\<lambda>srv. GrpcClient_Call (cli srv)) \<lparr>tq_Compares = [], tq_ThenOps = ct_thenOps t,
    tq_ElseOps = ct_elseOps t, tq_ClientID = cl_clientID c, tq_Seq = seq\<rparr>"
  show ?thesis
  proof (cases "callWithRetry rounds ctx 0 ?f c1 (w, None)")
    case None
    then show ?thesis by (simp add: Txn_Commit_def g)
  next
    case (Some res)
    obtain c' e i where "res = Inr (c', (w, None), Some e)" "ctx i = Some e"
      using callWithRetry_txn [OF Some] by blast
    with Some show ?thesis by (auto simp: Txn_Commit_def g)
  qed
qed

text \<open>\<^verbatim>\<open>callRPC\<close> reports an error for every reply, a successful one included.\<close>

lemma callRPC_round_error:
  "callRPC_round servers meth req l c w reply xs = Inr (c', w', reply', Some err) \<Longrightarrow> err \<noteq> None"
proof (induction xs arbitrary: c w reply)
  case (Cons i xs)
  then show ?case
    by (auto simp: Let_def GetReplyError_def split: sum.splits option.splits prod.splits any_response.splits if_splits)
qed simp

lemma callRPC_never_succeeds:
  "callRPC rounds servers meth req c w reply = Some (Inr (c', w', reply', err)) \<Longrightarrow> err \<noteq> None"
proof (induction rounds arbitrary: c w reply)
  case (Suc rounds)
  then show ?case
    using callRPC_round_error by (fastforce split: sum.splits prod.splits option.splits)
qed simp

end
