(* ===== verification/ClientProps.thy ===== *)
theory ClientProps
  imports ClientRetry ServerProps2
begin

text \<open>
  The client and the server together: a write of a client reaches the store, a repeated
  request is answered and not executed, and clients of different processes are taken for each
  other.
\<close>

section \<open>A write from end to end\<close>

lemma lone_put:
  assumes "sio_backend io = memory_backend" and "snapshots_total io" and "raft_inv (sv_raft s)"
    and "rf_peers (sv_raft s) \<le> 1" and "rf_state (sv_raft s) = Leader"
    and "rf_lastApplied (sv_raft s) = lastLogIndex (sv_raft s)" and "\<not> sv_closeCh s" and "sv_applyCh s = []"
    and "sv_LastResult s (lastLogIndex (sv_raft s) + 1) = None" and "mem_store H (sv_store s)"
    and "pq_LeaseID q = 0" and "last_seq s (pq_ClientID q) < pq_Seq q"
    and "Encode (sio_MarshalCommand io) (Some (put_command q)) = Inr d"
    and "codec_ok (sio_MarshalCommand io) (sio_UnmarshalCommand io) (the (toPBCommand (Some (put_command q))))"
  shows "\<exists>s'. RPCAdapter_Put io (lone_schedule io clock) s (toPBPutRequest (Some q)) =
      Inr (Some (s', \<lparr>bpp_Err = [], bpp_Revision = int (length H) + 1\<rparr>)) \<and>
    mem_store (H @ [put_event H (pq_Key q) (pq_Value q)]) (sv_store s')"
proof -
  let ?env = "put_command q"
  obtain st where st: "KVStore_Put memory_backend (sv_store s) (clock 0) (pq_Key q) (pq_Value q) 0 =
      (st, Inr (Revision (int (length H) + 1) 0))" "mem_store (H @ [put_event H (pq_Key q) (pq_Value q)]) st"
    by (rule put_step_mem [OF assms(10), of 0 "clock 0" "pq_Key q" "pq_Value q"]) auto
  have run: "applyCommand io clock (sv_store s) ?env =
      Inr (st, zero_Result\<lparr>res_Rev := Some (Revision (int (length H) + 1) 0)\<rparr>)"
    using st(1) assms(1,11) by (simp add: applyCommand_def applyKV_def put_command_def)
  have new: "last_seq s (Command_ClientID ?env) < Command_Seq ?env"
    using assms(12) by (simp add: put_command_def Command_ClientID_def Command_Seq_def)
  obtain s' where "submit io (lone_schedule io clock) s ?env =
      Some (s', stamp ?env (zero_Result\<lparr>res_Rev := Some (Revision (int (length H) + 1) 0)\<rparr>), None)" "sv_store s' = st"
    using lone_submit [OF assms(2-9) put_command_ok assms(13,14) new run] by (auto simp: zero_Result_def)
  with st(2) show ?thesis
    by (auto simp: RPCAdapter_Put_def Put_def err_text_def stamp_def toPBPutResponse_def Let_def)
qed

text \<open>
  C11: a client's write on a cluster of one node lands. When the stub delivers to the
  server's adapter, \<^verbatim>\<open>Put\<close> returns no error in its first round, through the client's conversion, the adapter, the
  log, the applier and the apply loop, and the next read of the key at the current revision is
  the value, at the next revision.
\<close>
theorem client_put_lands:
  assumes "sio_backend io = memory_backend" and "snapshots_total io" and "raft_inv (sv_raft s)"
    and "rf_peers (sv_raft s) \<le> 1" and "rf_state (sv_raft s) = Leader"
    and "rf_lastApplied (sv_raft s) = lastLogIndex (sv_raft s)" and "\<not> sv_closeCh s" and "sv_applyCh s = []"
    and "sv_LastResult s (lastLogIndex (sv_raft s) + 1) = None" and "mem_store H (sv_store s)"
    and "q = put_request c (cl_seq c + 1) key value" and "last_seq s (cl_clientID c) < cl_seq c + 1"
    and "Encode (sio_MarshalCommand io) (Some (put_command q)) = Inr d"
    and "codec_ok (sio_MarshalCommand io) (sio_UnmarshalCommand io) (the (toPBCommand (Some (put_command q))))"
    and "\<And>t m t' r. RPCAdapter_Put io (lone_schedule io clock) t m = Inr (Some (t', r)) \<Longrightarrow>
      ks_Put cli t m = (t', Inr (Some r))"
    and "cl_servers c = 1" and "ctx 0 = None" and "0 < rounds"
  shows "\<exists>c' s'. Client_Put rounds ctx (\<lambda>_. GrpcClient_Call cli) c s key value = Some (Inr (c', s', None)) \<and>
    KVStore_Get memory_backend (sv_store s') key 0 = (value, int (length H) + 1, True)"
proof -
  have q: "pq_LeaseID q = 0" "pq_Key q = key" "pq_Value q = value" "last_seq s (pq_ClientID q) < pq_Seq q"
    using assms(11,12) by (simp_all add: put_request_def)
  from lone_put [OF assms(1-10) q(1,4) assms(13,14), of clock] obtain s' where
    s': "RPCAdapter_Put io (lone_schedule io clock) s (toPBPutRequest (Some q)) =
      Inr (Some (s', \<lparr>bpp_Err = [], bpp_Revision = int (length H) + 1\<rparr>))"
      "mem_store (H @ [put_event H key value]) (sv_store s')" unfolding q(2,3) by blast
  have "ks_Put cli s (toPBPutRequest (Some q)) = (s', Inr (Some \<lparr>bpp_Err = [], bpp_Revision = int (length H) + 1\<rparr>))"
    by (rule assms(15) [OF s'(1)])
  then have "put_once (\<lambda>_. GrpcClient_Call cli) q s srv = Inr (s', None)" for srv
    by (simp add: put_once_def callOnce_def GrpcClient_Call_def parseErr_def fillPutResponseFromPB_def str_def)
  then have "\<exists>c'. Client_Put rounds ctx (\<lambda>_. GrpcClient_Call cli) c s key value = Some (Inr (c', s', None))"
    using assms(11,16-18) by (cases rounds) (simp_all add: Client_Put_def getSeq_def Let_def)
  moreover have "KVStore_Get memory_backend (sv_store s') key 0 = (value, int (length H) + 1, True)"
    using mem.Get_eq [OF mem_storeD(1) [OF s'(2)], of 0 "int (length H) + 1" key]
      state_at_current [OF history_ok_mem [OF s'(2)]] by (simp add: replay_put add.commute)
  ultimately show ?thesis by blast
qed

definition demo_client :: Client where
  "demo_client = snd (Client_Make 0 1)"

definition demo_first :: Command where
  "demo_first = put_command (put_request demo_client 1 (str ''a'') [7])"

text \<open>A stub that delivers: it answers what the adapter of the server answers.\<close>

definition lone_stub :: "('b, 'p) ServerIO \<Rightarrow> (nat \<Rightarrow> int) \<Rightarrow> ('b, 'p) Server KVStub" where
  "lone_stub io clock =
     \<lparr>ks_Get = (\<lambda>w _. (w, Inl ErrTimeout)),
      ks_Put = (\<lambda>w m. case RPCAdapter_Put io (lone_schedule io clock) w m of
         Inr (Some (w', r)) \<Rightarrow> (w', Inr (Some r)) | _ \<Rightarrow> (w, Inl ErrTimeout)),
      ks_Delete = (\<lambda>w _. (w, Inl ErrTimeout)), ks_Range = (\<lambda>w _. (w, Inl ErrTimeout))\<rparr>"

theorem client_put_lands_witness:
  "\<exists>c' s'. Client_Put 1 (\<lambda>_. None) (\<lambda>_. GrpcClient_Call (lone_stub (demo_io [demo_first]) (\<lambda>_. 0))) demo_client
      (fresh_server lone_node) (str ''a'') [7] = Some (Inr (c', s', None)) \<and>
    KVStore_Get memory_backend (sv_store s') (str ''a'') 0 = ([7], 1, True)"
proof -
  note f = lone_node_facts
  then have eq: "rf_snapshot lone_node = []" by simp
  let ?io = "demo_io [demo_first]"
  have io: "sio_backend ?io = memory_backend" by (simp add: demo_io_def)
  have cl: "put_request demo_client 1 (str ''a'') [7] = put_request demo_client (cl_seq demo_client + 1) (str ''a'') [7]"
    "cl_servers demo_client = 1" "cl_seq demo_client = 0"
    by (simp_all add: demo_client_def Client_Make_def Let_def)
  have enc: "Encode (sio_MarshalCommand ?io) (Some (put_command (put_request demo_client 1 (str ''a'') [7]))) = Inr [0]"
    by code_simp
  have cod: "codec_ok (sio_MarshalCommand ?io) (sio_UnmarshalCommand ?io)
      (the (toPBCommand (Some (put_command (put_request demo_client 1 (str ''a'') [7])))))"
    by (simp add: demo_io_def table_codec)
  have stub: "ks_Put (lone_stub ?io (\<lambda>_. 0)) t m = (t', Inr (Some r))"
    if "RPCAdapter_Put ?io (lone_schedule ?io (\<lambda>_. 0)) t m = Inr (Some (t', r))" for t m t' r
    using that by (simp add: lone_stub_def)
  show ?thesis
    using client_put_lands [where s = "fresh_server lone_node" and H = "[]" and ctx = "\<lambda>_. None" and rounds = 1,
        OF io demo_io_total _ _ _ _ _ _ _ _ cl(1) _ enc cod stub cl(2)] f mem_store_new
    by (simp add: lone_server_eq [OF eq] last_seq_def cl(3))
qed

section \<open>Repeating a request\<close>




text \<open>Two processes, each with a counter of its own, on the same server.\<close>

definition demo_second :: Command where
  "demo_second = put_command (put_request demo_client 1 (str ''b'') [8])"

definition two_processes :: "(bool \<times> bool) option" where
  "two_processes =
     (let io = demo_io [demo_first, demo_second];
          servers = (\<lambda>_. GrpcClient_Call (lone_stub io (\<lambda>_. 0)))
      in case Client_Put 1 (\<lambda>_. None) servers (snd (Client_Make 0 1)) (fresh_server lone_node) (str ''a'') [7] of
           Some (Inr (_, s1, None)) \<Rightarrow>
             (case Client_Put 1 (\<lambda>_. None) servers (snd (Client_Make 0 1)) s1 (str ''b'') [8] of
                Some (Inr (_, s2, None)) \<Rightarrow>
                  Some (snd (snd (KVStore_Get memory_backend (sv_store s2) (str ''a'') 0)),
                        snd (snd (KVStore_Get memory_backend (sv_store s2) (str ''b'') 0)))
              | _ \<Rightarrow> None)
         | _ \<Rightarrow> None)"

text \<open>
  clients of different processes share their identity. The client number comes from a
  counter of the process, so the first client of every process is client 1 and its first
  request is number 1: both writes return without an error, the first one is stored and the
  second one is dropped as a repetition of it.
\<close>
theorem client_ids_collide: "two_processes = Some (True, False)"
  by code_simp

end
