(* ===== verification/ClientWatch.thy ===== *)
theory ClientWatch
  imports KVClient
begin

text \<open>
  What the channel of a client watch delivers when its stream breaks and is opened again, any
  number of times, at any server.
\<close>

section \<open>One stream\<close>







section \<open>Reconnecting\<close>
















end
