(* ===== verification/RaftTransport.thy ===== *)
theory RaftTransport
  imports RaftWire
begin

text \<open>
  \<^verbatim>\<open>internal/transport/grpc\<close>: the messages of the raft RPCs (\<^verbatim>\<open>convert_raft.go\<close>), the calling
  side of a peer (\<^verbatim>\<open>raft_client.go\<close>) and the serving side in front of a node
  (\<^verbatim>\<open>raft_server.go\<close>). The generated gRPC stub is the argument \<open>cli\<close>: it takes the remote
  server's state and a message and returns the state afterwards with the answer or an error.
\<close>

section \<open>Messages\<close>

record pb_RaftEntry =
  pre_Term :: int
  pre_Command :: bytes
  pre_Index :: int

record pb_AppendEntriesRequest =
  paq_Term :: int
  paq_LeaderId :: int
  paq_PrevLogIndex :: int
  paq_PrevLogTerm :: int
  paq_Entries :: "pb_RaftEntry option list"
  paq_LeaderCommit :: int

record pb_AppendEntriesReply =
  pap_Term :: int
  pap_Success :: bool
  pap_ConflictTerm :: int
  pap_ConflictIndex :: int

record pb_RequestVoteRequest =
  pvq_Term :: int
  pvq_CandidateId :: int
  pvq_LastLogIndex :: int
  pvq_LastLogTerm :: int

record pb_RequestVoteReply =
  pvp_Term :: int
  pvp_VoteGranted :: bool

record pb_InstallSnapshotRequest =
  piq_Term :: int
  piq_LeaderId :: int
  piq_LastIncludeIndex :: int
  piq_LastIncludeTerm :: int
  piq_Data :: bytes

record pb_InstallSnapshotReply =
  pip_Term :: int

definition toPBLogEntries :: "LogEntry list \<Rightarrow> pb_RaftEntry option list" where
  "toPBLogEntries entries =
     (if length entries = 0 then []
      else map (\<lambda>e. Some \<lparr>pre_Term = e_Term e, pre_Command = [] @ e_Command e, pre_Index = e_Index e\<rparr>) entries)"

text \<open>A nil element panics.\<close>

fun fromPB_entries :: "pb_RaftEntry option list \<Rightarrow> LogEntry list outcome" where
  "fromPB_entries [] = Inr []"
| "fromPB_entries (None # es) = Inl NilPointer"
| "fromPB_entries (Some e # es) =
     (case fromPB_entries es of
        Inl p \<Rightarrow> Inl p
      | Inr out \<Rightarrow> Inr (\<lparr>e_Term = pre_Term e, e_Command = [] @ pre_Command e, e_Index = pre_Index e\<rparr> # out))"

definition fromPBLogEntries :: "pb_RaftEntry option list \<Rightarrow> LogEntry list outcome" where
  "fromPBLogEntries entries = (if length entries = 0 then Inr [] else fromPB_entries entries)"

definition toPBAppendEntriesArgs :: "AppendEntriesArgs option \<Rightarrow> pb_AppendEntriesRequest option" where
  "toPBAppendEntriesArgs args = map_option (\<lambda>a.
     \<lparr>paq_Term = ae_Term a, paq_LeaderId = ae_LeaderId a, paq_PrevLogIndex = ae_PrevLogIndex a,
      paq_PrevLogTerm = ae_PrevLogTerm a, paq_Entries = toPBLogEntries (ae_Entries a),
      paq_LeaderCommit = ae_LeaderCommit a\<rparr>) args"

definition fromPBAppendEntriesArgs ::
  "pb_AppendEntriesRequest option \<Rightarrow> AppendEntriesArgs option outcome" where
  "fromPBAppendEntriesArgs req =
     (case req of
        None \<Rightarrow> Inr None
      | Some r \<Rightarrow>
          (case fromPBLogEntries (paq_Entries r) of
             Inl p \<Rightarrow> Inl p
           | Inr entries \<Rightarrow> Inr (Some
               \<lparr>ae_Term = paq_Term r, ae_LeaderId = paq_LeaderId r, ae_PrevLogIndex = paq_PrevLogIndex r,
                ae_PrevLogTerm = paq_PrevLogTerm r, ae_Entries = entries,
                ae_LeaderCommit = paq_LeaderCommit r\<rparr>)))"

definition toPBAppendEntriesReply :: "AppendEntriesReply option \<Rightarrow> pb_AppendEntriesReply option" where
  "toPBAppendEntriesReply reply = map_option (\<lambda>r.
     \<lparr>pap_Term = aer_Term r, pap_Success = aer_Success r, pap_ConflictTerm = aer_ConflictTerm r,
      pap_ConflictIndex = aer_ConflictIndex r\<rparr>) reply"

definition fromPBAppendEntriesReply :: "pb_AppendEntriesReply option \<Rightarrow> AppendEntriesReply option" where
  "fromPBAppendEntriesReply resp = map_option (\<lambda>r.
     \<lparr>aer_Term = pap_Term r, aer_Success = pap_Success r, aer_ConflictTerm = pap_ConflictTerm r,
      aer_ConflictIndex = pap_ConflictIndex r\<rparr>) resp"

definition toPBRequestVoteArgs :: "RequestVoteArgs option \<Rightarrow> pb_RequestVoteRequest option" where
  "toPBRequestVoteArgs args = map_option (\<lambda>a.
     \<lparr>pvq_Term = rv_Term a, pvq_CandidateId = rv_CandidateId a, pvq_LastLogIndex = rv_LastLogIndex a,
      pvq_LastLogTerm = rv_LastLogTerm a\<rparr>) args"

definition fromPBRequestVoteArgs :: "pb_RequestVoteRequest option \<Rightarrow> RequestVoteArgs option" where
  "fromPBRequestVoteArgs req = map_option (\<lambda>r.
     \<lparr>rv_Term = pvq_Term r, rv_CandidateId = pvq_CandidateId r, rv_LastLogIndex = pvq_LastLogIndex r,
      rv_LastLogTerm = pvq_LastLogTerm r\<rparr>) req"

definition toPBRequestVoteReply :: "RequestVoteReply option \<Rightarrow> pb_RequestVoteReply option" where
  "toPBRequestVoteReply reply = map_option (\<lambda>r.
     \<lparr>pvp_Term = rvr_Term r, pvp_VoteGranted = rvr_VoteGranted r\<rparr>) reply"

definition fromPBRequestVoteReply :: "pb_RequestVoteReply option \<Rightarrow> RequestVoteReply option" where
  "fromPBRequestVoteReply resp = map_option (\<lambda>r.
     \<lparr>rvr_Term = pvp_Term r, rvr_VoteGranted = pvp_VoteGranted r\<rparr>) resp"

definition toPBInstallSnapshotArgs :: "InstallSnapshotArgs option \<Rightarrow> pb_InstallSnapshotRequest option" where
  "toPBInstallSnapshotArgs args = map_option (\<lambda>a.
     \<lparr>piq_Term = is_Term a, piq_LeaderId = is_LeaderID a, piq_LastIncludeIndex = is_LastIncludeIndex a,
      piq_LastIncludeTerm = is_LastIncludeTerm a, piq_Data = [] @ is_Data a\<rparr>) args"

definition fromPBInstallSnapshotArgs :: "pb_InstallSnapshotRequest option \<Rightarrow> InstallSnapshotArgs option" where
  "fromPBInstallSnapshotArgs req = map_option (\<lambda>r.
     \<lparr>is_Term = piq_Term r, is_LeaderID = piq_LeaderId r, is_LastIncludeIndex = piq_LastIncludeIndex r,
      is_LastIncludeTerm = piq_LastIncludeTerm r, is_Data = [] @ piq_Data r\<rparr>) req"

definition toPBInstallSnapshotReply :: "InstallSnapshotReply option \<Rightarrow> pb_InstallSnapshotReply option" where
  "toPBInstallSnapshotReply reply = map_option (\<lambda>r. \<lparr>pip_Term = isr_Term r\<rparr>) reply"

definition fromPBInstallSnapshotReply :: "pb_InstallSnapshotReply option \<Rightarrow> InstallSnapshotReply option" where
  "fromPBInstallSnapshotReply resp = map_option (\<lambda>r. \<lparr>isr_Term = pip_Term r\<rparr>) resp"

section \<open>The serving side\<close>

text \<open>The channel is the one the node was made with.\<close>

record 'p RaftServer =
  rs_rf :: "'p Raft option"
  rs_applyCh :: "ApplyMsg list"

definition NewRaftServer :: "'p Raft option \<Rightarrow> 'p RaftServer" where
  "NewRaftServer rf = \<lparr>rs_rf = rf, rs_applyCh = []\<rparr>"

definition SetRaft :: "'p RaftServer \<Rightarrow> 'p Raft option \<Rightarrow> 'p RaftServer" where
  "SetRaft s rf = s\<lparr>rs_rf := rf\<rparr>"

definition GetRaft :: "'p RaftServer \<Rightarrow> go_error + 'p Raft" where
  "GetRaft s =
     (case rs_rf s of
        None \<Rightarrow> Inl (ErrorString (str ''rpc error: code = Unavailable desc = raft server not ready''))
      | Some rf \<Rightarrow> Inr rf)"

definition RaftServer_AppendEntries ::
  "'p RaftIO \<Rightarrow> 'p RaftServer \<Rightarrow> pb_AppendEntriesRequest option \<Rightarrow>
     ('p RaftServer \<times> (go_error + pb_AppendEntriesReply option)) outcome" where
  "RaftServer_AppendEntries io s req =
     (case GetRaft s of
        Inl err \<Rightarrow> Inr (s, Inl err)
      | Inr rf \<Rightarrow>
          (case fromPBAppendEntriesArgs req of
             Inl p \<Rightarrow> Inl p
           | Inr None \<Rightarrow> Inl NilPointer
           | Inr (Some args) \<Rightarrow>
               (case AppendEntries io rf args of
                  (rf', reply) \<Rightarrow>
                    Inr (s\<lparr>rs_rf := Some rf'\<rparr>, Inr (toPBAppendEntriesReply (Some reply))))))"

definition RaftServer_RequestVote ::
  "'p RaftIO \<Rightarrow> 'p RaftServer \<Rightarrow> pb_RequestVoteRequest option \<Rightarrow>
     ('p RaftServer \<times> (go_error + pb_RequestVoteReply option)) outcome" where
  "RaftServer_RequestVote io s req =
     (case GetRaft s of
        Inl err \<Rightarrow> Inr (s, Inl err)
      | Inr rf \<Rightarrow>
          (case fromPBRequestVoteArgs req of
             None \<Rightarrow> Inl NilPointer
           | Some args \<Rightarrow>
               (case RequestVote io rf args of
                  Inl p \<Rightarrow> Inl p
                | Inr (rf', reply) \<Rightarrow>
                    Inr (s\<lparr>rs_rf := Some rf'\<rparr>, Inr (toPBRequestVoteReply (Some reply))))))"

definition RaftServer_InstallSnapshot ::
  "'p RaftIO \<Rightarrow> 'p RaftServer \<Rightarrow> pb_InstallSnapshotRequest option \<Rightarrow>
     ('p RaftServer \<times> (go_error + pb_InstallSnapshotReply option)) outcome" where
  "RaftServer_InstallSnapshot io s req =
     (case GetRaft s of
        Inl err \<Rightarrow> Inr (s, Inl err)
      | Inr rf \<Rightarrow>
          (case fromPBInstallSnapshotArgs req of
             None \<Rightarrow> Inl NilPointer
           | Some args \<Rightarrow>
               (case InstallSnapshot io rf args of
                  (rf', reply, msg) \<Rightarrow>
                    Inr (s\<lparr>rs_rf := Some rf',
                           rs_applyCh := rs_applyCh s @ (case msg of None \<Rightarrow> [] | Some m \<Rightarrow> [m])\<rparr>,
                         Inr (toPBInstallSnapshotReply (Some reply))))))"

section \<open>The calling side\<close>

type_synonym ('s, 'q, 'r) stub = "'s \<Rightarrow> 'q option \<Rightarrow> ('s \<times> (go_error + 'r option)) outcome"

text \<open>\<^verbatim>\<open>*reply = *fromPB...(resp)\<close> after a call that may fail; a nil response panics.\<close>

definition peer_call ::
  "('s, 'q, 'r) stub \<Rightarrow> ('r option \<Rightarrow> 'a option) \<Rightarrow> 's \<Rightarrow> 'q option \<Rightarrow> 'a \<Rightarrow>
     ('s \<times> 'a \<times> go_error option) outcome" where
  "peer_call cli from s req reply =
     (case cli s req of
        Inl p \<Rightarrow> Inl p
      | Inr (s', Inl err) \<Rightarrow> Inr (s', reply, Some err)
      | Inr (s', Inr resp) \<Rightarrow>
          (case from resp of None \<Rightarrow> Inl NilPointer | Some r \<Rightarrow> Inr (s', r, None)))"

definition GrpcPeer_AppendEntries ::
  "('s, pb_AppendEntriesRequest, pb_AppendEntriesReply) stub \<Rightarrow> 's \<Rightarrow> AppendEntriesArgs option \<Rightarrow>
     AppendEntriesReply \<Rightarrow> ('s \<times> AppendEntriesReply \<times> go_error option) outcome" where
  "GrpcPeer_AppendEntries cli s args reply =
     peer_call cli fromPBAppendEntriesReply s (toPBAppendEntriesArgs args) reply"

definition GrpcPeer_InstallSnapshot ::
  "('s, pb_InstallSnapshotRequest, pb_InstallSnapshotReply) stub \<Rightarrow> 's \<Rightarrow> InstallSnapshotArgs option \<Rightarrow>
     InstallSnapshotReply \<Rightarrow> ('s \<times> InstallSnapshotReply \<times> go_error option) outcome" where
  "GrpcPeer_InstallSnapshot cli s args reply =
     peer_call cli fromPBInstallSnapshotReply s (toPBInstallSnapshotArgs args) reply"

definition GrpcPeer_RequestVote ::
  "('s, pb_RequestVoteRequest, pb_RequestVoteReply) stub \<Rightarrow> 's \<Rightarrow> RequestVoteArgs option \<Rightarrow>
     RequestVoteReply \<Rightarrow> ('s \<times> RequestVoteReply \<times> go_error option) outcome" where
  "GrpcPeer_RequestVote cli s args reply =
     peer_call cli fromPBRequestVoteReply s (toPBRequestVoteArgs args) reply"

section \<open>Nothing is lost on the way\<close>

lemma entries_ends: "fromPBLogEntries (toPBLogEntries es) = Inr es"
proof -
  have "fromPB_entries (map (\<lambda>e. Some \<lparr>pre_Term = e_Term e, pre_Command = [] @ e_Command e,
      pre_Index = e_Index e\<rparr>) es) = Inr es"
    by (induction es) simp_all
  then show ?thesis by (simp add: fromPBLogEntries_def toPBLogEntries_def)
qed

lemma raft_message_ends [simp]:
  "fromPBAppendEntriesArgs (toPBAppendEntriesArgs a) = Inr a"
  "fromPBAppendEntriesReply (toPBAppendEntriesReply b) = b"
  "fromPBRequestVoteArgs (toPBRequestVoteArgs c) = c"
  "fromPBRequestVoteReply (toPBRequestVoteReply d) = d"
  "fromPBInstallSnapshotArgs (toPBInstallSnapshotArgs e) = e"
  "fromPBInstallSnapshotReply (toPBInstallSnapshotReply f) = f"
  by (cases a; simp add: fromPBAppendEntriesArgs_def toPBAppendEntriesArgs_def entries_ends)
    (cases b; cases c; cases d; cases e; cases f;
      simp add: fromPBAppendEntriesReply_def toPBAppendEntriesReply_def fromPBRequestVoteArgs_def
        toPBRequestVoteArgs_def fromPBRequestVoteReply_def toPBRequestVoteReply_def
        fromPBInstallSnapshotArgs_def toPBInstallSnapshotArgs_def fromPBInstallSnapshotReply_def
        toPBInstallSnapshotReply_def)+

text \<open>
  What a unary call of the stub does when it does not fail: a message is handed to the
  handler of the remote server and the handler's answer is handed back. A call may also fail.
\<close>

definition delivers :: "('s, 'q, 'r) stub \<Rightarrow> ('s, 'q, 'r) stub \<Rightarrow> 's \<Rightarrow> 'q option \<Rightarrow> bool" where
  "delivers cli handler s req \<longleftrightarrow>
     req \<noteq> None \<and> (\<forall>s' r. handler s req = Inr (s', Inr (Some r)) \<longrightarrow> cli s req = Inr (s', Inr (Some r)))"

lemma delivers_self: "delivers handler handler s (Some m)"
  by (simp add: delivers_def)

lemma peer_call_delivers:
  assumes "delivers cli handler s req" "handler s req = Inr (s', Inr (Some m))" "from (Some m) = Some r"
  shows "peer_call cli from s req reply = Inr (s', r, None)"
  using assms by (auto simp: delivers_def peer_call_def)

lemma AppendEntries_over_rpc:
  assumes "rs_rf s = Some rf" and "delivers cli (RaftServer_AppendEntries io) s (toPBAppendEntriesArgs (Some a))"
    and "AppendEntries io rf a = (rf', r)"
  shows "GrpcPeer_AppendEntries cli s (Some a) reply = Inr (s\<lparr>rs_rf := Some rf'\<rparr>, r, None)"
proof -
  obtain m where m: "toPBAppendEntriesReply (Some r) = Some m" by (simp add: toPBAppendEntriesReply_def)
  have "RaftServer_AppendEntries io s (toPBAppendEntriesArgs (Some a)) = Inr (s\<lparr>rs_rf := Some rf'\<rparr>, Inr (Some m))"
    using assms(1,3) m by (simp add: RaftServer_AppendEntries_def GetRaft_def)
  moreover have "fromPBAppendEntriesReply (Some m) = Some r" unfolding m [symmetric] by simp
  ultimately show ?thesis unfolding GrpcPeer_AppendEntries_def by (rule peer_call_delivers [OF assms(2)])
qed

lemma RequestVote_over_rpc:
  assumes "rs_rf s = Some rf" and "delivers cli (RaftServer_RequestVote io) s (toPBRequestVoteArgs (Some v))"
    and "RequestVote io rf v = Inr (rf', r)"
  shows "GrpcPeer_RequestVote cli s (Some v) reply = Inr (s\<lparr>rs_rf := Some rf'\<rparr>, r, None)"
proof -
  obtain m where m: "toPBRequestVoteReply (Some r) = Some m" by (simp add: toPBRequestVoteReply_def)
  have "RaftServer_RequestVote io s (toPBRequestVoteArgs (Some v)) = Inr (s\<lparr>rs_rf := Some rf'\<rparr>, Inr (Some m))"
    using assms(1,3) m by (simp add: RaftServer_RequestVote_def GetRaft_def)
  moreover have "fromPBRequestVoteReply (Some m) = Some r" unfolding m [symmetric] by simp
  ultimately show ?thesis unfolding GrpcPeer_RequestVote_def by (rule peer_call_delivers [OF assms(2)])
qed

lemma InstallSnapshot_over_rpc:
  assumes "rs_rf s = Some rf" and "delivers cli (RaftServer_InstallSnapshot io) s (toPBInstallSnapshotArgs (Some i))"
    and "InstallSnapshot io rf i = (rf', r, msg)"
  shows "GrpcPeer_InstallSnapshot cli s (Some i) reply =
    Inr (s\<lparr>rs_rf := Some rf', rs_applyCh := rs_applyCh s @ (case msg of None \<Rightarrow> [] | Some m \<Rightarrow> [m])\<rparr>, r, None)"
proof -
  let ?s = "s\<lparr>rs_rf := Some rf', rs_applyCh := rs_applyCh s @ (case msg of None \<Rightarrow> [] | Some m \<Rightarrow> [m])\<rparr>"
  obtain m where m: "toPBInstallSnapshotReply (Some r) = Some m" by (simp add: toPBInstallSnapshotReply_def)
  have "RaftServer_InstallSnapshot io s (toPBInstallSnapshotArgs (Some i)) = Inr (?s, Inr (Some m))"
    using assms(1,3) m by (simp add: RaftServer_InstallSnapshot_def GetRaft_def)
  moreover have "fromPBInstallSnapshotReply (Some m) = Some r" unfolding m [symmetric] by simp
  ultimately show ?thesis unfolding GrpcPeer_InstallSnapshot_def by (rule peer_call_delivers [OF assms(2)])
qed

text \<open>
  C19: calling a peer over gRPC is calling its handlers. When the transport delivers, each of
  the three RPCs leaves the remote node, and returns in the caller's reply, exactly what the
  node's own handler produces on the same arguments.
\<close>
theorem rpc_transparent:
  assumes "rs_rf s = Some rf"
    and "delivers cliA (RaftServer_AppendEntries io) s (toPBAppendEntriesArgs (Some a))"
    and "delivers cliV (RaftServer_RequestVote io) s (toPBRequestVoteArgs (Some v))"
    and "delivers cliS (RaftServer_InstallSnapshot io) s (toPBInstallSnapshotArgs (Some i))"
    and "AppendEntries io rf a = (rfA, rA)" and "RequestVote io rf v = Inr (rfV, rV)"
    and "InstallSnapshot io rf i = (rfS, rS, msg)"
  shows "GrpcPeer_AppendEntries cliA s (Some a) replyA = Inr (s\<lparr>rs_rf := Some rfA\<rparr>, rA, None) \<and>
    GrpcPeer_RequestVote cliV s (Some v) replyV = Inr (s\<lparr>rs_rf := Some rfV\<rparr>, rV, None) \<and>
    GrpcPeer_InstallSnapshot cliS s (Some i) replyS =
      Inr (s\<lparr>rs_rf := Some rfS, rs_applyCh := rs_applyCh s @ (case msg of None \<Rightarrow> [] | Some m \<Rightarrow> [m])\<rparr>, rS, None)"
  using AppendEntries_over_rpc [OF assms(1,2,5)] RequestVote_over_rpc [OF assms(1,3,6)]
    InstallSnapshot_over_rpc [OF assms(1,4,7)] by blast

definition demo_rpc_node :: "MemoryPersister Raft" where
  "demo_rpc_node = (case Make memory_io 3 1 MakePersister of Inl _ \<Rightarrow> undefined | Inr rf \<Rightarrow> rf)"

definition demo_rpc_append :: AppendEntriesArgs where
  "demo_rpc_append = \<lparr>ae_Term = 1, ae_LeaderId = 0, ae_PrevLogIndex = 0, ae_PrevLogTerm = 0,
     ae_Entries = [\<lparr>e_Term = 1, e_Command = [7], e_Index = 1\<rparr>], ae_LeaderCommit = 1\<rparr>"

definition demo_vote :: RequestVoteArgs where
  "demo_vote = \<lparr>rv_Term = 1, rv_CandidateId = 0, rv_LastLogIndex = 0, rv_LastLogTerm = 0\<rparr>"

definition demo_install :: InstallSnapshotArgs where
  "demo_install = \<lparr>is_Term = 1, is_LeaderID = 0, is_LastIncludeIndex = 3, is_LastIncludeTerm = 1, is_Data = [9]\<rparr>"

lemma demo_vote_granted: "map_sum id snd (RequestVote memory_io demo_rpc_node demo_vote) =
    Inr \<lparr>rvr_Term = 1, rvr_VoteGranted = True\<rparr>"
  by code_simp

theorem rpc_transparent_witness:
  "\<exists>s'. GrpcPeer_RequestVote (RaftServer_RequestVote memory_io) (NewRaftServer (Some demo_rpc_node)) (Some demo_vote)
      \<lparr>rvr_Term = 0, rvr_VoteGranted = False\<rparr> = Inr (s', \<lparr>rvr_Term = 1, rvr_VoteGranted = True\<rparr>, None)"
proof -
  let ?s = "NewRaftServer (Some demo_rpc_node)"
  obtain rfV where v: "RequestVote memory_io demo_rpc_node demo_vote = Inr (rfV, \<lparr>rvr_Term = 1, rvr_VoteGranted = True\<rparr>)"
    using demo_vote_granted by (cases "RequestVote memory_io demo_rpc_node demo_vote") auto
  obtain rfA rA where a: "AppendEntries memory_io demo_rpc_node demo_rpc_append = (rfA, rA)" by fastforce
  obtain rfS rS msg where i: "InstallSnapshot memory_io demo_rpc_node demo_install = (rfS, rS, msg)"
    by (metis surj_pair)
  have "rs_rf ?s = Some demo_rpc_node" by (simp add: NewRaftServer_def)
  from rpc_transparent [OF this _ _ _ a v i, of "RaftServer_AppendEntries memory_io"
      "RaftServer_RequestVote memory_io" "RaftServer_InstallSnapshot memory_io"]
  show ?thesis
    by (simp add: delivers_self toPBAppendEntriesArgs_def toPBRequestVoteArgs_def toPBInstallSnapshotArgs_def)
qed

end
