(* ===== verification/ClusterNode.thy ===== *)
theory ClusterNode
  imports ServerApply RaftTransport
begin

text \<open>
  \<^verbatim>\<open>internal/server/cluster/cluster.go\<close>: the configuration of a node and its check, starting a
  node and closing it. The operating system, the gRPC runtime and the storage libraries are
  the fields of \<open>node_env\<close>. Listeners, gRPC servers and connections are modelled by whether they
  are open; the node keeps the one raft instance that its three parts share.
\<close>

section \<open>Configuration\<close>

record PeerConfig =
  pc_ID :: int
  pc_PeerAddr :: gostring
  pc_ClientAddr :: gostring

record NodeConfig =
  nc_ID :: int
  nc_PeerAddr :: gostring
  nc_ClientAddr :: gostring
  nc_DataDir :: gostring
  nc_StorageBackend :: gostring
  nc_Peers :: "PeerConfig list"

text \<open>One constructor per message, with its arguments.\<close>

datatype config_error =
    NegativeID int
  | PeerAddrRequired
  | ClientAddrRequired
  | DataDirRequired
  | UnsupportedBackend gostring
  | PeersRequired
  | IDOutsidePeers int int
  | PeerIDMismatch nat int
  | PeerAddrMissing nat
  | ClientAddrMissing nat
  | SelfPeerAddrMismatch gostring gostring
  | SelfClientAddrMismatch gostring gostring

fun validate_peers :: "nat \<Rightarrow> PeerConfig list \<Rightarrow> config_error option" where
  "validate_peers i [] = None"
| "validate_peers i (peer # peers) =
     (if pc_ID peer \<noteq> int i then Some (PeerIDMismatch i (pc_ID peer))
      else if pc_PeerAddr peer = [] then Some (PeerAddrMissing i)
      else if pc_ClientAddr peer = [] then Some (ClientAddrMissing i)
      else validate_peers (i + 1) peers)"

definition Validate :: "NodeConfig \<Rightarrow> config_error option" where
  "Validate c =
     (if nc_ID c < 0 then Some (NegativeID (nc_ID c))
      else if nc_PeerAddr c = [] then Some PeerAddrRequired
      else if nc_ClientAddr c = [] then Some ClientAddrRequired
      else if nc_DataDir c = [] then Some DataDirRequired
      else if \<not> (nc_StorageBackend c = [] \<or> nc_StorageBackend c = str ''memory'' \<or> nc_StorageBackend c = str ''lindb'')
        then Some (UnsupportedBackend (nc_StorageBackend c))
      else if length (nc_Peers c) = 0 then Some PeersRequired
      else if nc_ID c \<ge> int (length (nc_Peers c)) then Some (IDOutsidePeers (nc_ID c) (int (length (nc_Peers c))))
      else
        (case validate_peers 0 (nc_Peers c) of
           Some err \<Rightarrow> Some err
         | None \<Rightarrow>
             (let self = nc_Peers c ! nat (nc_ID c)
              in if pc_PeerAddr self \<noteq> nc_PeerAddr c then Some (SelfPeerAddrMismatch (nc_PeerAddr c) (pc_PeerAddr self))
                 else if pc_ClientAddr self \<noteq> nc_ClientAddr c
                 then Some (SelfClientAddrMismatch (nc_ClientAddr c) (pc_ClientAddr self))
                 else None)))"

datatype load_error = ReadConfig go_error | DecodeConfig go_error | InvalidConfig config_error

definition LoadNodeConfig ::
  "(gostring \<Rightarrow> go_error + bytes) \<Rightarrow> (bytes \<Rightarrow> go_error + NodeConfig) \<Rightarrow> gostring \<Rightarrow> load_error + NodeConfig" where
  "LoadNodeConfig ReadFile Unmarshal path =
     (case ReadFile path of
        Inl err \<Rightarrow> Inl (ReadConfig err)
      | Inr data \<Rightarrow>
          (case Unmarshal data of
             Inl err \<Rightarrow> Inl (DecodeConfig err)
           | Inr cfg \<Rightarrow>
               (case Validate cfg of Some err \<Rightarrow> Inl (InvalidConfig err) | None \<Rightarrow> Inr cfg)))"

section \<open>The node\<close>








section \<open>Starting a node\<close>





section \<open>Properties\<close>

definition config_ok :: "NodeConfig \<Rightarrow> bool" where
  "config_ok c \<longleftrightarrow>
     0 \<le> nc_ID c \<and> nc_ID c < int (length (nc_Peers c)) \<and> nc_DataDir c \<noteq> [] \<and>
     nc_StorageBackend c \<in> {[], str ''memory'', str ''lindb''} \<and>
     (\<forall>i < length (nc_Peers c). pc_ID (nc_Peers c ! i) = int i \<and> pc_PeerAddr (nc_Peers c ! i) \<noteq> [] \<and>
        pc_ClientAddr (nc_Peers c ! i) \<noteq> []) \<and>
     pc_PeerAddr (nc_Peers c ! nat (nc_ID c)) = nc_PeerAddr c \<and>
     pc_ClientAddr (nc_Peers c ! nat (nc_ID c)) = nc_ClientAddr c"

lemma validate_peers_ok:
  "validate_peers i peers = None \<longleftrightarrow>
     (\<forall>j < length peers. pc_ID (peers ! j) = int (i + j) \<and> pc_PeerAddr (peers ! j) \<noteq> [] \<and>
        pc_ClientAddr (peers ! j) \<noteq> [])"
proof (induction peers arbitrary: i)
  case (Cons peer peers)
  then show ?case by (simp add: All_less_Suc2) (auto simp: add.commute)
qed simp

lemma Validate_ok: "Validate c = None \<longleftrightarrow> config_ok c"
proof -
  have self: "nat (nc_ID c) < length (nc_Peers c)" if "0 \<le> nc_ID c" "nc_ID c < int (length (nc_Peers c))"
    using that by linarith
  show ?thesis
    using self validate_peers_ok [of 0 "nc_Peers c"]
    by (auto simp: Validate_def config_ok_def Let_def split: option.splits)
qed

text \<open>
  the check of a configuration is exact. \<^verbatim>\<open>Validate\<close> passes a configuration if and only if
  the node's number is a position in the peer list, every peer has its own position as number and both
  addresses, the node's addresses are those of its entry, a data directory is given and the storage
  backend is one of the known ones.
\<close>
theorem validate_exact: "Validate c = None \<longleftrightarrow> config_ok c"
  by (rule Validate_ok)

















end
