(* ===== verification/LinDBBackend.thy ===== *)
theory LinDBBackend
  imports ServerTypes KVRange KVWatch FileCodec
begin

text \<open>
  \<^verbatim>\<open>internal/storage/mvcc/lindb_backend_cgo.go\<close>: the backend on a Lin-DB database. The C library
  and the generated protobuf codecs are the record \<open>LinDB\<close>, a parameter of every operation: a
  database is a value of its own type, a read or write returns it or the text of an error,
  and an iterator is the list of the entries it visits with the error it ends with. What the
  code does with an error is a panic, a value of the model. The quoted key or path in an error text
  is left out. \<^verbatim>\<open>sort.Slice\<close> is a sort by the revision.
\<close>

section \<open>What the backend calls\<close>

datatype batch_op = BatchPut bytes bytes | BatchDelete bytes

record 'd LinDB =
  ld_mkdir :: "gostring \<Rightarrow> go_error option"
  ld_open :: "gostring \<Rightarrow> go_error + 'd option"
  ld_get :: "'d \<Rightarrow> bytes \<Rightarrow> go_error + bytes option"
  ld_put :: "'d \<Rightarrow> bytes \<Rightarrow> bytes \<Rightarrow> go_error + 'd"
  ld_delete :: "'d \<Rightarrow> bytes \<Rightarrow> go_error + 'd"
  ld_write :: "'d \<Rightarrow> batch_op list \<Rightarrow> go_error + 'd"
  ld_scan :: "'d \<Rightarrow> bytes \<Rightarrow> (bytes \<times> bytes) list \<times> go_error option"
  ld_MarshalKeyEntry :: "pb_KeyEntry \<Rightarrow> go_error + bytes"
  ld_UnmarshalKeyEntry :: "bytes \<Rightarrow> go_error + pb_KeyEntry"
  ld_MarshalEvent :: "pb_MvccEvent \<Rightarrow> go_error + bytes"
  ld_UnmarshalEvent :: "bytes \<Rightarrow> go_error + pb_MvccEvent"

text \<open>\<^const>\<open>None\<close> is the nil pointer of a closed backend.\<close>

record 'd LinDBBackend =
  lb_db :: "'d option"

definition or_panic :: "go_error + 'a \<Rightarrow> 'a outcome" where
  "or_panic r = (case r of Inl err \<Rightarrow> Inl (ExplicitPanic (Error_text err)) | Inr x \<Rightarrow> Inr x)"

definition OpenLinDBBackend :: "'d LinDB \<Rightarrow> gostring \<Rightarrow> go_error + 'd LinDBBackend" where
  "OpenLinDBBackend ld path =
     (case ld_mkdir ld path of
        Some err \<Rightarrow> Inl (ErrorString (str ''create lindb directory: '' @ Error_text err))
      | None \<Rightarrow>
          (case ld_open ld path of
             Inl err \<Rightarrow> Inl err
           | Inr None \<Rightarrow> Inl (ErrorString (str ''open Lin-DB returned nil''))
           | Inr (Some database) \<Rightarrow> Inr \<lparr>lb_db = Some database\<rparr>))"

text \<open>The stub of a build without the library.\<close>

definition OpenLinDBBackend_stub :: "gostring \<Rightarrow> go_error + 'd LinDBBackend" where
  "OpenLinDBBackend_stub path =
     Inl (ErrorString (str ''lin-db backend requires CGO_ENABLED=1 and -tags lindb''))"

definition LinDBBackend_Close :: "'d LinDBBackend \<Rightarrow> 'd LinDBBackend" where
  "LinDBBackend_Close b = b\<lparr>lb_db := None\<rparr>"

definition ensureOpenLocked :: "'d LinDBBackend \<Rightarrow> 'd outcome" where
  "ensureOpenLocked b =
     (case lb_db b of
        None \<Rightarrow> Inl (ExplicitPanic (str ''lindb backend is closed''))
      | Some d \<Rightarrow> Inr d)"

section \<open>Keys and values\<close>

definition metaCurrentRev :: gostring where "metaCurrentRev = str ''meta/current_rev''"
definition metaCompactRev :: gostring where "metaCompactRev = str ''meta/compact_rev''"
definition dataPrefix :: gostring where "dataPrefix = str ''data/''"
definition eventPrefix :: gostring where "eventPrefix = str ''event/''"

text \<open>\<^verbatim>\<open>encoding/hex\<close>: two lower case digits per byte; decoding also takes upper case.\<close>

definition hex_digit :: "nat \<Rightarrow> byte" where
  "hex_digit n = (if n < 10 then word_of_nat (48 + n) else word_of_nat (87 + n))"

fun hex_encode :: "bytes \<Rightarrow> gostring" where
  "hex_encode [] = []"
| "hex_encode (b # bs) = hex_digit (unat b div 16) # hex_digit (unat b mod 16) # hex_encode bs"

definition hex_value :: "byte \<Rightarrow> nat option" where
  "hex_value c =
     (if 48 \<le> unat c \<and> unat c \<le> 57 then Some (unat c - 48)
      else if 97 \<le> unat c \<and> unat c \<le> 102 then Some (unat c - 87)
      else if 65 \<le> unat c \<and> unat c \<le> 70 then Some (unat c - 55)
      else None)"

fun hex_decode :: "gostring \<Rightarrow> bytes option" where
  "hex_decode [] = Some []"
| "hex_decode [c] = None"
| "hex_decode (c1 # c2 # cs) =
     (case (hex_value c1, hex_value c2) of
        (Some h, Some l) \<Rightarrow> map_option (\<lambda>bs. word_of_nat (16 * h + l) # bs) (hex_decode cs)
      | _ \<Rightarrow> None)"

definition dataStorageKey :: "gostring \<Rightarrow> gostring" where
  "dataStorageKey key = dataPrefix @ hex_encode key"

text \<open>The verb \<^verbatim>\<open>%0wd\<close>: zeros up to the width, after the sign.\<close>

definition pad_zeros :: "nat \<Rightarrow> gostring \<Rightarrow> gostring" where
  "pad_zeros w s = replicate (w - length s) 48 @ s"

definition fmt_0d :: "nat \<Rightarrow> int \<Rightarrow> gostring" where
  "fmt_0d w i = (if i < 0 then 45 # pad_zeros (w - 1) (digits (nat \<bar>i\<bar>)) else pad_zeros w (digits (nat i)))"

definition eventStorageKey :: "Event \<Rightarrow> gostring" where
  "eventStorageKey event =
     eventPrefix @ fmt_0d 20 (Main (ev_Rev event)) @ 47 # fmt_0d 10 (Sub (ev_Rev event))"

definition encodeInt64 :: "int \<Rightarrow> bytes" where
  "encodeInt64 value = PutUint64 (word_of_int value)"

definition key_entry :: "gostring \<Rightarrow> ValueRevision list \<Rightarrow> pb_KeyEntry" where
  "key_entry key revisions =
     \<lparr>pke_Key = key,
      pke_Revisions = map (\<lambda>v. Some (snapshot_version v)) (sort_key vr_Rev (cloneValueRevisions revisions))\<rparr>"

definition encodeKeyEntry :: "'d LinDB \<Rightarrow> gostring \<Rightarrow> ValueRevision list \<Rightarrow> go_error + bytes" where
  "encodeKeyEntry ld key revisions = ld_MarshalKeyEntry ld (key_entry key revisions)"

fun decode_revisions :: "pb_ValueRevision option list \<Rightarrow> ValueRevision list" where
  "decode_revisions [] = []"
| "decode_revisions (None # vs) = decode_revisions vs"
| "decode_revisions (Some v # vs) =
     (case pvr_Rev v of
        None \<Rightarrow> decode_revisions vs
      | Some rv \<Rightarrow>
          \<lparr>vr_Rev = Revision (Main rv) (Sub rv), vr_Value = [] @ pvr_Value v, vr_Deleted = pvr_Deleted v\<rparr> #
          decode_revisions vs)"

definition decodeKeyEntry :: "'d LinDB \<Rightarrow> bytes \<Rightarrow> go_error + ValueRevision list" where
  "decodeKeyEntry ld encoded =
     (case ld_UnmarshalKeyEntry ld encoded of
        Inl err \<Rightarrow> Inl (ErrorString (str ''decode lindb key entry: '' @ Error_text err))
      | Inr entry \<Rightarrow> Inr (decode_revisions (pke_Revisions entry)))"

definition encodeEvent :: "'d LinDB \<Rightarrow> Event \<Rightarrow> go_error + bytes" where
  "encodeEvent ld event = ld_MarshalEvent ld (snapshot_event event)"

definition decodeEvent :: "'d LinDB \<Rightarrow> bytes \<Rightarrow> go_error + Event" where
  "decodeEvent ld encoded =
     (case ld_UnmarshalEvent ld encoded of
        Inl err \<Rightarrow> Inl (ErrorString (str ''decode lindb event: '' @ Error_text err))
      | Inr e \<Rightarrow>
          (case pev_Rev e of
             None \<Rightarrow> Inl (ErrorString (str ''decode lindb event: nil revision''))
           | Some rv \<Rightarrow>
               Inr \<lparr>ev_Type = u8 (pev_Type e), ev_Key = pev_Key e, ev_Value = [] @ pev_Value e,
                    ev_Rev = Revision (Main rv) (Sub rv)\<rparr>))"

definition sortEvents :: "Event list \<Rightarrow> Event list" where
  "sortEvents events = sort_key ev_Rev events"

section \<open>Reading\<close>

definition getRawLocked :: "'d LinDB \<Rightarrow> 'd LinDBBackend \<Rightarrow> gostring \<Rightarrow> bytes option outcome" where
  "getRawLocked ld b key =
     (case ensureOpenLocked b of Inl p \<Rightarrow> Inl p | Inr d \<Rightarrow> or_panic (ld_get ld d key))"

definition getInt64Locked :: "'d LinDB \<Rightarrow> 'd LinDBBackend \<Rightarrow> gostring \<Rightarrow> int outcome" where
  "getInt64Locked ld b key =
     (case getRawLocked ld b key of
        Inl p \<Rightarrow> Inl p
      | Inr None \<Rightarrow> Inr 0
      | Inr (Some encoded) \<Rightarrow>
          if length encoded \<noteq> 8 then Inl (ExplicitPanic (str ''lindb meta key''))
          else Inr (sint (Uint64 encoded)))"

definition getRevisionsLocked ::
  "'d LinDB \<Rightarrow> 'd LinDBBackend \<Rightarrow> gostring \<Rightarrow> ValueRevision list option outcome" where
  "getRevisionsLocked ld b key =
     (case getRawLocked ld b (dataStorageKey key) of
        Inl p \<Rightarrow> Inl p
      | Inr None \<Rightarrow> Inr None
      | Inr (Some encoded) \<Rightarrow>
          (case decodeKeyEntry ld encoded of
             Inl err \<Rightarrow> Inl (ExplicitPanic (Error_text err))
           | Inr revisions \<Rightarrow> Inr (Some revisions)))"

text \<open>The loops over an iterator.\<close>

fun range_scan :: "gostring \<Rightarrow> (bytes \<times> bytes) list \<Rightarrow> gostring list outcome" where
  "range_scan limitKey [] = Inr []"
| "range_scan limitKey ((storageKey, v) # entries) =
     (if \<not> HasPrefix storageKey dataPrefix then Inr []
      else if limitKey \<noteq> [] \<and> storageKey \<ge> limitKey then Inr []
      else
        (case hex_decode (drop (length dataPrefix) storageKey) of
           None \<Rightarrow> Inl (ExplicitPanic (str ''decode lindb data key''))
         | Some decodedKey \<Rightarrow>
             (case range_scan limitKey entries of Inl p \<Rightarrow> Inl p | Inr keys \<Rightarrow> Inr (decodedKey # keys))))"

definition checkIteratorLocked :: "go_error option \<Rightarrow> 'a \<Rightarrow> 'a outcome" where
  "checkIteratorLocked err x = (case err of Some e \<Rightarrow> Inl (ExplicitPanic (Error_text e)) | None \<Rightarrow> Inr x)"

definition rangeKeysLocked ::
  "'d LinDB \<Rightarrow> 'd LinDBBackend \<Rightarrow> gostring \<Rightarrow> gostring \<Rightarrow> gostring list outcome" where
  "rangeKeysLocked ld b startKey endKey =
     (case ensureOpenLocked b of
        Inl p \<Rightarrow> Inl p
      | Inr d \<Rightarrow>
          (let seekKey = (if startKey \<noteq> [] then dataStorageKey startKey else dataPrefix);
               limitKey = (if endKey \<noteq> [] then dataStorageKey endKey else [])
           in case ld_scan ld d seekKey of
                (entries, err) \<Rightarrow>
                  (case range_scan limitKey entries of
                     Inl p \<Rightarrow> Inl p
                   | Inr keys \<Rightarrow> checkIteratorLocked err keys)))"

fun event_scan :: "'d LinDB \<Rightarrow> (bytes \<times> bytes) list \<Rightarrow> Event list outcome" where
  "event_scan ld [] = Inr []"
| "event_scan ld ((storageKey, v) # entries) =
     (if \<not> HasPrefix storageKey eventPrefix then Inr []
      else
        (case decodeEvent ld v of
           Inl err \<Rightarrow> Inl (ExplicitPanic (Error_text err))
         | Inr event \<Rightarrow>
             (case event_scan ld entries of Inl p \<Rightarrow> Inl p | Inr events \<Rightarrow> Inr (event # events))))"

definition eventsLocked :: "'d LinDB \<Rightarrow> 'd LinDBBackend \<Rightarrow> Event list outcome" where
  "eventsLocked ld b =
     (case ensureOpenLocked b of
        Inl p \<Rightarrow> Inl p
      | Inr d \<Rightarrow>
          (case ld_scan ld d eventPrefix of
             (entries, err) \<Rightarrow>
               (case event_scan ld entries of
                  Inl p \<Rightarrow> Inl p
                | Inr events \<Rightarrow> checkIteratorLocked err (sortEvents events))))"

definition LinDB_CurrentRev :: "'d LinDB \<Rightarrow> 'd LinDBBackend \<Rightarrow> int outcome" where
  "LinDB_CurrentRev ld b = getInt64Locked ld b metaCurrentRev"

definition LinDB_CompactRev :: "'d LinDB \<Rightarrow> 'd LinDBBackend \<Rightarrow> int outcome" where
  "LinDB_CompactRev ld b = getInt64Locked ld b metaCompactRev"

definition LinDB_GetRevisions ::
  "'d LinDB \<Rightarrow> 'd LinDBBackend \<Rightarrow> gostring \<Rightarrow> ValueRevision list option outcome" where
  "LinDB_GetRevisions ld b key = getRevisionsLocked ld b key"

definition LinDB_RangeKeys ::
  "'d LinDB \<Rightarrow> 'd LinDBBackend \<Rightarrow> gostring \<Rightarrow> gostring \<Rightarrow> gostring list outcome" where
  "LinDB_RangeKeys ld b startKey endKey = rangeKeysLocked ld b startKey endKey"

definition LinDB_Events :: "'d LinDB \<Rightarrow> 'd LinDBBackend \<Rightarrow> Event list outcome" where
  "LinDB_Events ld b = eventsLocked ld b"

text \<open>The loop of \<^verbatim>\<open>SnapshotState\<close>.\<close>

fun snapshot_data ::
  "'d LinDB \<Rightarrow> 'd LinDBBackend \<Rightarrow> (gostring \<rightharpoonup> ValueRevision list) \<Rightarrow> gostring list \<Rightarrow>
     (gostring \<rightharpoonup> ValueRevision list) outcome" where
  "snapshot_data ld b data [] = Inr data"
| "snapshot_data ld b data (key # keys) =
     (case getRevisionsLocked ld b key of
        Inl p \<Rightarrow> Inl p
      | Inr None \<Rightarrow> snapshot_data ld b data keys
      | Inr (Some revisions) \<Rightarrow> snapshot_data ld b (data(key \<mapsto> revisions)) keys)"

definition LinDB_SnapshotState :: "'d LinDB \<Rightarrow> 'd LinDBBackend \<Rightarrow> BackendState outcome" where
  "LinDB_SnapshotState ld b =
     (case rangeKeysLocked ld b [] [] of
        Inl p \<Rightarrow> Inl p
      | Inr keys \<Rightarrow>
          (case snapshot_data ld b Map.empty keys of
             Inl p \<Rightarrow> Inl p
           | Inr data \<Rightarrow>
               (case eventsLocked ld b of
                  Inl p \<Rightarrow> Inl p
                | Inr events \<Rightarrow>
                    (case getInt64Locked ld b metaCurrentRev of
                       Inl p \<Rightarrow> Inl p
                     | Inr currentRev \<Rightarrow>
                         (case getInt64Locked ld b metaCompactRev of
                            Inl p \<Rightarrow> Inl p
                          | Inr compactRev \<Rightarrow>
                              Inr \<lparr>bs_Data = data, bs_Events = events, bs_CurrentRev = currentRev,
                                   bs_CompactRev = compactRev\<rparr>)))))"

section \<open>Writing\<close>

definition putRawLocked :: "'d LinDB \<Rightarrow> 'd LinDBBackend \<Rightarrow> gostring \<Rightarrow> bytes \<Rightarrow> 'd LinDBBackend outcome" where
  "putRawLocked ld b key value =
     (case ensureOpenLocked b of
        Inl p \<Rightarrow> Inl p
      | Inr d \<Rightarrow> (case or_panic (ld_put ld d key value) of Inl p \<Rightarrow> Inl p | Inr d1 \<Rightarrow> Inr (b\<lparr>lb_db := Some d1\<rparr>)))"

definition deleteRawLocked :: "'d LinDB \<Rightarrow> 'd LinDBBackend \<Rightarrow> gostring \<Rightarrow> 'd LinDBBackend outcome" where
  "deleteRawLocked ld b key =
     (case ensureOpenLocked b of
        Inl p \<Rightarrow> Inl p
      | Inr d \<Rightarrow> (case or_panic (ld_delete ld d key) of Inl p \<Rightarrow> Inl p | Inr d1 \<Rightarrow> Inr (b\<lparr>lb_db := Some d1\<rparr>)))"

definition writeBatchLocked :: "'d LinDB \<Rightarrow> 'd LinDBBackend \<Rightarrow> batch_op list \<Rightarrow> 'd LinDBBackend outcome" where
  "writeBatchLocked ld b batch =
     (case ensureOpenLocked b of
        Inl p \<Rightarrow> Inl p
      | Inr d \<Rightarrow> (case or_panic (ld_write ld d batch) of Inl p \<Rightarrow> Inl p | Inr d1 \<Rightarrow> Inr (b\<lparr>lb_db := Some d1\<rparr>)))"

text \<open>The entries an iterator visits while the prefix lasts are deleted.\<close>

definition deletePrefixLocked ::
  "'d LinDB \<Rightarrow> 'd LinDBBackend \<Rightarrow> batch_op list \<Rightarrow> gostring \<Rightarrow> batch_op list outcome" where
  "deletePrefixLocked ld b batch prefix =
     (case ensureOpenLocked b of
        Inl p \<Rightarrow> Inl p
      | Inr d \<Rightarrow>
          (case ld_scan ld d prefix of
             (entries, err) \<Rightarrow>
               checkIteratorLocked err
                 (batch @ map (\<lambda>(storageKey, _). BatchDelete storageKey)
                    (takeWhile (\<lambda>(storageKey, _). HasPrefix storageKey prefix) entries))))"

fun batch_events :: "'d LinDB \<Rightarrow> batch_op list \<Rightarrow> Event list \<Rightarrow> batch_op list outcome" where
  "batch_events ld batch [] = Inr batch"
| "batch_events ld batch (event # events) =
     (case or_panic (encodeEvent ld event) of
        Inl p \<Rightarrow> Inl p
      | Inr encoded \<Rightarrow> batch_events ld (batch @ [BatchPut (eventStorageKey event) encoded]) events)"

definition batchPutEventsLocked :: "'d LinDB \<Rightarrow> batch_op list \<Rightarrow> Event list \<Rightarrow> batch_op list outcome" where
  "batchPutEventsLocked ld batch events = batch_events ld batch (sortEvents (cloneEvents events))"

definition LinDB_SetCurrentRev :: "'d LinDB \<Rightarrow> 'd LinDBBackend \<Rightarrow> int \<Rightarrow> 'd LinDBBackend outcome" where
  "LinDB_SetCurrentRev ld b rv = putRawLocked ld b metaCurrentRev (encodeInt64 rv)"

definition LinDB_SetCompactRev :: "'d LinDB \<Rightarrow> 'd LinDBBackend \<Rightarrow> int \<Rightarrow> 'd LinDBBackend outcome" where
  "LinDB_SetCompactRev ld b rv = putRawLocked ld b metaCompactRev (encodeInt64 rv)"

definition LinDB_SetRevisions ::
  "'d LinDB \<Rightarrow> 'd LinDBBackend \<Rightarrow> gostring \<Rightarrow> ValueRevision list \<Rightarrow> 'd LinDBBackend outcome" where
  "LinDB_SetRevisions ld b key revisions =
     (if length revisions = 0 then deleteRawLocked ld b (dataStorageKey key)
      else
        (case or_panic (encodeKeyEntry ld key revisions) of
           Inl p \<Rightarrow> Inl p
         | Inr encoded \<Rightarrow> putRawLocked ld b (dataStorageKey key) encoded))"

definition LinDB_SetEvents :: "'d LinDB \<Rightarrow> 'd LinDBBackend \<Rightarrow> Event list \<Rightarrow> 'd LinDBBackend outcome" where
  "LinDB_SetEvents ld b events =
     (case deletePrefixLocked ld b [] eventPrefix of
        Inl p \<Rightarrow> Inl p
      | Inr batch \<Rightarrow>
          (case batchPutEventsLocked ld batch events of
             Inl p \<Rightarrow> Inl p
           | Inr batch1 \<Rightarrow> writeBatchLocked ld b batch1))"

definition LinDB_AppendEvent :: "'d LinDB \<Rightarrow> 'd LinDBBackend \<Rightarrow> Event \<Rightarrow> 'd LinDBBackend outcome" where
  "LinDB_AppendEvent ld b event =
     (case or_panic (encodeEvent ld event) of
        Inl p \<Rightarrow> Inl p
      | Inr encoded \<Rightarrow> putRawLocked ld b (eventStorageKey event) encoded)"

text \<open>The loop of \<^verbatim>\<open>ReplaceState\<close> over the sorted keys.\<close>

fun batch_data ::
  "'d LinDB \<Rightarrow> (gostring \<rightharpoonup> ValueRevision list) \<Rightarrow> batch_op list \<Rightarrow> gostring list \<Rightarrow> batch_op list outcome" where
  "batch_data ld data batch [] = Inr batch"
| "batch_data ld data batch (key # keys) =
     (let revisions = (case data key of None \<Rightarrow> [] | Some vs \<Rightarrow> vs)
      in if length revisions = 0 then batch_data ld data batch keys
         else
           (case or_panic (encodeKeyEntry ld key revisions) of
              Inl p \<Rightarrow> Inl p
            | Inr encoded \<Rightarrow> batch_data ld data (batch @ [BatchPut (dataStorageKey key) encoded]) keys))"

definition LinDB_ReplaceState :: "'d LinDB \<Rightarrow> 'd LinDBBackend \<Rightarrow> BackendState \<Rightarrow> 'd LinDBBackend outcome" where
  "LinDB_ReplaceState ld b state =
     (case deletePrefixLocked ld b [] dataPrefix of
        Inl p \<Rightarrow> Inl p
      | Inr batch1 \<Rightarrow>
          (case deletePrefixLocked ld b batch1 eventPrefix of
             Inl p \<Rightarrow> Inl p
           | Inr batch2 \<Rightarrow>
               (case batch_data ld (bs_Data state) batch2 (sorted_list_of_set (dom (bs_Data state))) of
                  Inl p \<Rightarrow> Inl p
                | Inr batch3 \<Rightarrow>
                    (case batchPutEventsLocked ld batch3 (bs_Events state) of
                       Inl p \<Rightarrow> Inl p
                     | Inr batch4 \<Rightarrow>
                         writeBatchLocked ld b
                           (batch4 @ [BatchPut metaCurrentRev (encodeInt64 (bs_CurrentRev state)),
                                      BatchPut metaCompactRev (encodeInt64 (bs_CompactRev state))])))))"

end
