(* ===== verification/LinDBSpec.thy ===== *)
theory LinDBSpec
  imports LinDBBackend RaftWire "HOL-Library.Multiset"
begin

text \<open>
  The Lin-DB backend implements the backend contract: when the library behaves as an ordered
  map and the codecs decode what they encoded, no operation panics, every read returns the
  part of the abstract state it should and every write changes the abstract state as the
  in-memory backend does. Version lists and event logs have to be in the order of their
  revisions, as the store keeps them, since the backend sorts both.
\<close>

section \<open>Hexadecimal keys keep the order\<close>

lemma unat_byte: "n < 256 \<Longrightarrow> unat (word_of_nat n :: byte) = n"
  by (simp add: unat_of_nat)

lemma unat_char [simp]:
  "n < 100 \<Longrightarrow> unat (48 + word_of_nat n :: byte) = 48 + n" "n < 100 \<Longrightarrow> unat (87 + word_of_nat n :: byte) = 87 + n"
  using unat_byte [of "48 + n"] unat_byte [of "87 + n"] by simp_all

lemma hex_value_digit [simp]: "n < 16 \<Longrightarrow> hex_value (hex_digit n) = Some n"
  by (simp add: hex_value_def hex_digit_def)

lemma hex_digit_less: "m < 16 \<Longrightarrow> n < 16 \<Longrightarrow> hex_digit m < hex_digit n \<longleftrightarrow> m < n"
  by (simp add: hex_digit_def word_less_nat_alt)

lemma hex_digit_eq: "m < 16 \<Longrightarrow> n < 16 \<Longrightarrow> hex_digit m = hex_digit n \<longleftrightarrow> m = n"
  by (metis hex_value_digit option.inject)

lemma byte_halves: "unat (b :: byte) div 16 < 16" "unat b mod 16 < 16"
  using unsigned_less [of b, where 'a = nat] by simp_all

lemma byte_less: "(a :: byte) < b \<longleftrightarrow>
    unat a div 16 < unat b div 16 \<or> unat a div 16 = unat b div 16 \<and> unat a mod 16 < unat b mod 16"
  unfolding word_less_nat_alt using mult_div_mod_eq [of 16 "unat a"] mult_div_mod_eq [of 16 "unat b"]
    byte_halves [of a] byte_halves [of b] by linarith

lemma byte_eq: "(a :: byte) = b \<longleftrightarrow> unat a div 16 = unat b div 16 \<and> unat a mod 16 = unat b mod 16"
  by (metis mult_div_mod_eq word_eq_iff_unsigned)

lemma hex_decode_encode [simp]: "hex_decode (hex_encode k) = Some k"
  by (induction k) (simp_all add: byte_halves)

lemma hex_encode_less: "hex_encode a < hex_encode b \<longleftrightarrow> a < b"
proof (induction a arbitrary: b)
  case Nil
  then show ?case by (cases b) simp_all
next
  case (Cons x xs)
  then show ?case
    by (cases b) (auto simp: hex_digit_less hex_digit_eq byte_halves byte_less [of x] byte_eq [of x])
qed

lemma hex_encode_eq: "hex_encode a = hex_encode b \<longleftrightarrow> a = b"
  by (metis hex_decode_encode option.inject)

lemma dataStorageKey_order [simp]:
  "dataStorageKey a < dataStorageKey b \<longleftrightarrow> a < b" "dataStorageKey a \<le> dataStorageKey b \<longleftrightarrow> a \<le> b"
  "dataStorageKey a = dataStorageKey b \<longleftrightarrow> a = b"
  by (auto simp: dataStorageKey_def append_less hex_encode_less hex_encode_eq le_less)

section \<open>Decimal keys are unique\<close>

definition decimal :: "gostring \<Rightarrow> nat" where
  "decimal s = foldl (\<lambda>n c. 10 * n + (unat c - 48)) 0 s"

lemma decimal_snoc: "decimal (s @ [c]) = 10 * decimal s + (unat c - 48)"
  by (simp add: decimal_def)

lemma decimal_digits: "decimal (digits n) = n"
proof (induction n rule: digits.induct)
  case (1 n)
  have "n mod 10 < 10" by simp
  then have "n mod 10 < 100" by linarith
  then show ?case
    using 1 by (subst digits.simps) (auto simp: decimal_snoc, simp add: decimal_def)
qed

lemma decimal_pad: "decimal (pad_zeros w s) = decimal s"
proof -
  have "foldl (\<lambda>n c. 10 * n + (unat c - 48)) 0 (replicate m (48 :: byte)) = 0" for m
    by (induction m) simp_all
  then show ?thesis by (simp add: decimal_def pad_zeros_def)
qed

lemma digits_range: "c \<in> set (digits n) \<Longrightarrow> 48 \<le> unat c \<and> unat c \<le> 57"
proof (induction n rule: digits.induct)
  case (1 n)
  have "n mod 10 < 10" by simp
  then have "n mod 10 < 100" "n mod 10 \<le> 9" by linarith+
  then show ?case using 1 digits.simps [of n] by (auto split: if_splits)
qed

lemma fmt_0d_range: "c \<in> set (fmt_0d w i) \<Longrightarrow> c \<noteq> 47"
  using digits_range [of c] by (auto simp: fmt_0d_def pad_zeros_def split: if_splits)

lemma pad_digits_ne: "pad_zeros w (digits n) = 45 # s \<Longrightarrow> False"
  using digits_range [of 45 n] by (cases "w - length (digits n)") (auto simp: pad_zeros_def)

lemma pad_digits_inj: "pad_zeros w (digits m) = pad_zeros w (digits n) \<Longrightarrow> m = n"
  by (metis decimal_pad decimal_digits)

lemma fmt_0d_inj:
  assumes "fmt_0d w i = fmt_0d w j"
  shows "i = j"
proof (cases "i < 0"; cases "j < 0")
  assume s: "i < 0" "j < 0"
  with assms have "nat \<bar>i\<bar> = nat \<bar>j\<bar>" by (intro pad_digits_inj [of "w - 1"]) (simp add: fmt_0d_def)
  with s show ?thesis by linarith
next
  assume s: "\<not> i < 0" "\<not> j < 0"
  with assms have "nat i = nat j" by (intro pad_digits_inj [of w]) (simp add: fmt_0d_def)
  with s show ?thesis by linarith
next
  assume "i < 0" "\<not> j < 0"
  with assms show ?thesis by (simp add: fmt_0d_def) (metis pad_digits_ne)
next
  assume "\<not> i < 0" "j < 0"
  with assms show ?thesis by (simp add: fmt_0d_def) (metis pad_digits_ne)
qed

lemma split_slash: "47 \<notin> set a \<Longrightarrow> 47 \<notin> set b \<Longrightarrow> a @ 47 # x = b @ 47 # y \<Longrightarrow> a = b \<and> x = (y :: byte list)"
  by (induction a arbitrary: b) (auto simp: Cons_eq_append_conv append_eq_Cons_conv)

lemma eventStorageKey_eq [simp]: "eventStorageKey a = eventStorageKey b \<longleftrightarrow> ev_Rev a = ev_Rev b"
proof
  assume "eventStorageKey a = eventStorageKey b"
  then have "fmt_0d 20 (Main (ev_Rev a)) = fmt_0d 20 (Main (ev_Rev b)) \<and> fmt_0d 10 (Sub (ev_Rev a)) = fmt_0d 10 (Sub (ev_Rev b))"
    using fmt_0d_range by (intro split_slash) (auto simp: eventStorageKey_def)
  then show "ev_Rev a = ev_Rev b" using fmt_0d_inj by (metis Revision.expand)
qed (simp add: eventStorageKey_def)

section \<open>The library as an ordered map\<close>

definition apply_op :: "batch_op \<Rightarrow> (bytes \<rightharpoonup> bytes) \<Rightarrow> (bytes \<rightharpoonup> bytes)" where
  "apply_op opr m = (case opr of BatchPut k v \<Rightarrow> m(k \<mapsto> v) | BatchDelete k \<Rightarrow> m(k := None))"

text \<open>
  What a message can carry: a protobuf string is UTF-8 text, and the numbers are of 64 bits.
\<close>

definition utf8_cont :: "byte \<Rightarrow> bool" where
  "utf8_cont b \<longleftrightarrow> 0x80 \<le> b \<and> b \<le> 0xBF"

definition utf8_second :: "byte \<Rightarrow> byte \<Rightarrow> bool" where
  "utf8_second a b \<longleftrightarrow>
     (if a = 0xE0 then 0xA0 else if a = 0xF0 then 0x90 else 0x80) \<le> b \<and>
     b \<le> (if a = 0xED then 0x9F else if a = 0xF4 then 0x8F else 0xBF)"

fun utf8_valid :: "bytes \<Rightarrow> bool" where
  "utf8_valid [] \<longleftrightarrow> True"
| "utf8_valid (a # s) \<longleftrightarrow>
     (if a < 0x80 then utf8_valid s
      else if 0xC2 \<le> a \<and> a \<le> 0xDF then (case s of b # t \<Rightarrow> utf8_cont b \<and> utf8_valid t | _ \<Rightarrow> False)
      else if 0xE0 \<le> a \<and> a \<le> 0xEF then
        (case s of b # c # t \<Rightarrow> utf8_second a b \<and> utf8_cont c \<and> utf8_valid t | _ \<Rightarrow> False)
      else if 0xF0 \<le> a \<and> a \<le> 0xF4 then
        (case s of b # c # d # t \<Rightarrow> utf8_second a b \<and> utf8_cont c \<and> utf8_cont d \<and> utf8_valid t | _ \<Rightarrow> False)
      else False)"

definition int64_rev :: "Revision \<Rightarrow> bool" where
  "int64_rev r \<longleftrightarrow> i64 (Main r) = Main r \<and> i64 (Sub r) = Sub r"

text \<open>
  The version lists and events that are stored and read back unchanged: in the order of their
  revisions, with text keys.
\<close>

definition revisions_ok :: "gostring \<Rightarrow> ValueRevision list \<Rightarrow> bool" where
  "revisions_ok k vs \<longleftrightarrow>
     utf8_valid k \<and> sorted_wrt (<) (map vr_Rev vs) \<and> (\<forall>v \<in> set vs. int64_rev (vr_Rev v))"

definition event_ok :: "Event \<Rightarrow> bool" where
  "event_ok e \<longleftrightarrow> utf8_valid (ev_Key e) \<and> u8 (ev_Type e) = ev_Type e \<and> int64_rev (ev_Rev e)"

definition events_ok :: "Event list \<Rightarrow> bool" where
  "events_ok es \<longleftrightarrow> sorted_wrt (<) (map ev_Rev es) \<and> (\<forall>e \<in> set es. event_ok e)"

text \<open>
  \<open>view d\<close> is the contents of the database: reads and writes do not fail and act on it, a
  batch is written in order, and an iterator visits the keys from its seek key on in the order of their
  bytes. The codecs decode what they encoded, for the messages of such lists and events.
\<close>

definition lindb_laws :: "'d LinDB \<Rightarrow> ('d \<Rightarrow> bytes \<rightharpoonup> bytes) \<Rightarrow> bool" where
  "lindb_laws ld view \<longleftrightarrow>
     (\<forall>d k. ld_get ld d k = Inr (view d k)) \<and>
     (\<forall>d k v. \<exists>d'. ld_put ld d k v = Inr d' \<and> view d' = (view d)(k \<mapsto> v)) \<and>
     (\<forall>d k. \<exists>d'. ld_delete ld d k = Inr d' \<and> view d' = (view d)(k := None)) \<and>
     (\<forall>d ops. \<exists>d'. ld_write ld d ops = Inr d' \<and> view d' = fold apply_op ops (view d)) \<and>
     (\<forall>d s. finite (dom (view d)) \<and>
        ld_scan ld d s = (map (\<lambda>k. (k, the (view d k))) (sorted_list_of_set {k \<in> dom (view d). s \<le> k}), None)) \<and>
     (\<forall>k vs. revisions_ok k vs \<longrightarrow> (\<exists>e. ld_MarshalKeyEntry ld (key_entry k vs) = Inr e \<and>
        ld_UnmarshalKeyEntry ld e = Inr (key_entry k vs))) \<and>
     (\<forall>ev. event_ok ev \<longrightarrow> (\<exists>e. ld_MarshalEvent ld (snapshot_event ev) = Inr e \<and>
        ld_UnmarshalEvent ld e = Inr (snapshot_event ev)))"

text \<open>The encoded forms of a version list and of an event.\<close>

definition entry_bytes :: "'d LinDB \<Rightarrow> gostring \<Rightarrow> ValueRevision list \<Rightarrow> bytes" where
  "entry_bytes ld k vs = projr (encodeKeyEntry ld k vs)"

definition event_bytes :: "'d LinDB \<Rightarrow> Event \<Rightarrow> bytes" where
  "event_bytes ld ev = projr (encodeEvent ld ev)"

definition ordered_state :: "BackendState \<Rightarrow> bool" where
  "ordered_state st \<longleftrightarrow>
     state_ok st \<and> (\<forall>k vs. bs_Data st k = Some vs \<longrightarrow> revisions_ok k vs) \<and> events_ok (bs_Events st) \<and>
     i64 (bs_CurrentRev st) = bs_CurrentRev st \<and> i64 (bs_CompactRev st) = bs_CompactRev st"

lemma strict_sorted: "sorted_wrt (<) (map f xs :: 'a::linorder list) \<Longrightarrow> sort_key f xs = xs \<and> distinct (map f xs)"
  by (metis sort_key_id_if_sorted strict_sorted_iff)

lemma decode_versions: "decode_revisions (map (\<lambda>v. Some (snapshot_version v)) vs) = vs"
  by (induction vs) (simp_all add: snapshot_version_def)

lemma laws_entry:
  assumes "lindb_laws ld view" and "revisions_ok k vs"
  shows "encodeKeyEntry ld k vs = Inr (entry_bytes ld k vs)" "decodeKeyEntry ld (entry_bytes ld k vs) = Inr vs"
proof -
  obtain e where e: "ld_MarshalKeyEntry ld (key_entry k vs) = Inr e" "ld_UnmarshalKeyEntry ld e = Inr (key_entry k vs)"
    using assms unfolding lindb_laws_def by blast
  have "sort_key vr_Rev vs = vs" using strict_sorted assms(2) unfolding revisions_ok_def by blast
  with e show "encodeKeyEntry ld k vs = Inr (entry_bytes ld k vs)" "decodeKeyEntry ld (entry_bytes ld k vs) = Inr vs"
    by (simp_all add: entry_bytes_def encodeKeyEntry_def decodeKeyEntry_def key_entry_def decode_versions)
qed

lemma laws_event:
  assumes "lindb_laws ld view" and "event_ok ev"
  shows "encodeEvent ld ev = Inr (event_bytes ld ev)" "decodeEvent ld (event_bytes ld ev) = Inr ev"
proof -
  obtain e where e: "ld_MarshalEvent ld (snapshot_event ev) = Inr e" "ld_UnmarshalEvent ld e = Inr (snapshot_event ev)"
    using assms unfolding lindb_laws_def by blast
  moreover have "u8 (ev_Type ev) = ev_Type ev" using assms(2) by (simp add: event_ok_def)
  ultimately show "encodeEvent ld ev = Inr (event_bytes ld ev)" "decodeEvent ld (event_bytes ld ev) = Inr ev"
    by (simp_all add: event_bytes_def encodeEvent_def decodeEvent_def snapshot_event_def)
qed

lemma decode_int: "i64 n = n \<Longrightarrow> sint (Uint64 (encodeInt64 n)) = n"
  by (simp add: encodeInt64_def sint_word_ariths i64_def signed_of_int)

lemma HasPrefix_take: "HasPrefix s p \<longleftrightarrow> take (length p) s = p"
  by (metis HasPrefix_def length_take min.cobounded1)

text \<open>The visited keys of an interval that is cut off by a bound.\<close>

lemma takeWhile_sorted: "sorted xs \<Longrightarrow> takeWhile (\<lambda>x. x < c) xs = filter (\<lambda>x. x < (c :: 'a::linorder)) xs"
proof (induction xs)
  case (Cons x xs)
  show ?case
  proof (cases "x < c")
    case False
    with Cons.prems have "filter (\<lambda>x. x < c) xs = []" by (auto simp: filter_empty_conv)
    with False show ?thesis by simp
  qed (use Cons in simp)
qed simp

lemma prefix_between:
  assumes "p \<noteq> []" and "last p < 255" and "p \<le> k"
  shows "HasPrefix k p \<longleftrightarrow> k < prefixEnd p"
proof -
  have "prefixEnd p \<noteq> []" using prefixEnd_cases [of p] assms(1,2) last_in_set [of p] by (auto simp del: last_in_set)
  from prefix_interval [OF this] assms(3) show ?thesis by (auto simp: HasPrefix_take)
qed

lemma data_prefix: "dataPrefix \<noteq> []" "last dataPrefix < 255" and event_prefix: "eventPrefix \<noteq> []" "last eventPrefix < 255"
  by (simp_all add: dataPrefix_def eventPrefix_def str_def)

lemma scan_prefix:
  assumes "finite K" and "p \<noteq> []" and "last p < 255" and "p \<le> s"
  shows "takeWhile (\<lambda>k. HasPrefix k p) (sorted_list_of_set {k \<in> K. s \<le> k}) =
    sorted_list_of_set {k \<in> K. HasPrefix k p \<and> s \<le> k}"
proof -
  let ?xs = "sorted_list_of_set {k \<in> K. s \<le> k}"
  have "takeWhile (\<lambda>k. HasPrefix k p) ?xs = takeWhile (\<lambda>k. k < prefixEnd p) ?xs"
    using assms(1,4) prefix_between [OF assms(2,3)] by (intro takeWhile_cong) auto
  also have "\<dots> = filter (\<lambda>k. k < prefixEnd p) ?xs" by (rule takeWhile_sorted) simp
  also have "\<dots> = sorted_list_of_set {k \<in> K. HasPrefix k p \<and> s \<le> k}"
  proof (rule sorted_distinct_set_unique)
    show "set (filter (\<lambda>k. k < prefixEnd p) ?xs) = set (sorted_list_of_set {k \<in> K. HasPrefix k p \<and> s \<le> k})"
      using assms(1,4) prefix_between [OF assms(2,3)] by auto
  qed (simp_all add: sorted_wrt_filter)
  finally show ?thesis .
qed

section \<open>The state a database holds\<close>

definition meta_at :: "(bytes \<rightharpoonup> bytes) \<Rightarrow> gostring \<Rightarrow> int \<Rightarrow> bool" where
  "meta_at m key n \<longleftrightarrow> (case m key of None \<Rightarrow> n = 0 | Some v \<Rightarrow> v = encodeInt64 n)"

definition data_at :: "'d LinDB \<Rightarrow> (bytes \<rightharpoonup> bytes) \<Rightarrow> (gostring \<rightharpoonup> ValueRevision list) \<Rightarrow> bool" where
  "data_at ld m data \<longleftrightarrow>
     (\<forall>k. m (dataStorageKey k) = map_option (entry_bytes ld k) (data k)) \<and>
     (\<forall>s \<in> dom m. HasPrefix s dataPrefix \<longrightarrow> s \<in> range dataStorageKey)"

definition event_pairs :: "'d LinDB \<Rightarrow> Event list \<Rightarrow> (bytes \<times> bytes) list" where
  "event_pairs ld es = map (\<lambda>e. (eventStorageKey e, event_bytes ld e)) es"

definition events_at :: "'d LinDB \<Rightarrow> (bytes \<rightharpoonup> bytes) \<Rightarrow> Event list \<Rightarrow> bool" where
  "events_at ld m es \<longleftrightarrow> (\<forall>s. HasPrefix s eventPrefix \<longrightarrow> m s = map_of (event_pairs ld es) s)"

definition holds_state :: "'d LinDB \<Rightarrow> (bytes \<rightharpoonup> bytes) \<Rightarrow> BackendState \<Rightarrow> bool" where
  "holds_state ld m st \<longleftrightarrow>
     ordered_state st \<and> meta_at m metaCurrentRev (bs_CurrentRev st) \<and>
     meta_at m metaCompactRev (bs_CompactRev st) \<and> data_at ld m (bs_Data st) \<and> events_at ld m (bs_Events st)"

text \<open>An open backend whose database holds a state.\<close>

definition backs :: "'d LinDB \<Rightarrow> ('d \<Rightarrow> bytes \<rightharpoonup> bytes) \<Rightarrow> 'd LinDBBackend \<Rightarrow> BackendState \<Rightarrow> bool" where
  "backs ld view b st \<longleftrightarrow> (\<exists>d. lb_db b = Some d \<and> holds_state ld (view d) st)"

text \<open>The three kinds of keys do not meet.\<close>

lemma prefixes [simp]:
  "HasPrefix (dataStorageKey k) dataPrefix" "\<not> HasPrefix (dataStorageKey k) eventPrefix"
  "HasPrefix (eventStorageKey e) eventPrefix" "\<not> HasPrefix (eventStorageKey e) dataPrefix"
  "\<not> HasPrefix metaCurrentRev dataPrefix" "\<not> HasPrefix metaCompactRev dataPrefix"
  "\<not> HasPrefix metaCurrentRev eventPrefix" "\<not> HasPrefix metaCompactRev eventPrefix"
  "metaCurrentRev \<noteq> metaCompactRev"
  by (simp_all add: HasPrefix_take dataStorageKey_def eventStorageKey_def dataPrefix_def eventPrefix_def
      metaCurrentRev_def metaCompactRev_def str_def)

lemma keys_apart [simp]:
  "dataStorageKey k \<noteq> eventStorageKey e" "eventStorageKey e \<noteq> dataStorageKey k"
  "metaCurrentRev \<noteq> dataStorageKey k" "metaCompactRev \<noteq> dataStorageKey k"
  "metaCurrentRev \<noteq> eventStorageKey e" "metaCompactRev \<noteq> eventStorageKey e"
  by (metis prefixes)+

lemmas more_apart [simp] = keys_apart(3-6) [symmetric] prefixes(9) [symmetric]

lemma dataStorageKey_strip [simp]:
  "hex_decode (drop (length dataPrefix) (dataStorageKey k)) = Some k" "dataStorageKey k \<noteq> []"
  by (simp_all add: dataStorageKey_def dataPrefix_def str_def)

section \<open>Reading what is held\<close>

lemma laws_scan:
  assumes "lindb_laws ld view"
  shows "finite (dom (view d))"
    "ld_scan ld d s = (map (\<lambda>k. (k, the (view d k))) (sorted_list_of_set {k \<in> dom (view d). s \<le> k}), None)"
  using assms unfolding lindb_laws_def by blast+

lemma laws_get: "lindb_laws ld view \<Longrightarrow> ld_get ld d k = Inr (view d k)"
  unfolding lindb_laws_def by blast

lemma getRaw_held: "lindb_laws ld view \<Longrightarrow> lb_db b = Some d \<Longrightarrow> getRawLocked ld b key = Inr (view d key)"
  by (simp add: getRawLocked_def ensureOpenLocked_def laws_get or_panic_def)

lemma encodeInt64_length [simp]: "length (encodeInt64 n) = 8"
  by (simp add: encodeInt64_def PutUint64_def)

lemma getInt64_held:
  "lindb_laws ld view \<Longrightarrow> lb_db b = Some d \<Longrightarrow> meta_at (view d) key n \<Longrightarrow> i64 n = n \<Longrightarrow> getInt64Locked ld b key = Inr n"
  by (auto simp: getInt64Locked_def getRaw_held meta_at_def decode_int split: option.splits)

lemma getRevisions_held:
  assumes "lindb_laws ld view" and "lb_db b = Some d" and "data_at ld (view d) data"
    and "\<forall>k vs. data k = Some vs \<longrightarrow> revisions_ok k vs"
  shows "getRevisionsLocked ld b key = Inr (data key)"
proof (cases "data key")
  case (Some vs)
  with assms show ?thesis
    using laws_entry(2) [OF assms(1)]
    by (simp add: getRevisionsLocked_def getRaw_held [OF assms(1,2)] data_at_def)
qed (use assms in \<open>simp add: getRevisionsLocked_def getRaw_held [OF assms(1,2)] data_at_def\<close>)

lemma range_scan_keys:
  assumes "\<And>s. s \<in> set ks \<Longrightarrow> HasPrefix s dataPrefix \<Longrightarrow> s \<in> range dataStorageKey"
  shows "range_scan limit (map (\<lambda>k. (k, f k)) ks) =
    Inr (map (inv dataStorageKey)
      (takeWhile (\<lambda>s. limit = [] \<or> s < limit) (takeWhile (\<lambda>s. HasPrefix s dataPrefix) ks)))"
  using assms
proof (induction ks)
  case (Cons s ks)
  show ?case
  proof (cases "HasPrefix s dataPrefix")
    case True
    then obtain k where s: "s = dataStorageKey k" using Cons.prems by auto
    have "inv dataStorageKey s = k" unfolding s by (rule inv_f_f) (simp add: inj_def)
    with True s Cons show ?thesis by (auto simp: not_le)
  qed simp
qed simp

text \<open>The data keys of an interval, as they are stored and as they are read back.\<close>

lemma data_keys:
  assumes "finite (dom m)" and "data_at ld m data"
  shows "sorted_list_of_set {s \<in> dom m. HasPrefix s dataPrefix \<and> dataStorageKey a \<le> s} =
    map dataStorageKey (sorted_list_of_set {k \<in> dom data. a \<le> k})" (is "?l = map dataStorageKey (sorted_list_of_set ?K)")
proof (rule sorted_distinct_set_unique)
  have K: "{s \<in> dom m. HasPrefix s dataPrefix \<and> dataStorageKey a \<le> s} = dataStorageKey ` ?K"
  proof (rule set_eqI, rule iffI)
    fix s assume s: "s \<in> {s \<in> dom m. HasPrefix s dataPrefix \<and> dataStorageKey a \<le> s}"
    then obtain k where k: "s = dataStorageKey k" using assms(2) unfolding data_at_def by blast
    with s assms(2) have "k \<in> ?K" by (auto simp: data_at_def)
    with k show "s \<in> dataStorageKey ` ?K" by (rule image_eqI)
  qed (use assms(2) in \<open>auto simp: data_at_def\<close>)
  have inj: "inj_on dataStorageKey A" for A by (simp add: inj_on_def)
  have "finite (dataStorageKey ` ?K)" using assms(1) by (simp add: K [symmetric])
  then have fin: "finite ?K" by (rule finite_imageD [OF _ inj])
  show "set ?l = set (map dataStorageKey (sorted_list_of_set ?K))" unfolding K using fin by simp
  show "distinct (map dataStorageKey (sorted_list_of_set ?K))" by (simp add: distinct_map inj)
  show "sorted (map dataStorageKey (sorted_list_of_set ?K))" by (simp add: sorted_wrt_map)
qed simp_all

lemma inv_dataStorageKey [simp]: "inv dataStorageKey (dataStorageKey k) = k"
  by (rule inv_f_f) (simp add: inj_def)

lemma takeWhile_True [simp]: "takeWhile (\<lambda>x. True) xs = xs"
  by (simp add: takeWhile_eq_all_conv)

lemma prefix_le: "HasPrefix s p \<Longrightarrow> p \<le> s"
  using append_le [of p "[]" "drop (length p) s"] by (simp add: HasPrefix_take) (metis append_take_drop_id)

lemma data_prefix_le [simp]: "dataPrefix \<le> dataStorageKey a"
  using append_le [of dataPrefix "[]" "hex_encode a"] by (simp add: dataStorageKey_def)

lemma filter_sorted_set:
  "finite K \<Longrightarrow> filter P (sorted_list_of_set K) = sorted_list_of_set {k \<in> K. P (k :: 'a::linorder)}"
  by (rule sorted_distinct_set_unique) (simp_all add: sorted_wrt_filter)

lemma data_finite:
  assumes "finite (dom m)" and "data_at ld m data"
  shows "finite (dom data)"
proof (rule finite_imageD)
  have "dataStorageKey ` dom data \<subseteq> dom m" using assms(2) by (auto simp: data_at_def)
  then show "finite (dataStorageKey ` dom data)" using assms(1) by (rule finite_subset)
qed (simp add: inj_on_def)

lemma rangeKeys_held:
  assumes "lindb_laws ld view" and "lb_db b = Some d" and "data_at ld (view d) data"
  shows "rangeKeysLocked ld b a z = Inr (sorted_list_of_set {k \<in> dom data. a \<le> k \<and> (z = [] \<or> k < z)})"
proof -
  let ?m = "view d" and ?seek = "if a \<noteq> [] then dataStorageKey a else dataPrefix"
    and ?limit = "if z \<noteq> [] then dataStorageKey z else []" and ?K = "{k \<in> dom data. a \<le> k}"
  let ?S = "sorted_list_of_set {s \<in> dom ?m. dataStorageKey a \<le> s}"
  note fin = laws_scan(1) [OF assms(1), of d] and scan = laws_scan(2) [OF assms(1), of d]
  have seek: "?seek = dataStorageKey a" by (simp add: dataStorageKey_def)
  have keys: "takeWhile (\<lambda>s. HasPrefix s dataPrefix) ?S = map dataStorageKey (sorted_list_of_set ?K)"
    unfolding scan_prefix [OF fin data_prefix data_prefix_le] by (rule data_keys [OF fin assms(3)])
  have K: "finite ?K" using data_finite [OF fin assms(3)] by simp
  have cut: "takeWhile (\<lambda>s. ?limit = [] \<or> s < ?limit) (map dataStorageKey (sorted_list_of_set ?K)) =
      map dataStorageKey (sorted_list_of_set {k \<in> dom data. a \<le> k \<and> (z = [] \<or> k < z)})"
    by (simp add: takeWhile_map comp_def takeWhile_sorted filter_sorted_set [OF K] conj_assoc)
  have stored: "s \<in> range dataStorageKey" if "s \<in> set ?S" "HasPrefix s dataPrefix" for s
    using that fin assms(3) by (auto simp: data_at_def)
  show ?thesis
    unfolding rangeKeysLocked_def ensureOpenLocked_def assms(2) option.case sum.case Let_def seek scan prod.case
    by (subst range_scan_keys [OF stored]) (simp_all only: keys cut, simp add: checkIteratorLocked_def comp_def)
qed

text \<open>The events come back in the order of their keys and are sorted by revision.\<close>

lemma event_scan_keys:
  assumes "\<And>s. s \<in> set ks \<Longrightarrow> HasPrefix s eventPrefix \<Longrightarrow> decodeEvent ld (f s) = Inr (g s)"
  shows "event_scan ld (map (\<lambda>k. (k, f k)) ks) = Inr (map g (takeWhile (\<lambda>s. HasPrefix s eventPrefix) ks))"
  using assms by (induction ks) auto

lemma event_pairs_at:
  assumes "events_ok es" and "e \<in> set es"
  shows "map_of (event_pairs ld es) (eventStorageKey e) = Some (event_bytes ld e)"
proof -
  have "distinct (map ev_Rev es)" using strict_sorted assms(1) unfolding events_ok_def by blast
  then have "distinct (map fst (event_pairs ld es))"
    by (simp add: event_pairs_def comp_def distinct_map inj_on_def)
  then show ?thesis by (rule map_of_is_SomeI) (use assms(2) in \<open>auto simp: event_pairs_def\<close>)
qed

lemma event_keys_held:
  assumes "events_at ld m es"
  shows "{s \<in> dom m. HasPrefix s eventPrefix} = eventStorageKey ` set es"
proof -
  have "dom (map_of (event_pairs ld es)) = eventStorageKey ` set es"
    by (simp add: dom_map_of_conv_image_fst event_pairs_def image_image)
  moreover have "{s \<in> dom m. HasPrefix s eventPrefix} = {s \<in> dom (map_of (event_pairs ld es)). HasPrefix s eventPrefix}"
    using assms by (auto simp: events_at_def dom_def)
  ultimately show ?thesis by auto
qed

lemma events_held:
  assumes "lindb_laws ld view" and "lb_db b = Some d" and "events_at ld (view d) es" and "events_ok es"
  shows "eventsLocked ld b = Inr es"
proof -
  let ?m = "view d" let ?S = "sorted_list_of_set {s \<in> dom ?m. eventPrefix \<le> s}"
  note fin = laws_scan(1) [OF assms(1), of d] and scan = laws_scan(2) [OF assms(1), of d]
  define g where "g s = (THE e. e \<in> set es \<and> eventStorageKey e = s)" for s
  have srt: "sort_key ev_Rev es = es" "distinct (map ev_Rev es)"
    using strict_sorted assms(4) unfolding events_ok_def by blast+
  have injr: "inj_on ev_Rev (set es)" using srt(2) by (simp add: distinct_map)
  have g: "g (eventStorageKey e) = e" if "e \<in> set es" for e
    unfolding g_def using that injr by (intro the_equality) (auto dest: inj_onD)
  have held: "\<exists>e \<in> set es. s = eventStorageKey e" if "s \<in> dom ?m" "HasPrefix s eventPrefix" for s
    using event_keys_held [OF assms(3)] that by auto
  have dec: "decodeEvent ld (the (?m s)) = Inr (g s)" if s: "s \<in> set ?S" "HasPrefix s eventPrefix" for s
  proof -
    have "s \<in> dom ?m" using s(1) fin by simp
    then obtain e where e: "e \<in> set es" "s = eventStorageKey e" using held s(2) by blast
    then have "?m s = Some (event_bytes ld e)"
      using assms(3) event_pairs_at [OF assms(4) e(1), of ld] s(2) by (simp add: events_at_def)
    moreover have "event_ok e" using assms(4) e(1) by (simp add: events_ok_def)
    ultimately show ?thesis using laws_event(2) [OF assms(1)] g [OF e(1)] e(2) by simp
  qed
  have keys: "takeWhile (\<lambda>s. HasPrefix s eventPrefix) ?S = sorted_list_of_set (eventStorageKey ` set es)" (is "_ = ?L")
  proof -
    have "{s \<in> dom ?m. HasPrefix s eventPrefix \<and> eventPrefix \<le> s} = {s \<in> dom ?m. HasPrefix s eventPrefix}"
      using prefix_le by blast
    then show ?thesis unfolding scan_prefix [OF fin event_prefix order_refl] by (simp only: event_keys_held [OF assms(3)])
  qed
  have "mset (map g ?L) = mset es"
  proof (rule set_eq_iff_mset_eq_distinct [THEN iffD1])
    have "distinct es" using srt(2) by (simp add: distinct_map)
    show "distinct (map g ?L)" by (auto simp: distinct_map inj_on_def g)
    show "distinct es" by fact
    show "set (map g ?L) = set es" by (auto simp: image_image g)
  qed
  then have "sort_key ev_Rev (map g ?L) = es"
    using injr srt(1) by (intro sort_key_inj_key_eq) (auto simp: image_image g inj_on_def, metis sorted_sort_key)
  then show ?thesis
    unfolding eventsLocked_def ensureOpenLocked_def assms(2) option.case sum.case scan prod.case
    by (subst event_scan_keys [OF dec]) (simp_all add: keys checkIteratorLocked_def sortEvents_def)
qed

end
