(* ===== verification/LinDBProps.thy ===== *)
theory LinDBProps
  imports LinDBSpec
begin

text \<open>
  The Lin-DB backend against the state it stands for: what every read of an open backend returns, what every write
  makes of the state, and a map with a small codec as a library that has the laws.
\<close>

section \<open>Reads\<close>

lemma snapshot_data_eq:
  assumes "\<And>k. getRevisionsLocked ld b k = Inr (data k)"
  shows "snapshot_data ld b acc ks = Inr (\<lambda>k. if k \<in> set ks \<and> data k \<noteq> None then data k else acc k)"
  using assms by (induction ks arbitrary: acc) (auto simp: fun_eq_iff split: option.splits)

lemma holds_parts:
  assumes "holds_state ld m st"
  shows "meta_at m metaCurrentRev (bs_CurrentRev st)" "meta_at m metaCompactRev (bs_CompactRev st)"
    "data_at ld m (bs_Data st)" "events_at ld m (bs_Events st)" "events_ok (bs_Events st)"
    "\<forall>k vs. bs_Data st k = Some vs \<longrightarrow> revisions_ok k vs" "i64 (bs_CurrentRev st) = bs_CurrentRev st"
    "i64 (bs_CompactRev st) = bs_CompactRev st" "state_ok st" "ordered_state st"
  using assms by (auto simp: holds_state_def ordered_state_def)

lemma snapshot_held:
  assumes "lindb_laws ld view" and "lb_db b = Some d" and "holds_state ld (view d) st"
  shows "LinDB_SnapshotState ld b = Inr st"
proof -
  note h = holds_parts [OF assms(3)]
  note laws = assms(1,2)
  have revs: "getRevisionsLocked ld b k = Inr (bs_Data st k)" for k
    by (rule getRevisions_held [OF laws h(3,6)])
  have "finite (dom (bs_Data st))" using h(9) by (simp add: state_ok_def)
  then have "(\<lambda>k. if k \<in> set (sorted_list_of_set {k \<in> dom (bs_Data st). [] \<le> k}) \<and> bs_Data st k \<noteq> None
      then bs_Data st k else None) = bs_Data st"
    by (auto simp: fun_eq_iff) (metis not_None_eq)
  then show ?thesis
    unfolding LinDB_SnapshotState_def
    by (simp add: rangeKeys_held [OF laws h(3)] snapshot_data_eq [OF revs] events_held [OF laws h(4,5)]
        getInt64_held [OF laws h(1,7)] getInt64_held [OF laws h(2,8)])
qed

section \<open>Writes\<close>

lemma laws_put:
  assumes "lindb_laws ld view" and "lb_db b = Some d"
  obtains b' d' where "putRawLocked ld b k v = Inr b'" "lb_db b' = Some d'" "view d' = (view d)(k \<mapsto> v)"
proof -
  obtain d' where "ld_put ld d k v = Inr d'" "view d' = (view d)(k \<mapsto> v)"
    using assms(1) unfolding lindb_laws_def by blast
  with assms(2) show thesis by (intro that [of "b\<lparr>lb_db := Some d'\<rparr>" d']) (simp_all add: putRawLocked_def ensureOpenLocked_def or_panic_def)
qed

lemma laws_delete:
  assumes "lindb_laws ld view" and "lb_db b = Some d"
  obtains b' d' where "deleteRawLocked ld b k = Inr b'" "lb_db b' = Some d'" "view d' = (view d)(k := None)"
proof -
  obtain d' where "ld_delete ld d k = Inr d'" "view d' = (view d)(k := None)"
    using assms(1) unfolding lindb_laws_def by blast
  with assms(2) show thesis by (intro that [of "b\<lparr>lb_db := Some d'\<rparr>" d']) (simp_all add: deleteRawLocked_def ensureOpenLocked_def or_panic_def)
qed

lemma laws_batch:
  assumes "lindb_laws ld view" and "lb_db b = Some d"
  obtains b' d' where "writeBatchLocked ld b ops = Inr b'" "lb_db b' = Some d'" "view d' = fold apply_op ops (view d)"
proof -
  obtain d' where "ld_write ld d ops = Inr d'" "view d' = fold apply_op ops (view d)"
    using assms(1) unfolding lindb_laws_def by blast
  with assms(2) show thesis by (intro that [of "b\<lparr>lb_db := Some d'\<rparr>" d']) (simp_all add: writeBatchLocked_def ensureOpenLocked_def or_panic_def)
qed

text \<open>An operation that succeeds and leaves a backend of the given state.\<close>

definition stores :: "'d LinDB \<Rightarrow> ('d \<Rightarrow> bytes \<rightharpoonup> bytes) \<Rightarrow> 'd LinDBBackend outcome \<Rightarrow> BackendState \<Rightarrow> bool" where
  "stores ld view r st \<longleftrightarrow> (\<exists>b. r = Inr b \<and> backs ld view b st)"

text \<open>What a write of one key leaves of the other parts.\<close>

lemma meta_at_other [simp]: "k \<noteq> key \<Longrightarrow> meta_at (m(k := v)) key n = meta_at m key n"
  by (simp add: meta_at_def)

lemma data_at_other: "\<not> HasPrefix k dataPrefix \<Longrightarrow> data_at ld m data \<Longrightarrow> data_at ld (m(k := v)) data"
  by (auto simp: data_at_def)

lemma events_at_other: "\<not> HasPrefix k eventPrefix \<Longrightarrow> events_at ld m es \<Longrightarrow> events_at ld (m(k := v)) es"
  by (auto simp: events_at_def)

lemma meta_at_set [simp]: "meta_at (m(key \<mapsto> encodeInt64 n)) key n"
  by (simp add: meta_at_def)

lemma data_at_set:
  "data_at ld m data \<Longrightarrow> data_at ld (m(dataStorageKey k := map_option (entry_bytes ld k) v)) (data(k := v))"
  by (auto simp: data_at_def split: if_splits)

lemma events_at_append:
  assumes "events_at ld m es" and "events_ok (es @ [ev])"
  shows "events_at ld (m(eventStorageKey ev \<mapsto> event_bytes ld ev)) (es @ [ev])"
proof -
  have "distinct (map ev_Rev (es @ [ev]))" using strict_sorted assms(2) unfolding events_ok_def by blast
  then have "eventStorageKey ev \<notin> fst ` set (event_pairs ld es)" by (auto simp: event_pairs_def)
  then have "map_of (event_pairs ld es) (eventStorageKey ev) = None" by (simp add: map_of_eq_None_iff)
  with assms(1) show ?thesis by (auto simp: events_at_def event_pairs_def map_add_def split: option.splits)
qed

text \<open>Batches: deletions restrict the map, insertions override it.\<close>

lemma apply_op_simps [simp]: "apply_op (BatchPut k v) m = m(k \<mapsto> v)" "apply_op (BatchDelete k) m = m(k := None)"
  by (simp_all add: apply_op_def)

lemma fold_deletes: "fold apply_op (map BatchDelete ks) m = m |` (- set ks)"
  by (induction ks arbitrary: m) (auto simp: restrict_map_def fun_eq_iff)

lemma fold_puts:
  "distinct (map fst ps) \<Longrightarrow> fold apply_op (map (\<lambda>(k, v). BatchPut k v) ps) m = m ++ map_of ps"
proof (induction ps arbitrary: m)
  case (Cons p ps)
  obtain k v where p: "p = (k, v)" by (cases p)
  with Cons.prems have "map_of ps k = None" by (simp add: map_of_eq_None_iff)
  moreover have "fold apply_op (map (\<lambda>(k, v). BatchPut k v) ps) (m(k \<mapsto> v)) = m(k \<mapsto> v) ++ map_of ps"
    using Cons by simp
  ultimately show ?case by (auto simp: p map_add_def fun_eq_iff split: option.splits)
qed simp

lemma deletePrefix_eq:
  assumes "lindb_laws ld view" and "lb_db b = Some d" and "p \<noteq> []" and "last p < 255"
  shows "deletePrefixLocked ld b batch p =
    Inr (batch @ map BatchDelete (sorted_list_of_set {s \<in> dom (view d). HasPrefix s p}))"
proof -
  note fin = laws_scan(1) [OF assms(1), of d]
  have "{s \<in> dom (view d). HasPrefix s p \<and> p \<le> s} = {s \<in> dom (view d). HasPrefix s p}" using prefix_le by blast
  with scan_prefix [OF fin assms(3,4) order_refl] show ?thesis
    by (simp add: deletePrefixLocked_def ensureOpenLocked_def assms(2) laws_scan(2) [OF assms(1)]
        takeWhile_map comp_def checkIteratorLocked_def)
qed

lemma batch_events_eq:
  assumes "lindb_laws ld view" and "\<forall>e \<in> set es. event_ok e"
  shows "batch_events ld batch es = Inr (batch @ map (\<lambda>(k, v). BatchPut k v) (event_pairs ld es))"
  using assms(2) by (induction es arbitrary: batch) (simp_all add: event_pairs_def laws_event(1) [OF assms(1)] or_panic_def)

lemma batchPutEvents_eq:
  assumes "lindb_laws ld view" and "events_ok es"
  shows "batchPutEventsLocked ld batch es = Inr (batch @ map (\<lambda>(k, v). BatchPut k v) (event_pairs ld es))"
proof -
  have "sort_key ev_Rev es = es" using strict_sorted assms(2) unfolding events_ok_def by blast
  moreover have "\<forall>e \<in> set es. event_ok e" using assms(2) by (simp add: events_ok_def)
  ultimately show ?thesis by (simp add: batchPutEventsLocked_def sortEvents_def batch_events_eq [OF assms(1)])
qed

definition data_pairs :: "'d LinDB \<Rightarrow> (gostring \<rightharpoonup> ValueRevision list) \<Rightarrow> gostring list \<Rightarrow> (bytes \<times> bytes) list" where
  "data_pairs ld data ks = map (\<lambda>k. (dataStorageKey k, entry_bytes ld k (the (data k)))) ks"

lemma batch_data_eq:
  assumes "lindb_laws ld view" and "set ks \<subseteq> dom data" and "[] \<notin> ran data"
    and "\<forall>k vs. data k = Some vs \<longrightarrow> revisions_ok k vs"
  shows "batch_data ld data batch ks = Inr (batch @ map (\<lambda>(k, v). BatchPut k v) (data_pairs ld data ks))"
  using assms(2)
proof (induction ks arbitrary: batch)
  case (Cons k ks)
  then obtain vs where vs: "data k = Some vs" by auto
  with assms(3) have "vs \<noteq> []" by (auto simp: ran_def)
  with Cons vs laws_entry(1) [OF assms(1)] assms(4) show ?case by (simp add: data_pairs_def or_panic_def)
qed (simp add: data_pairs_def)

text \<open>What the pairs of a batch say about a key.\<close>

lemma event_pairs_None [simp]: "\<not> HasPrefix s eventPrefix \<Longrightarrow> map_of (event_pairs ld es) s = None"
  by (auto simp: map_of_eq_None_iff event_pairs_def)

lemma event_pairs_distinct: "events_ok es \<Longrightarrow> distinct (map fst (event_pairs ld es))"
  using strict_sorted [of ev_Rev es] by (simp add: events_ok_def event_pairs_def comp_def distinct_map inj_on_def)

lemma data_pairs_None [simp]: "\<not> HasPrefix s dataPrefix \<Longrightarrow> map_of (data_pairs ld data ks) s = None"
  by (auto simp: map_of_eq_None_iff data_pairs_def)

lemma data_pairs_distinct: "distinct ks \<Longrightarrow> distinct (map fst (data_pairs ld data ks))"
  by (simp add: data_pairs_def comp_def distinct_map inj_on_def)

lemma data_pairs_range: "map_of (data_pairs ld data ks) s = Some v \<Longrightarrow> s \<in> range dataStorageKey"
  by (auto simp: data_pairs_def dest!: map_of_SomeD)

lemma data_pairs_at:
  assumes "distinct ks" and "set ks = dom data"
  shows "map_of (data_pairs ld data ks) (dataStorageKey k) = map_option (entry_bytes ld k) (data k)"
proof (cases "data k")
  case None
  with assms(2) show ?thesis by (auto simp: map_of_eq_None_iff data_pairs_def)
next
  case (Some vs)
  with assms have "(dataStorageKey k, entry_bytes ld k vs) \<in> set (data_pairs ld data ks)"
    by (auto simp: data_pairs_def intro!: image_eqI [of _ _ k])
  with Some map_of_is_SomeI [OF data_pairs_distinct [OF assms(1)]] show ?thesis by simp
qed

text \<open>The map after the batch of \<^verbatim>\<open>SetEvents\<close> and after that of \<^verbatim>\<open>ReplaceState\<close>.\<close>

lemma cleared_events:
  assumes "finite (dom m)"
  shows "events_at ld (m |` (- set (sorted_list_of_set {s \<in> dom m. HasPrefix s eventPrefix})) ++ map_of (event_pairs ld es)) es"
  using assms by (auto simp: events_at_def restrict_map_def map_add_def split: option.splits)

lemma outside_events:
  assumes "finite (dom m)" and "\<not> HasPrefix s eventPrefix"
  shows "(m |` (- set (sorted_list_of_set {s \<in> dom m. HasPrefix s eventPrefix})) ++ map_of (event_pairs ld es)) s = m s"
  using assms by (auto simp: restrict_map_def map_add_def)

lemma prefixes_apart: "HasPrefix s dataPrefix \<Longrightarrow> \<not> HasPrefix s eventPrefix"
  by (cases s) (simp_all add: HasPrefix_take dataPrefix_def eventPrefix_def str_def)

lemma data_at_cong:
  assumes "\<And>s. \<not> HasPrefix s eventPrefix \<Longrightarrow> m' s = m s" and "data_at ld m data"
  shows "data_at ld m' data"
  unfolding data_at_def
proof (intro conjI ballI impI allI)
  show "m' (dataStorageKey k) = map_option (entry_bytes ld k) (data k)" for k
    using assms by (simp add: data_at_def)
  fix s assume s: "s \<in> dom m'" "HasPrefix s dataPrefix"
  then have "s \<in> dom m" using assms(1) [OF prefixes_apart [OF s(2)]] by (simp add: dom_def)
  with s(2) assms(2) show "s \<in> range dataStorageKey" unfolding data_at_def by blast
qed

lemma set_events_stores:
  assumes "lindb_laws ld view" and "backs ld view b st" and "ordered_state (st\<lparr>bs_Events := es\<rparr>)"
  shows "stores ld view (LinDB_SetEvents ld b es) (st\<lparr>bs_Events := es\<rparr>)"
proof -
  obtain d where d: "lb_db b = Some d" "holds_state ld (view d) st" using assms(2) by (auto simp: backs_def)
  note h = holds_parts [OF d(2)] and fin = laws_scan(1) [OF assms(1), of d]
  have es: "events_ok es" using assms(3) by (simp add: ordered_state_def)
  let ?m = "view d |` (- set (sorted_list_of_set {s \<in> dom (view d). HasPrefix s eventPrefix})) ++ map_of (event_pairs ld es)"
  let ?ops = "map BatchDelete (sorted_list_of_set {s \<in> dom (view d). HasPrefix s eventPrefix}) @
    map (\<lambda>(k, v). BatchPut k v) (event_pairs ld es)"
  obtain b' d' where b': "writeBatchLocked ld b ?ops = Inr b'" "lb_db b' = Some d'" "view d' = fold apply_op ?ops (view d)"
    by (rule laws_batch [OF assms(1) d(1)])
  have eq: "view d' = ?m" unfolding b'(3) fold_append o_apply fold_deletes fold_puts [OF event_pairs_distinct [OF es]] ..
  note out = outside_events [OF fin, of _ ld es]
  have "holds_state ld ?m (st\<lparr>bs_Events := es\<rparr>)"
    unfolding holds_state_def
    using assms(3) h(1,2) cleared_events [OF fin] data_at_cong [OF out h(3)] by (simp add: meta_at_def out)
  then show ?thesis
    using b'(1,2) eq unfolding stores_def backs_def LinDB_SetEvents_def
    by (auto simp: deletePrefix_eq [OF assms(1) d(1) event_prefix] batchPutEvents_eq [OF assms(1) es])
qed

lemma replaced_state:
  assumes "finite (dom m)" and "ordered_state st" and "ks = sorted_list_of_set (dom (bs_Data st))"
    and "D = set (sorted_list_of_set {s \<in> dom m. HasPrefix s dataPrefix})"
    and "E = set (sorted_list_of_set {s \<in> dom m. HasPrefix s eventPrefix})"
    and "m' = ((m |` (- D)) |` (- E) ++ map_of (data_pairs ld (bs_Data st) ks) ++ map_of (event_pairs ld (bs_Events st)))
      (metaCurrentRev \<mapsto> encodeInt64 (bs_CurrentRev st), metaCompactRev \<mapsto> encodeInt64 (bs_CompactRev st))"
  shows "holds_state ld m' st"
proof -
  let ?n = "(m |` (- D)) |` (- E) ++ map_of (data_pairs ld (bs_Data st) ks) ++ map_of (event_pairs ld (bs_Events st))"
  have ks: "distinct ks" "set ks = dom (bs_Data st)"
    using assms(2) by (simp_all add: assms(3) ordered_state_def state_ok_def)
  have gone: "(m |` (- D)) |` (- E) = m |` {s. \<not> HasPrefix s dataPrefix \<and> \<not> HasPrefix s eventPrefix}"
    using assms(1) by (auto simp: assms(4,5) restrict_map_def fun_eq_iff)
  have "data_at ld ?n (bs_Data st)"
    unfolding data_at_def gone using data_pairs_range [of ld "bs_Data st" ks]
    by (auto simp: data_pairs_at [OF ks] map_add_def restrict_map_def prefixes_apart split: option.splits)
  moreover have "events_at ld ?n (bs_Events st)"
    unfolding events_at_def gone using data_pairs_range [of ld "bs_Data st" ks]
    by (fastforce simp: map_add_def restrict_map_def split: option.splits)
  ultimately show ?thesis
    unfolding holds_state_def assms(6) using assms(2)
    by (simp add: data_at_other events_at_other)
qed

lemma replace_stores:
  assumes "lindb_laws ld view" and "backs ld view b st0" and "ordered_state st"
  shows "stores ld view (LinDB_ReplaceState ld b st) st"
proof -
  obtain d where d: "lb_db b = Some d" using assms(2) by (auto simp: backs_def)
  note fin = laws_scan(1) [OF assms(1), of d] and del = deletePrefix_eq [OF assms(1) d]
  define ks D E where "ks = sorted_list_of_set (dom (bs_Data st))"
    and "D = sorted_list_of_set {s \<in> dom (view d). HasPrefix s dataPrefix}"
    and "E = sorted_list_of_set {s \<in> dom (view d). HasPrefix s eventPrefix}"
  have st: "finite (dom (bs_Data st))" "[] \<notin> ran (bs_Data st)" "events_ok (bs_Events st)"
    "\<forall>k vs. bs_Data st k = Some vs \<longrightarrow> revisions_ok k vs"
    using assms(3) by (auto simp: ordered_state_def state_ok_def)
  have ks: "distinct ks" "set ks \<subseteq> dom (bs_Data st)" using st(1) by (simp_all add: ks_def)
  let ?ops = "((map BatchDelete D @ map BatchDelete E) @ map (\<lambda>(k, v). BatchPut k v) (data_pairs ld (bs_Data st) ks)) @
    map (\<lambda>(k, v). BatchPut k v) (event_pairs ld (bs_Events st))"
  let ?all = "?ops @ [BatchPut metaCurrentRev (encodeInt64 (bs_CurrentRev st)),
    BatchPut metaCompactRev (encodeInt64 (bs_CompactRev st))]"
  obtain b' d' where b': "writeBatchLocked ld b ?all = Inr b'" "lb_db b' = Some d'" "view d' = fold apply_op ?all (view d)"
    by (rule laws_batch [OF assms(1) d])
  have "LinDB_ReplaceState ld b st = Inr b'"
    unfolding LinDB_ReplaceState_def del [OF data_prefix] del [OF event_prefix] sum.case append_Nil
      D_def [symmetric] E_def [symmetric] ks_def [symmetric] batch_data_eq [OF assms(1) ks(2) st(2,4)]
      batchPutEvents_eq [OF assms(1) st(3)] b'(1) ..
  moreover have "holds_state ld (view d') st"
    by (rule replaced_state [OF fin assms(3) ks_def refl refl])
       (simp add: b'(3) fold_append fold_deletes fold_puts [OF event_pairs_distinct [OF st(3)]]
          fold_puts [OF data_pairs_distinct [OF ks(1)]] D_def E_def)
  ultimately show ?thesis using b'(2) by (auto simp: stores_def backs_def)
qed

text \<open>The writes of a single key.\<close>

lemma put_stores:
  assumes "lindb_laws ld view" and "lb_db b = Some d" and "holds_state ld ((view d)(k \<mapsto> v)) st"
  shows "stores ld view (putRawLocked ld b k v) st"
  using laws_put [OF assms(1,2), of k v] assms(3) unfolding stores_def backs_def by metis

lemma delete_stores:
  assumes "lindb_laws ld view" and "lb_db b = Some d" and "holds_state ld ((view d)(k := None)) st"
  shows "stores ld view (deleteRawLocked ld b k) st"
  using laws_delete [OF assms(1,2), of k] assms(3) unfolding stores_def backs_def by metis

lemma set_revisions_stores:
  assumes "lindb_laws ld view" and "backs ld view b st"
    and "st' = st\<lparr>bs_Data := (bs_Data st)(key := if vs = [] then None else Some vs)\<rparr>" and "ordered_state st'"
  shows "stores ld view (LinDB_SetRevisions ld b key vs) st'"
proof -
  obtain d where d: "lb_db b = Some d" "holds_state ld (view d) st" using assms(2) by (auto simp: backs_def)
  note h = holds_parts [OF d(2)]
  let ?v = "if vs = [] then None else Some vs"
  have hs: "holds_state ld ((view d)(dataStorageKey key := map_option (entry_bytes ld key) ?v)) st'"
    unfolding holds_state_def using assms(4) h(1,2) data_at_set [OF h(3), of key ?v] events_at_other [OF _ h(4)]
    by (simp add: assms(3))
  show ?thesis
  proof (cases "vs = []")
    case True
    with hs delete_stores [OF assms(1) d(1)] show ?thesis by (simp add: LinDB_SetRevisions_def)
  next
    case False
    then have "bs_Data st' key = Some vs" by (simp add: assms(3))
    with assms(4) have "revisions_ok key vs" unfolding ordered_state_def by blast
    with False hs put_stores [OF assms(1) d(1)] laws_entry(1) [OF assms(1)] show ?thesis
      by (simp add: LinDB_SetRevisions_def or_panic_def)
  qed
qed

section \<open>A map as the library\<close>

text \<open>An association list with a length-prefixed encoding, as a library that has the laws.\<close>

definition enc_version :: "pb_ValueRevision option \<Rightarrow> bytes" where
  "enc_version v =
     (case v of None \<Rightarrow> [] | Some x \<Rightarrow>
      (case pvr_Rev x of None \<Rightarrow> [] | Some rv \<Rightarrow>
         enc_int (Main rv) @ enc_int (Sub rv) @ enc_bytes (pvr_Value x) @ enc_int (if pvr_Deleted x then 1 else 0)))"

definition dec_version :: "bytes \<Rightarrow> (pb_ValueRevision option \<times> bytes) option" where
  "dec_version bs =
     (case dec_int bs of None \<Rightarrow> None | Some (mn, r1) \<Rightarrow>
      (case dec_int r1 of None \<Rightarrow> None | Some (sb, r2) \<Rightarrow>
       (case dec_bytes r2 of None \<Rightarrow> None | Some (x, r3) \<Rightarrow>
        (case dec_int r3 of None \<Rightarrow> None | Some (dl, r4) \<Rightarrow>
           Some (Some \<lparr>pvr_Rev = Some (Revision mn sb), pvr_Value = x, pvr_Deleted = (dl = 1)\<rparr>, r4)))))"

definition list_UnmarshalKeyEntry :: "bytes \<Rightarrow> go_error + pb_KeyEntry" where
  "list_UnmarshalKeyEntry bs =
     (case dec_bytes bs of
        Some (k, r) \<Rightarrow>
          (case dec_list dec_version r of
             Some (vs, _) \<Rightarrow> Inr \<lparr>pke_Key = k, pke_Revisions = vs\<rparr>
           | None \<Rightarrow> Inl (ErrorString []))
      | None \<Rightarrow> Inl (ErrorString []))"

definition list_UnmarshalEvent :: "bytes \<Rightarrow> go_error + pb_MvccEvent" where
  "list_UnmarshalEvent bs =
     (case dec_int bs of None \<Rightarrow> Inl (ErrorString []) | Some (t, r1) \<Rightarrow>
      (case dec_bytes r1 of None \<Rightarrow> Inl (ErrorString []) | Some (k, r2) \<Rightarrow>
       (case dec_bytes r2 of None \<Rightarrow> Inl (ErrorString []) | Some (v, r3) \<Rightarrow>
        (case dec_int r3 of None \<Rightarrow> Inl (ErrorString []) | Some (mn, r4) \<Rightarrow>
         (case dec_int r4 of None \<Rightarrow> Inl (ErrorString []) | Some (sb, _) \<Rightarrow>
            Inr \<lparr>pev_Type = t, pev_Key = k, pev_Value = v, pev_Rev = Some (Revision mn sb)\<rparr>)))))"

fun list_write :: "(bytes \<times> bytes) list \<Rightarrow> batch_op list \<Rightarrow> (bytes \<times> bytes) list" where
  "list_write d [] = d"
| "list_write d (BatchPut k v # ops) = list_write ((k, v) # d) ops"
| "list_write d (BatchDelete k # ops) = list_write (filter (\<lambda>p. fst p \<noteq> k) d) ops"

definition list_db :: "(bytes \<times> bytes) list LinDB" where
  "list_db =
     \<lparr>ld_mkdir = (\<lambda>path. None), ld_open = (\<lambda>path. Inr (Some [])),
      ld_get = (\<lambda>d k. Inr (map_of d k)), ld_put = (\<lambda>d k v. Inr (list_write d [BatchPut k v])),
      ld_delete = (\<lambda>d k. Inr (list_write d [BatchDelete k])), ld_write = (\<lambda>d ops. Inr (list_write d ops)),
      ld_scan = (\<lambda>d s. (map (\<lambda>k. (k, the (map_of d k))) (sorted_list_of_set {k \<in> fst ` set d. s \<le> k}), None)),
      ld_MarshalKeyEntry = (\<lambda>m. Inr (enc_bytes (pke_Key m) @ enc_list enc_version (pke_Revisions m))),
      ld_UnmarshalKeyEntry = list_UnmarshalKeyEntry,
      ld_MarshalEvent = (\<lambda>m. case pev_Rev m of
         None \<Rightarrow> Inl (ErrorString [])
       | Some rv \<Rightarrow> Inr (enc_int (pev_Type m) @ enc_bytes (pev_Key m) @ enc_bytes (pev_Value m) @
           enc_int (Main rv) @ enc_int (Sub rv))),
      ld_UnmarshalEvent = list_UnmarshalEvent\<rparr>"

lemma map_of_filter_key: "map_of (filter (\<lambda>p. fst p \<noteq> k) d) = (map_of d)(k := None)"
  by (induction d) (auto simp: fun_eq_iff)

lemma list_write_view: "map_of (list_write d ops) = fold apply_op ops (map_of d)"
  by (induction d ops rule: list_write.induct) (simp_all add: map_of_filter_key fun_upd_def)

lemma dec_enc_version: "dec_version (enc_version (Some (snapshot_version v)) @ r) = Some (Some (snapshot_version v), r)"
  by (simp add: enc_version_def dec_version_def snapshot_version_def)

lemma list_entry: "list_UnmarshalKeyEntry (enc_bytes k @ enc_list enc_version (pke_Revisions (key_entry k vs))) = Inr (key_entry k vs)"
proof -
  have "dec_list dec_version (enc_list enc_version (pke_Revisions (key_entry k vs)) @ []) = Some (pke_Revisions (key_entry k vs), [])"
    by (rule dec_enc_list) (auto simp: key_entry_def dec_enc_version)
  then show ?thesis by (simp add: list_UnmarshalKeyEntry_def) (simp add: key_entry_def)
qed

lemma dec_int_last [simp]: "dec_int (enc_int i) = Some (i, [])"
  using dec_enc_int [of i "[]"] by simp

lemma list_db_laws: "lindb_laws list_db map_of"
  unfolding lindb_laws_def
proof (intro conjI allI impI)
  show "\<exists>e. ld_MarshalKeyEntry list_db (key_entry k vs) = Inr e \<and> ld_UnmarshalKeyEntry list_db e = Inr (key_entry k vs)" for k vs
    using list_entry [of k vs] by (simp add: list_db_def) (simp add: key_entry_def)
  show "\<exists>e. ld_MarshalEvent list_db (snapshot_event ev) = Inr e \<and> ld_UnmarshalEvent list_db e = Inr (snapshot_event ev)" for ev
    by (simp add: list_db_def snapshot_event_def list_UnmarshalEvent_def)
qed (simp_all add: list_db_def list_write_view finite_dom_map_of dom_map_of_conv_image_fst map_of_filter_key)

text \<open>A put and a deletion of one key, with their events.\<close>

definition demo_contents :: BackendState where
  "demo_contents =
     \<lparr>bs_Data = [str ''k'' \<mapsto> [\<lparr>vr_Rev = Revision 1 0, vr_Value = [7], vr_Deleted = False\<rparr>,
                               \<lparr>vr_Rev = Revision 2 0, vr_Value = [], vr_Deleted = True\<rparr>]],
      bs_Events = [\<lparr>ev_Type = EventPut, ev_Key = str ''k'', ev_Value = [7], ev_Rev = Revision 1 0\<rparr>,
                   \<lparr>ev_Type = EventDelete, ev_Key = str ''k'', ev_Value = [], ev_Rev = Revision 2 0\<rparr>],
      bs_CurrentRev = 2, bs_CompactRev = 0\<rparr>"

lemma demo_contents_ordered: "ordered_state demo_contents"
  by (simp add: ordered_state_def demo_contents_def state_ok_def revisions_ok_def events_ok_def event_ok_def
      int64_rev_def less_Revision_def Revision_Less_def str_def ran_def i64_def u8_def)

lemma empty_backs: "backs list_db map_of \<lparr>lb_db = Some []\<rparr> \<lparr>bs_Data = Map.empty, bs_Events = [], bs_CurrentRev = 0, bs_CompactRev = 0\<rparr>"
  by (simp add: backs_def holds_state_def ordered_state_def state_ok_def events_ok_def meta_at_def data_at_def
      events_at_def event_pairs_def i64_def)

section \<open>Reads and writes of an open backend\<close>

text \<open>
  C15: every read of an open Lin-DB backend returns, without a panic, what the state in its
  database has: both counters, the versions of a key, the keys of a half-open interval in
  order, the events in the order of their revisions, and the whole state as a snapshot.
\<close>
theorem lindb_reads_state:
  assumes "lindb_laws ld view" and "backs ld view b st"
  shows "LinDB_CurrentRev ld b = Inr (bs_CurrentRev st) \<and> LinDB_CompactRev ld b = Inr (bs_CompactRev st) \<and>
    LinDB_GetRevisions ld b key = Inr (bs_Data st key) \<and>
    LinDB_RangeKeys ld b startKey endKey =
      Inr (sorted_list_of_set {k \<in> dom (bs_Data st). startKey \<le> k \<and> (endKey = [] \<or> k < endKey)}) \<and>
    LinDB_Events ld b = Inr (bs_Events st) \<and> LinDB_SnapshotState ld b = Inr st"
proof -
  obtain d where d: "lb_db b = Some d" "holds_state ld (view d) st" using assms(2) by (auto simp: backs_def)
  note h = holds_parts [OF d(2)] and laws = assms(1) d(1)
  show ?thesis
    unfolding LinDB_CurrentRev_def LinDB_CompactRev_def LinDB_GetRevisions_def LinDB_RangeKeys_def LinDB_Events_def
    by (intro conjI getInt64_held [OF laws h(1,7)] getInt64_held [OF laws h(2,8)] getRevisions_held [OF laws h(3,6)]
        rangeKeys_held [OF laws h(3)] events_held [OF laws h(4,5)] snapshot_held [OF laws d(2)])
qed

theorem lindb_reads_state_witness:
  "\<exists>b. lb_db b \<noteq> Some [] \<and> LinDB_SnapshotState list_db b = Inr demo_contents \<and>
    LinDB_RangeKeys list_db b [] [] = Inr [str ''k'']"
proof -
  obtain b where b: "backs list_db map_of b demo_contents"
    using replace_stores [OF list_db_laws empty_backs demo_contents_ordered] by (auto simp: stores_def)
  have "data_at list_db Map.empty (bs_Data demo_contents) = False" by (simp add: data_at_def demo_contents_def)
  then have "lb_db b \<noteq> Some []" using b by (auto simp: backs_def holds_state_def)
  with lindb_reads_state [OF list_db_laws b, of "[]" "[]" "[]"] show ?thesis
    by (intro exI [of _ b]) (simp add: demo_contents_def)
qed

text \<open>
  C14: every write of an open Lin-DB backend succeeds without a panic and leaves a database that
  holds exactly the state the memory backend would have, whenever that state is ordered by
  revision: both counters, the versions of a key with their removal, the events replaced as a whole and
  by one, and the replacement of everything by a restored snapshot, whatever was there before.
\<close>
theorem lindb_writes_state:
  assumes "lindb_laws ld view" and "backs ld view b st"
  shows "(ordered_state (st\<lparr>bs_CurrentRev := n\<rparr>) \<longrightarrow> stores ld view (LinDB_SetCurrentRev ld b n) (st\<lparr>bs_CurrentRev := n\<rparr>)) \<and>
    (ordered_state (st\<lparr>bs_CompactRev := n\<rparr>) \<longrightarrow> stores ld view (LinDB_SetCompactRev ld b n) (st\<lparr>bs_CompactRev := n\<rparr>)) \<and>
    (let st' = st\<lparr>bs_Data := (bs_Data st)(key := if vs = [] then None else Some vs)\<rparr>
     in ordered_state st' \<longrightarrow> stores ld view (LinDB_SetRevisions ld b key vs) st') \<and>
    (ordered_state (st\<lparr>bs_Events := es\<rparr>) \<longrightarrow> stores ld view (LinDB_SetEvents ld b es) (st\<lparr>bs_Events := es\<rparr>)) \<and>
    (let st' = st\<lparr>bs_Events := bs_Events st @ [ev]\<rparr>
     in ordered_state st' \<longrightarrow> stores ld view (LinDB_AppendEvent ld b ev) st') \<and>
    (ordered_state new \<longrightarrow> stores ld view (LinDB_ReplaceState ld b new) new)"
proof -
  obtain d where d: "lb_db b = Some d" "holds_state ld (view d) st" using assms(2) by (auto simp: backs_def)
  note h = holds_parts [OF d(2)] and put = put_stores [OF assms(1) d(1)]
  have current: "stores ld view (LinDB_SetCurrentRev ld b n) (st\<lparr>bs_CurrentRev := n\<rparr>)"
    if "ordered_state (st\<lparr>bs_CurrentRev := n\<rparr>)"
    unfolding LinDB_SetCurrentRev_def
    by (rule put) (use that h in \<open>simp add: holds_state_def data_at_other events_at_other\<close>)
  have compact: "stores ld view (LinDB_SetCompactRev ld b n) (st\<lparr>bs_CompactRev := n\<rparr>)"
    if "ordered_state (st\<lparr>bs_CompactRev := n\<rparr>)"
    unfolding LinDB_SetCompactRev_def
    by (rule put) (use that h in \<open>simp add: holds_state_def data_at_other events_at_other\<close>)
  have append: "stores ld view (LinDB_AppendEvent ld b ev) (st\<lparr>bs_Events := bs_Events st @ [ev]\<rparr>)"
    if o: "ordered_state (st\<lparr>bs_Events := bs_Events st @ [ev]\<rparr>)"
  proof -
    have ok: "events_ok (bs_Events st @ [ev])" using o by (simp add: ordered_state_def)
    then have "event_ok ev" by (simp add: events_ok_def)
    note enc = laws_event(1) [OF assms(1) this]
    from events_at_append [OF h(4) ok] o h(1,2) data_at_other [OF _ h(3)]
    have "holds_state ld ((view d)(eventStorageKey ev \<mapsto> event_bytes ld ev)) (st\<lparr>bs_Events := bs_Events st @ [ev]\<rparr>)"
      by (simp add: holds_state_def)
    then show ?thesis unfolding LinDB_AppendEvent_def using put by (simp add: enc or_panic_def)
  qed
  show ?thesis
    unfolding Let_def
    using current compact append set_revisions_stores [OF assms refl] set_events_stores [OF assms] replace_stores [OF assms]
    by blast
qed

theorem lindb_writes_state_witness:
  "stores list_db map_of (LinDB_ReplaceState list_db \<lparr>lb_db = Some []\<rparr> demo_contents) demo_contents"
  using lindb_writes_state [OF list_db_laws empty_backs] demo_contents_ordered by blast

end
