(* ===== verification/Spec2Isabelle.thy ===== *)
theory Spec2Isabelle
  imports RaftProps2 ServerRestart ClientProps ClientWatch ClusterNode LinDBProps
begin

text \<open>
  \<^bold>\<open>Lin-KV: a replicated multi-version key-value store\<close>

  A Lin-KV node is made of four layers. A multi-version store (\<^verbatim>\<open>src/internal/storage/mvcc\<close>)
  gives every change a revision and keeps leases and watchers. A raft node
  (\<^verbatim>\<open>src/internal/raft\<close>) replicates a log of commands and keeps its hard state on disk through
  a persister (\<^verbatim>\<open>src/internal/storage/persister\<close>, \<^verbatim>\<open>wal\<close>, \<^verbatim>\<open>snapshot\<close>). The server
  (\<^verbatim>\<open>src/internal/server/kvserver\<close>) puts client requests into the log, executes committed
  commands on the store and answers the requests that wait for them. Nodes talk over gRPC
  (\<^verbatim>\<open>src/internal/transport/grpc\<close>), a node is put together by
  \<^verbatim>\<open>src/internal/server/cluster\<close>, and \<^verbatim>\<open>src/internal/client\<close> is the library of the clients.

  \<^bold>\<open>Conventions\<close>

  A Go string or byte slice is a list of 8 bit words, an \<^verbatim>\<open>int\<close> or \<^verbatim>\<open>int64\<close> an \<^typ>\<open>int\<close> with the
  wrap-around written out where the code can reach it, a struct a record, a pointer that may be
  nil an option, a Go map a partial function. An error is a value of \<open>go_error\<close>, a panic the
  left value of an \<open>outcome\<close>. Code under a lock is one definition; code that unlocks around a call
  or a channel is split there. Clocks, the iteration order of maps, the protobuf and JSON
  codecs, the operating system, gRPC and the Lin-DB library are arguments of the definitions.
  What is assumed of them is a hypothesis of the theorem: codecs decode what they encoded,
  an iteration order lists each key once, a stub delivers, the database is an ordered map.

  \<^bold>\<open>Theories and sources\<close>

  \<^item> \<open>Prelude\<close>: bytes, integers, errors, panics, \<^verbatim>\<open>sort.Search\<close>, shared list lemmas.
  \<^item> \<open>MvccTypes\<close>, \<open>MvccIndex\<close>, \<open>MemoryBackend\<close>: \<^verbatim>\<open>mvcc/type.go\<close>, \<^verbatim>\<open>revision.go\<close>, \<^verbatim>\<open>backend.go\<close>,
    \<^verbatim>\<open>index.go\<close>, \<^verbatim>\<open>memory_backend.go\<close>. The interface \<^verbatim>\<open>Backend\<close> is the locale \<open>mvcc_backend\<close>,
    interpreted for the in-memory backend.
  \<^item> \<open>Lease\<close>, \<open>KVStore\<close>, \<open>KVRange\<close>, \<open>KVCompact\<close>, \<open>KVTxn\<close>, \<open>KVWatch\<close>, \<open>KVSnapshot\<close>: \<^verbatim>\<open>lease.go\<close>,
    \<^verbatim>\<open>kv_store.go\<close>, \<^verbatim>\<open>range.go\<close>, \<^verbatim>\<open>compact.go\<close>, \<^verbatim>\<open>txn.go\<close>, \<^verbatim>\<open>watcher.go\<close>, over any backend with the
    contract. \<open>MvccSpec\<close> is the specification they refine, a history of changes and its replay;
    \<open>StoreRun\<close> is the store as a transition system.
  \<^item> \<open>LinDBBackend\<close>, \<open>LinDBSpec\<close>, \<open>LinDBProps\<close>: \<^verbatim>\<open>lindb_backend_cgo.go\<close> over a record of the C
    library's operations, the laws of an ordered map, and the state a database holds.
  \<^item> \<open>FileCodec\<close>, \<open>DiskPersister\<close>, \<open>PersistProps\<close>: \<^verbatim>\<open>wal\<close>, \<^verbatim>\<open>snapshot\<close>, \<^verbatim>\<open>persister\<close>, on a disk that
    separates what is written from what survives a crash. The interface \<^verbatim>\<open>Persister\<close> is a
    locale, interpreted for both persisters.
  \<^item> \<open>RaftTypes\<close>, \<open>Raft\<close>: \<^verbatim>\<open>raft/*.go\<close>, one definition per critical section. \<open>RaftInv\<close>, \<open>RaftSpec\<close>,
    \<open>RaftDurable\<close>: local invariants, what a handler computes, what is on disk when it answers
    (locale \<open>raft_store\<close>). \<open>RaftWire\<close>: a codec, and both persisters as interpretations.
    \<open>RaftNet\<close>, \<open>RaftElect\<close>, \<open>RaftLead\<close>: clusters with lost, repeated and reordered messages and
    restarts.
  \<^item> \<open>Command\<close>, \<open>KVApi\<close>: \<^verbatim>\<open>command/*.go\<close>, \<^verbatim>\<open>api/kv/model\<close> and the conversions of
    \<^verbatim>\<open>kvserver/convert_kv.go\<close> and \<^verbatim>\<open>client/convert_kv.go\<close>.
  \<^item> \<open>ServerTypes\<close>, \<open>KVServer\<close>, \<open>KVHandlers\<close>: \<^verbatim>\<open>kvserver/*.go\<close>. \<open>ServerSpec\<close>: the replicated machine
    and the contract \<open>command_executor\<close> of what executes commands, interpreted for the
    in-memory store. \<open>ServerApply\<close>: the apply loop refines the machine.
  \<^item> \<open>RaftTransport\<close>: \<^verbatim>\<open>transport/grpc\<close>. \<open>ClusterNode\<close>: \<^verbatim>\<open>cluster/cluster.go\<close>.
  \<^item> \<open>KVClient\<close>, \<open>ClientRetry\<close>, \<open>ClientWatch\<close>: \<^verbatim>\<open>client/*.go\<close>.

  \<^bold>\<open>What is shown\<close>

  \<^item> Store (\<open>MvccProps\<close> to \<open>MvccProps4\<close>): every sequence of operations only appends to the
    history, reads at a kept revision never change, transactions are atomic, compaction loses
    no readable version, leases, watchers and snapshots do what they say; and where they do
    not: a time to live that overflows, order of revocation, lost events.
  \<^item> Persistence: a crash during a save or a migration leaves one consistent pair.
  \<^item> Raft (\<open>RaftProps\<close>, \<open>RaftProps2\<close>): at most one leader per term, leaders only append, a
    restart finds its state, no handler panics, the commit rule; and runs that lose a committed
    entry or confirm a stale read.
  \<^item> Server (\<open>ServerProps\<close>, \<open>ServerProps2\<close>, \<open>ServerRestart\<close>): committed commands are executed
    once and in order, replicas agree, a waiting request gets its own result, snapshots carry
    the whole state; and runs in which a read hides a write, a request gets a foreign result,
    clocks make replicas differ, or a restart executes the log again.
  \<^item> Lin-DB backend: reads and writes act on the state as the in-memory backend does.
  \<^item> Transport and node: a delivered call is a call of the handler; a failed start leaves
    nothing open.
  \<^item> Client (\<open>ClientProps\<close>, \<open>ClientRetry\<close>, \<open>ClientWatch\<close>): a write reaches the store, a repeated
    one is not executed, two rounds of retries survive one failed server, a watch resumes
    without gap; and runs in which the leader is never called and a watch loses a change.

  \<^bold>\<open>Bounds\<close>

  The retry loops of the client take a number of rounds and return \<^const>\<open>None\<close> when it is
  used up; the theorems give a number that is enough, or show that none is. All other loops
  end by recursion on their data. The wait for the applied index takes the number of polls until its
  context ends. Channels of watchers hold 16 events, as in the code; the apply channel and the
  event queue of a store are lists without a bound.

  \<^bold>\<open>Not modelled\<close>

  Real time: timers and sleeps are steps or arguments. Scheduling of goroutines inside a
  critical section, and slices that share memory: a log in a request in flight is a value.
  One message of the apply loop is one step, although the code unlocks between its test and its
  execution; what other goroutines do meanwhile is part of the schedules of the handlers.
  Handing an event to a watch channel while the context ends. The generated protobuf accessors
  and gRPC stubs, serving a listener, the command line of \<^verbatim>\<open>cmd/kv-server\<close>, logging, and
  copying memory to and from the C library. The packages \<^verbatim>\<open>raftnode\<close> and \<^verbatim>\<open>errors\<close> contain no code.
\<close>

end
